(* ===== verification/FsxPrelude.thy ===== *)
theory FsxPrelude
  imports Main "HOL-Library.Word"
begin

unbundle bit_operations_syntax

text \<open>
  Shared vocabulary of the development: machine integers and bytes, \<open>std::string\<close> as a
  list of characters, C++ results (a value, a thrown \<open>std::exception\<close>, or undefined
  behaviour), decimal printing and parsing (\<open>std::to_string\<close>, \<open>std::stoi\<close>), the
  C-string view of a \<open>std::string\<close>, and little-endian memory images of integers.
\<close>

named_theorems codec_simps \<open>rewriting of reads over concatenated field encodings\<close>
named_theorems wp_simps \<open>computation of weakest preconditions\<close>
named_theorems result_simps \<open>rewriting of the result and state-and-result combinators\<close>

type_synonym u8 = "8 word"
type_synonym u16 = "16 word"
type_synonym u32 = "32 word"
type_synonym u64 = "64 word"
type_synonym bytes = "8 word list"

section \<open>Results: values, exceptions, undefined behaviour\<close>

text \<open>
  A C++ call returns a value, throws an exception derived from \<open>std::exception\<close> (of which
  only \<open>what()\<close> is ever used), or has undefined behaviour (a read outside a buffer, a
  stream used after \<open>fclose\<close>). The last is a value too, so that its absence can be stated;
  no \<open>catch\<close> clause stops it.
\<close>

datatype exn = StdException string | UndefinedBehaviour

type_synonym 'a result = "exn + 'a"

abbreviation throw :: "string \<Rightarrow> 'a result" where
  "throw what \<equiv> Inl (StdException what)"

abbreviation undefined_behaviour :: "'a result" where
  "undefined_behaviour \<equiv> Inl UndefinedBehaviour"

definition rbind :: "'a result \<Rightarrow> ('a \<Rightarrow> 'b result) \<Rightarrow> 'b result" where
  "rbind m f = (case m of Inl e \<Rightarrow> Inl e | Inr x \<Rightarrow> f x)"

lemma rbind_Inr [simp, result_simps]: "rbind (Inr x) f = f x"
  by (simp add: rbind_def)

lemma rbind_Inl [simp, result_simps]: "rbind (Inl e) f = Inl e"
  by (simp add: rbind_def)

lemma rbind_eq_Inr: "rbind m f = Inr y \<longleftrightarrow> (\<exists>x. m = Inr x \<and> f x = Inr y)"
  by (cases m) simp_all

lemma rbind_eq_UB [result_simps]:
  "rbind m f = undefined_behaviour \<longleftrightarrow>
     m = undefined_behaviour \<or> (\<exists>x. m = Inr x \<and> f x = undefined_behaviour)"
  by (cases m) simp_all

lemma rbind_not_UB [intro]:
  assumes "m \<noteq> undefined_behaviour"
    and "\<And>x. m = Inr x \<Longrightarrow> f x \<noteq> undefined_behaviour"
  shows "rbind m f \<noteq> undefined_behaviour"
  using assms by (cases m) simp_all

text \<open>
  A member function that mutates an object also when it throws: the result comes with the
  state it leaves behind.
\<close>

type_synonym ('s, 'a) action = "'s \<Rightarrow> 'a result \<times> 's"

definition sbind :: "('s, 'a) action \<Rightarrow> ('a \<Rightarrow> ('s, 'b) action) \<Rightarrow> ('s, 'b) action" where
  "sbind m f s = (case m s of (Inl e, s') \<Rightarrow> (Inl e, s') | (Inr x, s') \<Rightarrow> f x s')"

definition sreturn :: "'a \<Rightarrow> ('s, 'a) action" where
  "sreturn x s = (Inr x, s)"

definition slift :: "'a result \<Rightarrow> ('s, 'a) action" where
  "slift r s = (r, s)"

text \<open>\<open>try { m } catch (const std::exception& e) { h(e.what()); }\<close>\<close>

definition scatch :: "('s, 'a) action \<Rightarrow> (string \<Rightarrow> ('s, 'a) action) \<Rightarrow> ('s, 'a) action" where
  "scatch m h s = (case m s of (Inl (StdException w), s') \<Rightarrow> h w s' | (r, s') \<Rightarrow> (r, s'))"

lemma sbind_simps [simp, result_simps]:
  "m s = (Inr x, s') \<Longrightarrow> sbind m f s = f x s'"
  "m s = (Inl e, s') \<Longrightarrow> sbind m f s = (Inl e, s')"
  by (simp_all add: sbind_def)

lemma sreturn_apply [simp, result_simps]: "sreturn x s = (Inr x, s)"
  by (simp add: sreturn_def)

lemma slift_apply [simp, result_simps]: "slift r s = (r, s)"
  by (simp add: slift_def)

lemma scatch_simps [simp, result_simps]:
  "m s = (Inr x, s') \<Longrightarrow> scatch m h s = (Inr x, s')"
  "m s = (Inl (StdException w), s') \<Longrightarrow> scatch m h s = h w s'"
  "m s = (Inl UndefinedBehaviour, s') \<Longrightarrow> scatch m h s = (Inl UndefinedBehaviour, s')"
  by (simp_all add: scatch_def)

text \<open>
  The weakest precondition of an action for a condition on its result and its final state. A
  proof about a handler unfolds it call by call with \<open>wp_simps\<close>.
\<close>

definition wp :: "('s, 'a) action \<Rightarrow> ('a result \<Rightarrow> 's \<Rightarrow> bool) \<Rightarrow> 's \<Rightarrow> bool" where
  "wp m Q s \<longleftrightarrow> Q (fst (m s)) (snd (m s))"

lemma wp_basic [wp_simps]:
  "wp (sreturn x) Q s \<longleftrightarrow> Q (Inr x) s"
  "wp (slift r) Q s \<longleftrightarrow> Q r s"
  by (simp_all add: wp_def)

lemma wp_sbind [wp_simps]:
  "wp (sbind m f) Q s \<longleftrightarrow>
     wp m (\<lambda>r s'. case r of Inl e \<Rightarrow> Q (Inl e) s' | Inr x \<Rightarrow> wp (f x) Q s') s"
  by (simp add: wp_def sbind_def split: prod.split sum.split)

lemma wp_scatch [wp_simps]:
  "wp (scatch m h) Q s \<longleftrightarrow>
     wp m (\<lambda>r s'. case r of
            Inr x \<Rightarrow> Q (Inr x) s'
          | Inl e \<Rightarrow> (case e of StdException w \<Rightarrow> wp (h w) Q s' | UndefinedBehaviour \<Rightarrow> Q (Inl e) s')) s"
  by (simp add: wp_def scatch_def split: prod.split sum.split exn.split)

lemma wp_branches [wp_simps]:
  "wp (if b then m else m') Q s \<longleftrightarrow> (if b then wp m Q s else wp m' Q s)"
  "wp (case x of None \<Rightarrow> n | Some y \<Rightarrow> f y) Q s \<longleftrightarrow>
     (case x of None \<Rightarrow> wp n Q s | Some y \<Rightarrow> wp (f y) Q s)"
  by (simp_all split: option.split)

lemma wp_mono: "wp m Q s \<Longrightarrow> (\<And>r s'. Q r s' \<Longrightarrow> Q' r s') \<Longrightarrow> wp m Q' s"
  by (simp add: wp_def)

text \<open>Running an action, as a weakest precondition.\<close>

lemma wp_run: "wp m (\<lambda>r s'. r = x \<and> s' = t) s \<Longrightarrow> m s = (x, t)"
  by (simp add: wp_def prod_eq_iff)

lemma wp_apply: "wp m Q s \<Longrightarrow> m s = (r, s') \<Longrightarrow> Q r s'"
  by (simp add: wp_def)

section \<open>Characters and bytes\<close>

definition byte_of_char :: "char \<Rightarrow> u8" where
  "byte_of_char c = word_of_nat (of_char c)"

definition char_of_byte :: "u8 \<Rightarrow> char" where
  "char_of_byte b = char_of (unat b)"

lemma char_of_byte_inverse [simp]: "char_of_byte (byte_of_char c) = c"
proof -
  have "of_char c < (256 :: nat)" by simp
  then show ?thesis
    by (simp add: char_of_byte_def byte_of_char_def unat_of_nat take_bit_eq_mod)
qed

lemma byte_of_char_inverse [simp]: "byte_of_char (char_of_byte b) = b"
proof -
  have "unat b < 256" using unsigned_less [of b] by simp
  then show ?thesis
    by (simp add: char_of_byte_def byte_of_char_def)
qed

text \<open>\<open>reinterpret_cast\<close> between the characters of a \<open>std::string\<close> and \<open>uint8_t\<close>.\<close>

definition string_bytes :: "string \<Rightarrow> bytes" where
  "string_bytes s = map byte_of_char s"

definition bytes_string :: "bytes \<Rightarrow> string" where
  "bytes_string bs = map char_of_byte bs"

lemma bytes_string_inverse [simp]: "bytes_string (string_bytes s) = s"
  by (simp add: string_bytes_def bytes_string_def comp_def)

lemma string_bytes_inverse [simp]: "string_bytes (bytes_string bs) = bs"
  by (simp add: string_bytes_def bytes_string_def comp_def)

lemma length_string_bytes [simp]: "length (string_bytes s) = length s"
  by (simp add: string_bytes_def)

lemma length_bytes_string [simp]: "length (bytes_string bs) = length bs"
  by (simp add: bytes_string_def)

text \<open>\<open>s.c_str()\<close> as a C function sees it: the characters before the first NUL.\<close>

definition c_str :: "string \<Rightarrow> string" where
  "c_str s = takeWhile (\<lambda>c. c \<noteq> CHR 0x00) s"

lemma c_str_id: "CHR 0x00 \<notin> set s \<Longrightarrow> c_str s = s"
  unfolding c_str_def by (rule takeWhile_eq_all_conv [THEN iffD2]) metis

lemma c_str_append: "CHR 0x00 \<notin> set s \<Longrightarrow> c_str (s @ t) = s @ c_str t"
  unfolding c_str_def by (rule takeWhile_append2) metis

section \<open>Integers in memory\<close>

text \<open>
  The image of a \<open>w\<close>-bit integer in the memory of the little-endian host the code is built
  for: \<open>store_le n w\<close> is the \<open>n\<close> bytes at \<open>&w\<close>, \<open>load_le\<close> reads them back.
\<close>

definition store_le :: "nat \<Rightarrow> 'a::len word \<Rightarrow> bytes" where
  "store_le n w = map (\<lambda>i. ucast (drop_bit (8 * i) w)) [0..<n]"

fun load_le :: "bytes \<Rightarrow> 'a::len word" where
  "load_le [] = 0"
| "load_le (b # bs) = ucast b OR push_bit 8 (load_le bs)"

lemma length_store_le [simp]: "length (store_le n w) = n"
  by (simp add: store_le_def)

lemma nth_store_le: "i < n \<Longrightarrow> store_le n w ! i = ucast (drop_bit (8 * i) w)"
  by (simp add: store_le_def)

lemma bit_load_le:
  "bit (load_le bs :: 'a::len word) k \<longleftrightarrow>
     k < LENGTH('a) \<and> k div 8 < length bs \<and> bit (bs ! (k div 8)) (k mod 8)"
proof (induction bs arbitrary: k)
  case Nil
  then show ?case by simp
next
  case (Cons b bs)
  show ?case
  proof (cases "k < 8")
    case True
    then show ?thesis by (auto simp: bit_or_iff bit_ucast_iff bit_push_bit_iff)
  next
    case False
    then have k: "k div 8 = Suc ((k - 8) div 8)" "k mod 8 = (k - 8) mod 8"
      by (simp_all add: le_div_geq le_mod_geq)
    from False have "\<not> bit b k" using bit_imp_le_length [of b k] by auto
    with False Cons.IH [of "k - 8"] k show ?thesis
      by (auto simp: bit_or_iff bit_ucast_iff bit_push_bit_iff)
  qed
qed

lemma load_store_le:
  assumes "LENGTH('a::len) = 8 * n"
  shows "load_le (store_le n w) = (w :: 'a word)"
proof (rule bit_word_eqI)
  fix k assume "k < LENGTH('a)"
  with assms have "k div 8 < n" by (simp add: less_mult_imp_div_less mult.commute)
  then show "bit (load_le (store_le n w) :: 'a word) k \<longleftrightarrow> bit w k"
    using \<open>k < LENGTH('a)\<close>
    by (simp add: bit_load_le nth_store_le bit_ucast_iff bit_drop_bit_eq)
qed

lemma store_load_le:
  assumes "LENGTH('a::len) = 8 * n" and "length bs = n"
  shows "store_le n (load_le bs :: 'a word) = bs"
proof (rule nth_equalityI)
  show "length (store_le n (load_le bs :: 'a word)) = length bs" using assms by simp
  fix i assume "i < length (store_le n (load_le bs :: 'a word))"
  then have i: "i < n" by simp
  show "store_le n (load_le bs :: 'a word) ! i = bs ! i"
  proof (rule bit_word_eqI)
    fix k assume "k < LENGTH(8)"
    then have "k < 8" by simp
    with i assms have "8 * i + k < LENGTH('a)" by simp
    with \<open>k < 8\<close> i assms show "bit (store_le n (load_le bs :: 'a word) ! i) k \<longleftrightarrow> bit (bs ! i) k"
      by (simp add: nth_store_le bit_ucast_iff bit_drop_bit_eq bit_load_le)
  qed
qed

text \<open>Byte reversal (\<open>__builtin_bswap16/32/64\<close>): the value whose image is the reversed image.\<close>

definition bswap :: "nat \<Rightarrow> 'a::len word \<Rightarrow> 'a word" where
  "bswap n w = load_le (rev (store_le n w))"

lemma store_bswap: "LENGTH('a::len) = 8 * n \<Longrightarrow> store_le n (bswap n (w :: 'a word)) = rev (store_le n w)"
  by (simp add: bswap_def store_load_le)

lemma bswap_load_le:
  "LENGTH('a::len) = 8 * n \<Longrightarrow> length bs = n \<Longrightarrow> bswap n (load_le bs :: 'a word) = load_le (rev bs)"
  by (simp add: bswap_def store_load_le)

lemma bswap_bswap [simp]: "LENGTH('a::len) = 8 * n \<Longrightarrow> bswap n (bswap n w) = (w :: 'a word)"
  by (simp add: bswap_def store_load_le load_store_le)

lemma find_append:
  "List.find P (xs @ ys) =
     (case List.find P xs of None \<Rightarrow> List.find P ys | Some x \<Rightarrow> Some x)"
  by (induction xs) auto

lemma drop_prefix: "n = length pre \<Longrightarrow> drop n (pre @ rest) = rest"
  by simp

lemma word_increases:
  fixes x :: "'a::len word"
  assumes "x \<noteq> - 1"
  shows "x < x + 1" "x + 1 \<noteq> 0"
proof -
  show "x + 1 \<noteq> 0" using assms by (metis eq_neg_iff_add_eq_0)
  then have "unat (x + 1) = Suc (unat x)" using unatSuc [of x] by (simp add: add.commute)
  then show "x < x + 1" by (simp add: word_less_nat_alt)
qed

section \<open>Decimal numbers\<close>

definition digit_char :: "nat \<Rightarrow> char" where
  "digit_char d = char_of (48 + d)"

definition is_digit :: "char \<Rightarrow> bool" where
  "is_digit c \<longleftrightarrow> 48 \<le> (of_char c :: nat) \<and> (of_char c :: nat) \<le> 57"

definition digit_val :: "char \<Rightarrow> nat" where
  "digit_val c = of_char c - 48"

text \<open>\<open>isspace\<close> in the C locale.\<close>

definition is_space :: "char \<Rightarrow> bool" where
  "is_space c \<longleftrightarrow> (let n = (of_char c :: nat) in n = 32 \<or> (9 \<le> n \<and> n \<le> 13))"

fun dec_string :: "nat \<Rightarrow> string" where
  "dec_string n = (if n < 10 then [digit_char n] else dec_string (n div 10) @ [digit_char (n mod 10)])"

declare dec_string.simps [simp del]

definition to_string_int :: "int \<Rightarrow> string" where
  "to_string_int i = (if i < 0 then CHR ''-'' # dec_string (nat (- i)) else dec_string (nat i))"

definition dec_value :: "string \<Rightarrow> nat" where
  "dec_value ds = foldl (\<lambda>acc c. 10 * acc + digit_val c) 0 ds"

text \<open>
  \<open>std::stoi\<close> and \<open>std::stoll\<close> (\<open>strtol\<close> with base 10): leading white space, an optional
  sign, the longest run of digits; what follows is ignored. No digit throws
  \<open>std::invalid_argument\<close>, a value outside the type throws \<open>std::out_of_range\<close>; the text
  of both is the name of the function.
\<close>

definition parse_dec :: "string \<Rightarrow> int \<Rightarrow> int \<Rightarrow> string \<Rightarrow> int result" where
  "parse_dec name lo hi s =
     (let t = dropWhile is_space s;
          neg = (t \<noteq> [] \<and> hd t = CHR ''-'');
          u = (if t \<noteq> [] \<and> (hd t = CHR ''-'' \<or> hd t = CHR ''+'') then tl t else t);
          ds = takeWhile is_digit u;
          v = (if neg then - int (dec_value ds) else int (dec_value ds))
      in if ds = [] then throw name
         else if v < lo \<or> hi < v then throw name
         else Inr v)"

definition stoi :: "string \<Rightarrow> int result" where
  "stoi = parse_dec ''stoi'' (- 2147483648) 2147483647"

definition stoll :: "string \<Rightarrow> int result" where
  "stoll = parse_dec ''stoll'' (- 9223372036854775808) 9223372036854775807"

lemma of_char_digit_char: "d < 10 \<Longrightarrow> (of_char (digit_char d) :: nat) = 48 + d"
  by (simp add: digit_char_def)

lemma is_digit_digit_char [simp]: "d < 10 \<Longrightarrow> is_digit (digit_char d)"
  by (simp add: is_digit_def of_char_digit_char)

lemma digit_val_digit_char [simp]: "d < 10 \<Longrightarrow> digit_val (digit_char d) = d"
  by (simp add: digit_val_def of_char_digit_char)

lemma dec_string_nonempty [simp]: "dec_string n \<noteq> []"
  by (subst dec_string.simps) simp

lemma dec_string_digits: "\<forall>c \<in> set (dec_string n). is_digit c"
proof (induction n rule: dec_string.induct)
  case (1 n)
  then show ?case
    by (cases "n < 10") (auto simp: dec_string.simps [of n])
qed

lemma dec_value_snoc: "dec_value (ds @ [c]) = 10 * dec_value ds + digit_val c"
  by (simp add: dec_value_def)

lemma dec_value_dec_string [simp]: "dec_value (dec_string n) = n"
proof (induction n rule: dec_string.induct)
  case (1 n)
  show ?case
  proof (cases "n < 10")
    case True
    then show ?thesis by (simp add: dec_string.simps [of n] dec_value_def)
  next
    case False
    with 1 show ?thesis
      by (simp add: dec_string.simps [of n] dec_value_snoc)
  qed
qed

lemma dec_string_inject [simp]: "dec_string m = dec_string n \<longleftrightarrow> m = n"
  by (metis dec_value_dec_string)

lemma is_digit_not:
  "is_digit c \<Longrightarrow> \<not> is_space c" "\<not> is_digit CHR ''-''" "\<not> is_digit CHR ''+''"
  "\<not> is_digit CHR ''/''" "\<not> is_digit CHR 0x00" "\<not> is_digit CHR ''$''"
  by (simp_all add: is_digit_def is_space_def Let_def)

lemma hd_dec_string: "is_digit (hd (dec_string n))"
  using dec_string_digits [of n] hd_in_set [OF dec_string_nonempty] by blast

lemma not_in_dec_string: "\<not> is_digit c \<Longrightarrow> c \<notin> set (dec_string n)"
  using dec_string_digits by blast

lemma takeWhile_digits:
  "(rest = [] \<or> \<not> is_digit (hd rest)) \<Longrightarrow> takeWhile is_digit (dec_string n @ rest) = dec_string n"
  by (cases rest) (simp_all add: takeWhile_append dec_string_digits)

lemma parse_dec_dec_string:
  assumes "lo \<le> int n" "int n \<le> hi" "rest = [] \<or> \<not> is_digit (hd rest)"
  shows "parse_dec name lo hi (dec_string n @ rest) = Inr (int n)"
proof -
  obtain c cs where c: "dec_string n = c # cs" by (cases "dec_string n") auto
  then have d: "is_digit c" using hd_dec_string [of n] by simp
  then have "\<not> is_space c" "c \<noteq> CHR ''-''" "c \<noteq> CHR ''+''"
    using is_digit_not by auto
  then have "dropWhile is_space (dec_string n @ rest) = dec_string n @ rest"
    and "hd (dec_string n @ rest) \<noteq> CHR ''-''" "hd (dec_string n @ rest) \<noteq> CHR ''+''"
    by (simp_all add: c)
  with assms show ?thesis
    by (simp add: parse_dec_def Let_def takeWhile_digits)
qed

lemma parse_dec_not_UB [simp]: "parse_dec name lo hi s \<noteq> undefined_behaviour"
  by (simp add: parse_dec_def Let_def)

lemma stoi_dec_string [simp]: "n \<le> 2147483647 \<Longrightarrow> stoi (dec_string n) = Inr (int n)"
  using parse_dec_dec_string [where rest = "[]"] by (simp add: stoi_def)

lemma stoi_not_UB [simp]: "stoi s \<noteq> undefined_behaviour"
  by (simp add: stoi_def)

lemma stoll_not_UB [simp]: "stoll s \<noteq> undefined_behaviour"
  by (simp add: stoll_def)

lemma stoll_dec_string [simp]: "n \<le> 9223372036854775807 \<Longrightarrow> stoll (dec_string n) = Inr (int n)"
  using parse_dec_dec_string [where rest = "[]"] by (simp add: stoll_def)

lemma stoll_range: "stoll s = Inr i \<Longrightarrow> - (2 ^ 63) \<le> i \<and> i < 2 ^ 63"
  by (auto simp: stoll_def parse_dec_def Let_def split: if_splits)

end
