(* ===== verification/FsxPassword.thy ===== *)
theory FsxPassword
  imports FsxPrelude
begin

text \<open>
  Password storage (\<open>core/src/auth/password_hash.cpp\<close>): hexadecimal text, the stored form
  \<open>pbkdf2$iters$salt$hash\<close>, and its check. The libraries the server links against (OpenSSL
  and libpq) are fields of \<open>externals\<close>, functions over a world of type \<open>'w\<close>; what they do
  by their documentation is a named predicate, never a definition.
\<close>

section \<open>External libraries\<close>

datatype pg_status = PGRES_COMMAND_OK | PGRES_TUPLES_OK | PGRES_ERROR

text \<open>
  A \<open>PGresult\<close>: its status, its error message, and its rows of text values (\<open>None\<close> is SQL
  NULL, which \<open>PQgetvalue\<close> gives as the empty string).
\<close>

record pg_result =
  pg_status :: pg_status
  pg_error :: string
  pg_rows :: "string option list list"

record 'w externals =
  RAND_bytes :: "nat \<Rightarrow> 'w \<Rightarrow> bytes option \<times> 'w"
  PKCS5_PBKDF2_HMAC :: "string \<Rightarrow> bytes \<Rightarrow> int \<Rightarrow> nat \<Rightarrow> bytes option"
  PQstatus_ok :: "'w \<Rightarrow> bool"
  PQexecParams :: "string \<Rightarrow> string list \<Rightarrow> 'w \<Rightarrow> pg_result option \<times> 'w"
  PQexec :: "string \<Rightarrow> 'w \<Rightarrow> pg_result option \<times> 'w"

text \<open>Documented: on success, both OpenSSL calls fill exactly the buffer they are given.\<close>

definition openssl_fills :: "'w externals \<Rightarrow> bool" where
  "openssl_fills X \<longleftrightarrow>
     (\<forall>n w bs w'. RAND_bytes X n w = (Some bs, w') \<longrightarrow> length bs = n) \<and>
     (\<forall>p s i n dk. PKCS5_PBKDF2_HMAC X p s i n = Some dk \<longrightarrow> length dk = n)"

section \<open>Hexadecimal text\<close>

definition hex_digit :: "nat \<Rightarrow> char" where
  "hex_digit n = (if n < 10 then char_of (48 + n) else char_of (87 + n))"

definition is_xdigit :: "char \<Rightarrow> bool" where
  "is_xdigit c \<longleftrightarrow> (let n = (of_char c :: nat) in
     (48 \<le> n \<and> n \<le> 57) \<or> (65 \<le> n \<and> n \<le> 70) \<or> (97 \<le> n \<and> n \<le> 102))"

definition xdigit_val :: "char \<Rightarrow> nat" where
  "xdigit_val c = (let n = (of_char c :: nat) in
     if n \<le> 57 then n - 48 else if n \<le> 70 then n - 55 else n - 87)"

definition to_hex :: "bytes \<Rightarrow> string" where
  "to_hex bs = concat (map (\<lambda>b. [hex_digit (unat b div 16), hex_digit (unat b mod 16)]) bs)"

text \<open>
  \<open>stringstream ss; ss << std::hex << text; ss >> v\<close> for an \<open>unsigned\<close> \<open>v\<close> without an
  initial value: white space is skipped; if nothing is left, \<open>v\<close> is not written, and reading it
  is undefined; otherwise a sign, then the longest run of hexadecimal digits (none gives 0).
  The result is narrowed to \<open>unsigned char\<close>.
\<close>

definition extract_hex :: "string \<Rightarrow> u8 result" where
  "extract_hex text =
     (let t = dropWhile is_space text in
      if t = [] then undefined_behaviour
      else let neg = (hd t = CHR ''-'');
               u = (if hd t = CHR ''-'' \<or> hd t = CHR ''+'' then tl t else t);
               v = foldl (\<lambda>acc c. 16 * acc + xdigit_val c) 0 (takeWhile is_xdigit u)
           in Inr (word_of_int (if neg then - int v else int v)))"

fun from_hex_pairs :: "string \<Rightarrow> bytes result" where
  "from_hex_pairs (a # b # rest) =
     rbind (extract_hex [a, b]) (\<lambda>v. rbind (from_hex_pairs rest) (\<lambda>vs. Inr (v # vs)))"
| "from_hex_pairs _ = Inr []"

definition from_hex :: "string \<Rightarrow> bytes result" where
  "from_hex hex = (if length hex mod 2 \<noteq> 0 then throw ''invalid hex'' else from_hex_pairs hex)"

lemma of_char_hex_digit:
  "n < 16 \<Longrightarrow> (of_char (hex_digit n) :: nat) = (if n < 10 then 48 + n else 87 + n)"
  by (simp add: hex_digit_def)

lemma hex_digit_facts [simp]:
  assumes "n < 16"
  shows "is_xdigit (hex_digit n)" "xdigit_val (hex_digit n) = n" "\<not> is_space (hex_digit n)"
    "hex_digit n \<noteq> CHR ''-''" "hex_digit n \<noteq> CHR ''+''" "hex_digit n \<noteq> CHR ''$''"
    "hex_digit n \<noteq> CHR 0x00"
  using assms
  by (auto simp: is_xdigit_def xdigit_val_def is_space_def Let_def of_char_hex_digit
      dest!: arg_cong [where f = "of_char :: char \<Rightarrow> nat"] split: if_splits)

lemma extract_hex_pair [simp]:
  "extract_hex [hex_digit (unat b div 16), hex_digit (unat b mod 16)] = Inr (b :: u8)"
proof -
  have "unat b < 256" using unsigned_less [of b] by simp
  then have "unat b div 16 < 16" "unat b mod 16 < 16" by (auto simp: less_mult_imp_div_less)
  moreover have "16 * (int (unat b) div 16) + int (unat b) mod 16 = int (unat b)" by simp
  ultimately show ?thesis
    by (simp add: extract_hex_def zdiv_int zmod_int)
qed

lemma from_to_hex [simp]: "from_hex (to_hex bs) = Inr bs"
proof -
  have len: "length (to_hex bs) = 2 * length bs" by (induction bs) (simp_all add: to_hex_def)
  have "from_hex_pairs (to_hex bs) = Inr bs" by (induction bs) (simp_all add: to_hex_def)
  with len show ?thesis by (simp add: from_hex_def)
qed

lemma length_to_hex [simp]: "length (to_hex bs) = 2 * length bs"
  by (induction bs) (simp_all add: to_hex_def)

lemma to_hex_Nil [simp]: "to_hex bs = [] \<longleftrightarrow> bs = []"
  by (cases bs) (simp_all add: to_hex_def)

lemma set_to_hex: "c \<in> set (to_hex bs) \<Longrightarrow> c \<noteq> CHR ''$'' \<and> c \<noteq> CHR 0x00"
proof (induction bs)
  case Nil
  then show ?case by (simp add: to_hex_def)
next
  case (Cons b bs)
  have "unat b < 256" using unsigned_less [of b] by simp
  then have "unat b div 16 < 16" "unat b mod 16 < 16" by (auto simp: less_mult_imp_div_less)
  with Cons show ?case by (auto simp: to_hex_def)
qed

section \<open>Hashing and checking\<close>

definition hash_password_pbkdf2 :: "'w externals \<Rightarrow> string \<Rightarrow> int \<Rightarrow> ('w, string) action" where
  "hash_password_pbkdf2 X password iters w =
     (case RAND_bytes X 16 w of
        (None, w') \<Rightarrow> (throw ''RAND_bytes(salt) failed'', w')
      | (Some salt, w') \<Rightarrow>
          (case PKCS5_PBKDF2_HMAC X password salt iters 32 of
             None \<Rightarrow> (throw ''PKCS5_PBKDF2_HMAC failed'', w')
           | Some dk \<Rightarrow>
               (Inr (''pbkdf2$'' @ to_string_int iters @ ''$'' @ to_hex salt @ ''$'' @ to_hex dk), w')))"

text \<open>\<open>stored.find(c, pos)\<close>\<close>

definition str_find :: "char \<Rightarrow> string \<Rightarrow> nat \<Rightarrow> nat option" where
  "str_find c s pos =
     (let t = drop pos s; n = length (takeWhile (\<lambda>x. x \<noteq> c) t)
      in if n < length t then Some (pos + n) else None)"

text \<open>The constant-time comparison: \<open>diff |= dk[i] ^ hash[i]\<close> over \<open>dk\<close>.\<close>

definition ct_diff :: "bytes \<Rightarrow> bytes \<Rightarrow> u8" where
  "ct_diff dk hash = fold (\<lambda>(a, b) diff. diff OR (a XOR b)) (zip dk hash) 0"

definition verify_password_pbkdf2 :: "'w externals \<Rightarrow> string \<Rightarrow> string \<Rightarrow> bool result" where
  "verify_password_pbkdf2 X password stored =
     (case str_find (CHR ''$'') stored 0 of None \<Rightarrow> Inr False | Some p1 \<Rightarrow>
     (case str_find (CHR ''$'') stored (p1 + 1) of None \<Rightarrow> Inr False | Some p2 \<Rightarrow>
     (case str_find (CHR ''$'') stored (p2 + 1) of None \<Rightarrow> Inr False | Some p3 \<Rightarrow>
      if take p1 stored \<noteq> ''pbkdf2'' then Inr False else
      rbind (stoi (take (p2 - (p1 + 1)) (drop (p1 + 1) stored))) (\<lambda>iters.
      rbind (from_hex (take (p3 - (p2 + 1)) (drop (p2 + 1) stored))) (\<lambda>salt.
      rbind (from_hex (drop (p3 + 1) stored)) (\<lambda>hash.
      case PKCS5_PBKDF2_HMAC X password salt iters (length hash) of
        None \<Rightarrow> Inr False
      | Some dk \<Rightarrow>
          if length dk \<noteq> length hash then Inr False
          else Inr (ct_diff dk hash = 0)))))))"

section \<open>Correctness\<close>

lemma xor_eq_0: "a XOR b = 0 \<longleftrightarrow> a = (b :: 'a::len word)"
  by (metis xor.assoc xor_self_eq xor.right_neutral xor.left_neutral)

lemma ct_diff_acc:
  "length dk = length hash \<Longrightarrow>
     fold (\<lambda>(a, b) diff. diff OR (a XOR b)) (zip dk hash) (d :: u8) = 0 \<longleftrightarrow> d = 0 \<and> dk = hash"
  by (induction dk hash arbitrary: d rule: list_induct2) (auto simp: or_eq_0_iff xor_eq_0)

lemma ct_diff_zero_iff: "length dk = length hash \<Longrightarrow> ct_diff dk hash = 0 \<longleftrightarrow> dk = hash"
  by (simp add: ct_diff_def ct_diff_acc)

lemma str_find_at:
  assumes "c \<notin> set a" and "pos = length pre"
  shows "str_find c (pre @ a @ c # rest) pos = Some (pos + length a)"
proof -
  have "takeWhile (\<lambda>x. x \<noteq> c) (a @ c # rest) = a"
    using assms(1) by (induction a) auto
  then show ?thesis using assms(2) by (simp add: str_find_def Let_def)
qed

text \<open>The check of a stored value of the right shape.\<close>

lemma verify_stored:
  fixes n :: nat
  assumes "n \<le> 2147483647"
  shows "verify_password_pbkdf2 X password
           (''pbkdf2$'' @ dec_string n @ ''$'' @ to_hex salt @ ''$'' @ to_hex hash) =
         (case PKCS5_PBKDF2_HMAC X password salt (int n) (length hash) of
            None \<Rightarrow> Inr False
          | Some dk \<Rightarrow> Inr (length dk = length hash \<and> dk = hash))"
proof -
  let ?D = "CHR ''$''"
  let ?n = "dec_string n" and ?s = "to_hex salt" and ?h = "to_hex hash"
  let ?st = "''pbkdf2$'' @ ?n @ ''$'' @ ?s @ ''$'' @ ?h"
  have nd: "?D \<notin> set ?n" by (rule not_in_dec_string) (simp add: is_digit_def)
  have sd: "?D \<notin> set ?s" using set_to_hex by blast
  have f1: "str_find ?D ?st 0 = Some 6"
    using str_find_at [of ?D "''pbkdf2''" 0 "[]" "?n @ ''$'' @ ?s @ ''$'' @ ?h"] by simp
  have f2: "str_find ?D ?st 7 = Some (7 + length ?n)"
    using str_find_at [of ?D ?n 7 "''pbkdf2$''" "?s @ ''$'' @ ?h"] nd by simp
  have f3: "str_find ?D ?st (7 + length ?n + 1) = Some (7 + length ?n + 1 + length ?s)"
    using str_find_at [of ?D ?s "7 + length ?n + 1" "''pbkdf2$'' @ ?n @ ''$''" ?h] sd by simp
  have t2: "take (7 + length ?n - 7) (drop 7 ?st) = ?n" by simp
  have d3: "drop (7 + length ?n + 1) ?st = ?s @ ''$'' @ ?h"
    using drop_prefix [of "7 + length ?n + 1" "''pbkdf2$'' @ ?n @ ''$''" "?s @ ''$'' @ ?h"] by simp
  have d4: "drop (7 + length ?n + 1 + length ?s + 1) ?st = ?h"
    using drop_prefix [of "7 + length ?n + 1 + length ?s + 1" "''pbkdf2$'' @ ?n @ ''$'' @ ?s @ ''$''" ?h] by simp
  show ?thesis
    unfolding verify_password_pbkdf2_def
    using f1 f2 f3 t2 d3 d4 assms
    by (simp add: ct_diff_zero_iff split: option.splits)
qed

lemma hash_password_stored:
  assumes "hash_password_pbkdf2 X password (int n) w = (Inr stored, w')"
  obtains salt dk where "RAND_bytes X 16 w = (Some salt, w')"
    and "PKCS5_PBKDF2_HMAC X password salt (int n) 32 = Some dk"
    and "stored = ''pbkdf2$'' @ dec_string n @ ''$'' @ to_hex salt @ ''$'' @ to_hex dk"
  using assms
  by (auto simp: hash_password_pbkdf2_def to_string_int_def split: prod.splits option.splits)

section \<open>Properties\<close>

text \<open>
  C24: A stored password accepts the password it was made from, and another password exactly when
  the key derivation maps it, with the stored salt and 120000 iterations, to the stored key;
  checking a stored password never fails and never reads an undefined value.
\<close>

theorem stored_password_checks:
  assumes "openssl_fills X" and "hash_password_pbkdf2 X password 120000 w = (Inr stored, w')"
  shows "verify_password_pbkdf2 X password stored = Inr True \<and>
    (\<exists>salt dk. RAND_bytes X 16 w = (Some salt, w') \<and>
       PKCS5_PBKDF2_HMAC X password salt 120000 32 = Some dk \<and>
       (\<forall>q. verify_password_pbkdf2 X q stored = Inr (PKCS5_PBKDF2_HMAC X q salt 120000 32 = Some dk)))"
proof -
  have h: "hash_password_pbkdf2 X password (int 120000) w = (Inr stored, w')" using assms(2) by simp
  obtain salt dk where s: "RAND_bytes X 16 w = (Some salt, w')"
    and dk: "PKCS5_PBKDF2_HMAC X password salt (int 120000) 32 = Some dk"
    and st: "stored = ''pbkdf2$'' @ dec_string 120000 @ ''$'' @ to_hex salt @ ''$'' @ to_hex dk"
    by (rule hash_password_stored [OF h])
  have len: "length dk = 32" using dk assms(1) by (auto simp: openssl_fills_def)
  have "verify_password_pbkdf2 X q stored = Inr (PKCS5_PBKDF2_HMAC X q salt 120000 32 = Some dk)" for q
    using assms(1) len verify_stored [of 120000 X q salt dk] st
    by (auto simp: openssl_fills_def split: option.splits)
  with s dk show ?thesis by auto
qed

text \<open>
  Hexadecimal text is read back as the bytes it was written from, has two digits per byte,
  and none of them is the separator of the stored form.
\<close>

theorem hex_roundtrip:
  "from_hex (to_hex bs) = Inr bs \<and> length (to_hex bs) = 2 * length bs \<and> CHR ''$'' \<notin> set (to_hex bs)"
  using set_to_hex by auto

end
