(* ===== verification/FsxDb.thy ===== *)
theory FsxDb
  imports FsxPassword
begin

text \<open>
  The database layer: \<open>Db\<close> (\<open>core/src/db/db.cpp\<close>), \<open>UserRepository\<close> and
  \<open>SessionRepository\<close> over libpq, and the interface \<open>user_directory\<close> that the rest of
  the server relies on. \<open>PQclear\<close> only frees memory and has no counterpart.
\<close>

section \<open>Db\<close>

definition Db_exec :: "'w externals \<Rightarrow> string \<Rightarrow> ('w, pg_result option) action" where
  "Db_exec X sql w =
     (if \<not> PQstatus_ok X w then (throw ''DB not connected'', w)
      else let (r, w') = PQexec X sql w in (Inr r, w'))"

definition Db_exec_params :: "'w externals \<Rightarrow> string \<Rightarrow> string list \<Rightarrow> ('w, pg_result option) action" where
  "Db_exec_params X sql params w =
     (if \<not> PQstatus_ok X w then (throw ''DB not connected'', w)
      else let values = map c_str params;
               (r, w') = PQexecParams X sql values w
           in (Inr r, w'))"

definition Db_must_ok :: "pg_result option \<Rightarrow> string \<Rightarrow> pg_result result" where
  "Db_must_ok r ctx =
     (case r of
        None \<Rightarrow> throw (ctx @ '': PGresult is null'')
      | Some res \<Rightarrow>
          if pg_status res \<noteq> PGRES_COMMAND_OK \<and> pg_status res \<noteq> PGRES_TUPLES_OK
          then throw (ctx @ '': '' @ pg_error res)
          else Inr res)"

definition PQntuples :: "pg_result \<Rightarrow> nat" where
  "PQntuples r = length (pg_rows r)"

text \<open>
  \<open>PQgetvalue\<close>: a field outside the result is a null pointer (\<open>None\<close>), and making a
  \<open>std::string\<close> of that is undefined.
\<close>

definition PQgetvalue_ptr :: "pg_result \<Rightarrow> nat \<Rightarrow> nat \<Rightarrow> string option" where
  "PQgetvalue_ptr r i j =
     (if i < length (pg_rows r) \<and> j < length (pg_rows r ! i)
      then Some (case pg_rows r ! i ! j of None \<Rightarrow> [] | Some v \<Rightarrow> v)
      else None)"

definition PQgetvalue :: "pg_result \<Rightarrow> nat \<Rightarrow> nat \<Rightarrow> string result" where
  "PQgetvalue r i j = (case PQgetvalue_ptr r i j of None \<Rightarrow> undefined_behaviour | Some v \<Rightarrow> Inr v)"

section \<open>UserRepository\<close>

record UserRow =
  u_id :: int
  u_username :: string
  u_email :: string
  u_pass_hash :: string

definition sql_create_user :: string where
  "sql_create_user =
     ''INSERT INTO users(username, email, pass_hash) VALUES ($1, $2, $3) RETURNING id;''"

definition sql_get_user :: string where
  "sql_get_user =
     ''SELECT id, username, email, pass_hash FROM users WHERE username = $1 LIMIT 1;''"

definition create_user :: "'w externals \<Rightarrow> string \<Rightarrow> string \<Rightarrow> string \<Rightarrow> ('w, int) action" where
  "create_user X username email pass_hash =
     sbind (Db_exec_params X sql_create_user [username, email, pass_hash]) (\<lambda>r.
     sbind (slift (Db_must_ok r ''create_user'')) (\<lambda>res.
     slift (if PQntuples res \<noteq> 1 then throw ''create_user: unexpected row count''
            else rbind (PQgetvalue res 0 0) stoll)))"

definition user_row :: "pg_result \<Rightarrow> UserRow result" where
  "user_row res =
     rbind (PQgetvalue res 0 0) (\<lambda>id_text. rbind (stoll id_text) (\<lambda>i.
     rbind (PQgetvalue res 0 1) (\<lambda>name.
     rbind (PQgetvalue res 0 3) (\<lambda>hash.
     Inr \<lparr>u_id = i, u_username = name,
          u_email = (case PQgetvalue_ptr res 0 2 of Some v \<Rightarrow> v | None \<Rightarrow> []),
          u_pass_hash = hash\<rparr>))))"

definition get_user_by_username :: "'w externals \<Rightarrow> string \<Rightarrow> ('w, UserRow option) action" where
  "get_user_by_username X username =
     sbind (Db_exec_params X sql_get_user [username]) (\<lambda>r.
     sbind (slift (Db_must_ok r ''get_user_by_username'')) (\<lambda>res.
     slift (if PQntuples res = 0 then Inr None else rbind (user_row res) (\<lambda>u. Inr (Some u)))))"

section \<open>SessionRepository\<close>

record SessionRow =
  s_id :: int
  s_user_id :: int
  s_token :: string
  s_expires_at :: string
  s_last_seen_at :: string

definition random_hex_token :: "'w externals \<Rightarrow> nat \<Rightarrow> ('w, string) action" where
  "random_hex_token X nbytes w =
     (case RAND_bytes X nbytes w of
        (None, w') \<Rightarrow> (throw ''RAND_bytes failed'', w')
      | (Some buf, w') \<Rightarrow> (Inr (to_hex buf), w'))"

definition sql_create_session :: string where
  "sql_create_session =
     ''INSERT INTO sessions(user_id, token, expires_at) '' @
     ''VALUES ($1, $2, now() + ($3 || ' seconds')::interval) '' @
     ''RETURNING token;''"

definition create_session :: "'w externals \<Rightarrow> int \<Rightarrow> int \<Rightarrow> ('w, string) action" where
  "create_session X user_id ttl_seconds =
     sbind (random_hex_token X 32) (\<lambda>token.
     sbind (Db_exec_params X sql_create_session
              [to_string_int user_id, token, to_string_int ttl_seconds]) (\<lambda>r.
     sbind (slift (Db_must_ok r ''create_session'')) (\<lambda>res.
     slift (if PQntuples res \<noteq> 1 then throw ''create_session: unexpected row count''
            else PQgetvalue res 0 0))))"

definition session_row :: "pg_result \<Rightarrow> nat \<Rightarrow> SessionRow result" where
  "session_row res i =
     rbind (PQgetvalue res i 0) (\<lambda>t0. rbind (stoll t0) (\<lambda>sid.
     rbind (PQgetvalue res i 1) (\<lambda>t1. rbind (stoll t1) (\<lambda>uid.
     rbind (PQgetvalue res i 2) (\<lambda>token.
     rbind (PQgetvalue res i 3) (\<lambda>expires.
     rbind (PQgetvalue res i 4) (\<lambda>seen.
     Inr \<lparr>s_id = sid, s_user_id = uid, s_token = token, s_expires_at = expires,
          s_last_seen_at = seen\<rparr>)))))))"

definition validate_token :: "'w externals \<Rightarrow> string \<Rightarrow> ('w, SessionRow option) action" where
  "validate_token X token =
     sbind (Db_exec_params X
       (''SELECT id, user_id, token, expires_at::text, last_seen_at::text '' @
        ''FROM sessions '' @ ''WHERE token = $1 AND expires_at > now() '' @ ''LIMIT 1;'') [token]) (\<lambda>r.
     sbind (slift (Db_must_ok r ''validate_token'')) (\<lambda>res.
     slift (if PQntuples res = 0 then Inr None else rbind (session_row res 0) (\<lambda>s. Inr (Some s)))))"

definition touch_session :: "'w externals \<Rightarrow> string \<Rightarrow> ('w, unit) action" where
  "touch_session X token =
     sbind (Db_exec_params X ''UPDATE sessions SET last_seen_at = now() WHERE token = $1;'' [token]) (\<lambda>r.
     slift (rbind (Db_must_ok r ''touch_session'') (\<lambda>_. Inr ())))"

fun session_rows :: "pg_result \<Rightarrow> nat list \<Rightarrow> SessionRow list result" where
  "session_rows res [] = Inr []"
| "session_rows res (i # is) =
     rbind (session_row res i) (\<lambda>s. rbind (session_rows res is) (\<lambda>out. Inr (s # out)))"

definition list_valid_sessions :: "'w externals \<Rightarrow> ('w, SessionRow list) action" where
  "list_valid_sessions X =
     sbind (Db_exec X
       (''SELECT id, user_id, token, expires_at::text, last_seen_at::text '' @
        ''FROM sessions WHERE expires_at > now() '' @ ''ORDER BY last_seen_at DESC;'')) (\<lambda>r.
     sbind (slift (Db_must_ok r ''list_valid_sessions'')) (\<lambda>res.
     slift (session_rows res [0..<PQntuples res])))"

section \<open>The directory of users\<close>

text \<open>
  What \<open>AuthHandler\<close> and the file-offer handler rely on. While the database is usable, a
  lookup changes nothing; it finds the row of the name, when the name is text in the encoding of
  the database (\<open>encodable\<close>; clients may send any bytes), and throws when it is not. Adding a user
  either succeeds, when the name is such text and neither it nor the e-mail address is taken, and
  appends its row; or it throws and leaves the table as it was. Parameters reach the database as C
  strings.
\<close>

locale user_directory =
  fixes find_user :: "string \<Rightarrow> ('w, UserRow option) action"
    and add_user :: "string \<Rightarrow> string \<Rightarrow> string \<Rightarrow> ('w, int) action"
    and user_rows :: "'w \<Rightarrow> UserRow list"
    and usable :: "'w \<Rightarrow> bool"
    and encodable :: "string \<Rightarrow> bool"
  assumes find_user_row:
      "usable w \<Longrightarrow> encodable (c_str name) \<Longrightarrow> find_user name w =
         (Inr (List.find (\<lambda>r. u_username r = c_str name) (user_rows w)), w)"
    and find_user_refused:
      "usable w \<Longrightarrow> \<not> encodable (c_str name) \<Longrightarrow> \<exists>m. find_user name w = (throw m, w)"
    and add_user_ok:
      "usable w \<Longrightarrow> add_user name email hash w = (Inr i, w') \<Longrightarrow>
         usable w' \<and> encodable (c_str name) \<and>
         (\<forall>r \<in> set (user_rows w). u_username r \<noteq> c_str name \<and> u_email r \<noteq> c_str email) \<and>
         user_rows w' = user_rows w @
           [\<lparr>u_id = i, u_username = c_str name, u_email = c_str email, u_pass_hash = c_str hash\<rparr>]"
    and add_user_fails:
      "usable w \<Longrightarrow> add_user name email hash w = (Inl e, w') \<Longrightarrow>
         usable w' \<and> e \<noteq> UndefinedBehaviour \<and> user_rows w' = user_rows w"
begin

text \<open>Whatever the name, a lookup returns or throws, and what it finds is in the table.\<close>

lemma find_user_same: "usable w \<Longrightarrow> snd (find_user name w) = w"
  using find_user_row find_user_refused by (metis snd_conv)

lemma find_user_safe: "usable w \<Longrightarrow> fst (find_user name w) \<noteq> undefined_behaviour"
  using find_user_row [of w name] find_user_refused [of w name] by (cases "encodable (c_str name)") auto

lemma find_user_Inr:
  assumes "usable w" and "find_user name w = (Inr x, w')"
  shows "w' = w" and "x = List.find (\<lambda>r. u_username r = c_str name) (user_rows w)"
  using assms find_user_row [of w name] find_user_refused [of w name] by (cases "encodable (c_str name)"; auto)+

lemma find_added:
  assumes "usable w" and "add_user name email hash w = (Inr i, w')"
  shows "find_user name w' = (Inr (Some \<lparr>u_id = i, u_username = c_str name, u_email = c_str email,
                                          u_pass_hash = c_str hash\<rparr>), w')"
proof -
  note ok = add_user_ok [OF assms]
  then have "List.find (\<lambda>r. u_username r = c_str name) (user_rows w) = None"
    by (auto simp: find_None_iff)
  with ok show ?thesis by (simp add: find_user_row find_append)
qed

lemma find_other:
  assumes "usable w" and "add_user name email hash w = (Inr i, w')" and "c_str other \<noteq> c_str name"
    and "encodable (c_str other)"
  shows "fst (find_user other w') = fst (find_user other w)"
  using add_user_ok [OF assms(1,2)] assms(1,3,4)
  by (simp add: find_user_row find_append split: option.split)

lemma names_stay_unique:
  assumes "usable w" and "distinct (map u_username (user_rows w))"
  shows "distinct (map u_username (user_rows (snd (add_user name email hash w))))"
proof (cases "add_user name email hash w")
  case (Pair r w')
  then show ?thesis
    using add_user_ok [OF assms(1), of name email hash] add_user_fails [OF assms(1), of name email hash]
      assms(2)
    by (cases r) auto
qed

end

text \<open>
  With sessions: opening one gives a token no open session has, and leaves the users alone;
  adding a user leaves the tokens alone.
\<close>

locale account_store = user_directory +
  fixes open_session :: "int \<Rightarrow> int \<Rightarrow> ('w, string) action"
    and tokens :: "'w \<Rightarrow> string set"
  assumes open_session_ok:
      "usable w \<Longrightarrow> open_session uid ttl w = (Inr token, w') \<Longrightarrow>
         usable w' \<and> user_rows w' = user_rows w \<and>
         token \<noteq> [] \<and> token \<notin> tokens w \<and> tokens w' = insert token (tokens w)"
    and open_session_fails:
      "usable w \<Longrightarrow> open_session uid ttl w = (Inl e, w') \<Longrightarrow>
         usable w' \<and> user_rows w' = user_rows w \<and> e \<noteq> UndefinedBehaviour \<and> tokens w' = tokens w"
    and add_user_tokens:
      "usable w \<Longrightarrow> tokens (snd (add_user name email hash w)) = tokens w"
begin

lemma tokens_differ:
  assumes "usable w" and "open_session uid ttl w = (Inr t1, w1)"
    and "open_session uid' ttl' w1 = (Inr t2, w2)"
  shows "t1 \<noteq> t2"
  using open_session_ok [OF assms(1,2)] open_session_ok [OF _ assms(3)] by auto

end

end
