(* ===== verification/FsxReference.thy ===== *)
theory FsxReference
  imports FsxDb
begin

text \<open>
  A concrete instance of the external libraries, to show that what is assumed of them can hold:
  the tables \<open>users\<close> and \<open>sessions\<close> of \<open>docker/postgres/init.sql\<close> (serial key, unique
  user name, unique e-mail address, unique token; text in UTF-8) answering the statements of the repositories,
  a counter as the source of random bytes, and a deterministic key derivation. It stands for
  no code of the repository.
\<close>

record pg_world =
  pg_users :: "UserRow list"
  pg_next_user :: nat
  pg_tokens :: "string list"
  pg_random :: nat

definition pg_world_init :: pg_world where
  "pg_world_init = \<lparr>pg_users = [], pg_next_user = 1, pg_tokens = [], pg_random = 0\<rparr>"

definition pg_rows_ok :: "string option list list \<Rightarrow> pg_result option" where
  "pg_rows_ok rows = Some \<lparr>pg_status = PGRES_TUPLES_OK, pg_error = [], pg_rows = rows\<rparr>"

definition pg_failed :: "string \<Rightarrow> pg_result option" where
  "pg_failed msg = Some \<lparr>pg_status = PGRES_ERROR, pg_error = msg, pg_rows = []\<rparr>"

definition ref_insert_user :: "string \<Rightarrow> string \<Rightarrow> string \<Rightarrow> pg_world \<Rightarrow> pg_result option \<times> pg_world" where
  "ref_insert_user name email hash w =
     (let i = pg_next_user w; w1 = w\<lparr>pg_next_user := i + 1\<rparr> in
      if 9223372036854775807 < i then (pg_failed ''nextval: reached maximum value of sequence'', w)
      else if \<exists>r \<in> set (pg_users w). u_username r = name \<or> u_email r = email
      then (pg_failed ''duplicate key value violates unique constraint'', w1)
      else (pg_rows_ok [[Some (dec_string i)]], w1\<lparr>pg_users := pg_users w @
              [\<lparr>u_id = int i, u_username = name, u_email = email, u_pass_hash = hash\<rparr>]\<rparr>))"

definition ref_select_user :: "string \<Rightarrow> pg_world \<Rightarrow> pg_result option" where
  "ref_select_user name w =
     (case List.find (\<lambda>r. u_username r = name) (pg_users w) of
        None \<Rightarrow> pg_rows_ok []
      | Some r \<Rightarrow> pg_rows_ok [[Some (to_string_int (u_id r)), Some (u_username r), Some (u_email r),
                               Some (u_pass_hash r)]])"

text \<open>Well-formed UTF-8, as PostgreSQL checks it: sequences of one to four bytes.\<close>

definition utf8_2 :: "nat \<Rightarrow> nat \<Rightarrow> bool" where
  "utf8_2 a b \<longleftrightarrow> 0xC2 \<le> a \<and> a \<le> 0xDF \<and> 0x80 \<le> b \<and> b \<le> 0xBF"

definition utf8_3 :: "nat \<Rightarrow> nat \<Rightarrow> nat \<Rightarrow> bool" where
  "utf8_3 a b c \<longleftrightarrow> 0xE0 \<le> a \<and> a \<le> 0xEF \<and> (if a = 0xE0 then 0xA0 else 0x80) \<le> b \<and>
     b \<le> (if a = 0xED then 0x9F else 0xBF) \<and> 0x80 \<le> c \<and> c \<le> 0xBF"

definition utf8_4 :: "nat \<Rightarrow> nat \<Rightarrow> nat \<Rightarrow> nat \<Rightarrow> bool" where
  "utf8_4 a b c d \<longleftrightarrow> 0xF0 \<le> a \<and> a \<le> 0xF4 \<and> (if a = 0xF0 then 0x90 else 0x80) \<le> b \<and>
     b \<le> (if a = 0xF4 then 0x8F else 0xBF) \<and> 0x80 \<le> c \<and> c \<le> 0xBF \<and> 0x80 \<le> d \<and> d \<le> 0xBF"

fun utf8 :: "nat list \<Rightarrow> bool" where
  "utf8 [] \<longleftrightarrow> True"
| "utf8 (a # bs) \<longleftrightarrow>
     (if a < 0x80 then utf8 bs
      else case bs of
        b # cs \<Rightarrow> if utf8_2 a b then utf8 cs
          else (case cs of
            c # ds \<Rightarrow> if utf8_3 a b c then utf8 ds
              else (case ds of d # es \<Rightarrow> utf8_4 a b c d \<and> utf8 es | [] \<Rightarrow> False)
          | [] \<Rightarrow> False)
      | [] \<Rightarrow> False)"

definition ref_encodable :: "string \<Rightarrow> bool" where
  "ref_encodable text = utf8 (map of_char text)"

lemma utf8_ascii: "\<forall>a \<in> set as. a < 0x80 \<Longrightarrow> utf8 as"
  by (induction "as") simp_all

lemma ref_encodable_ascii: "(\<And>c. c \<in> set text \<Longrightarrow> (of_char c :: nat) < 0x80) \<Longrightarrow> ref_encodable text"
  by (auto simp: ref_encodable_def intro!: utf8_ascii)

lemma to_hex_ascii:
  assumes "c \<in> set (to_hex bs)"
  shows "of_char c < (0x80 :: nat)"
proof -
  from assms obtain b :: u8 where "c = hex_digit (unat b div 16) \<or> c = hex_digit (unat b mod 16)"
    by (auto simp: to_hex_def)
  moreover have "unat b < 2 ^ LENGTH(8)" by (rule unsigned_less)
  then have "unat b div 16 < 16" by (simp add: less_mult_imp_div_less)
  ultimately show ?thesis by (auto simp: of_char_hex_digit)
qed

lemma ref_encodable_hex [simp]: "ref_encodable (to_hex bs)"
  by (rule ref_encodable_ascii) (rule to_hex_ascii)

lemma dec_string_ascii: "c \<in> set (dec_string n) \<Longrightarrow> of_char c < (0x80 :: nat)"
  using dec_string_digits [of n] by (auto simp: is_digit_def)

lemma ref_encodable_hash:
  assumes "hash_password_pbkdf2 X password (int n) w = (Inr stored, w')"
  shows "ref_encodable (c_str stored)"
proof (rule ref_encodable_ascii)
  fix c assume "c \<in> set (c_str stored)"
  then have "c \<in> set stored" by (auto simp: c_str_def dest: set_takeWhileD)
  moreover obtain salt dk where "stored = ''pbkdf2$'' @ dec_string n @ ''$'' @ to_hex salt @ ''$'' @ to_hex dk"
    by (rule hash_password_stored [OF assms])
  ultimately show "of_char c < (0x80 :: nat)" using to_hex_ascii dec_string_ascii by auto
qed

lemma ref_encodable_int [simp]: "ref_encodable (to_string_int i)"
  using dec_string_digits by (intro ref_encodable_ascii) (fastforce simp: to_string_int_def is_digit_def split: if_splits)

definition ref_exec_params :: "string \<Rightarrow> string list \<Rightarrow> pg_world \<Rightarrow> pg_result option \<times> pg_world" where
  "ref_exec_params sql params w =
     (if \<exists>p \<in> set params. \<not> ref_encodable p then (pg_failed ''invalid byte sequence for encoding UTF8'', w)
      else if sql = sql_create_user then
        (case params of [name, email, hash] \<Rightarrow> ref_insert_user name email hash w
                      | _ \<Rightarrow> (pg_failed ''parameters'', w))
      else if sql = sql_get_user then
        (case params of [name] \<Rightarrow> (ref_select_user name w, w) | _ \<Rightarrow> (pg_failed ''parameters'', w))
      else if sql = sql_create_session then
        (case params of
           [uid, token, ttl] \<Rightarrow>
             if token \<in> set (pg_tokens w)
             then (pg_failed ''duplicate key value violates unique constraint'', w)
             else (pg_rows_ok [[Some token]], w\<lparr>pg_tokens := token # pg_tokens w\<rparr>)
         | _ \<Rightarrow> (pg_failed ''parameters'', w))
      else (pg_failed ''statement not supported'', w))"

definition ref_externals :: "pg_world externals" where
  "ref_externals =
     \<lparr>RAND_bytes = (\<lambda>n w. (Some (map (\<lambda>i. word_of_nat (pg_random w + i)) [0..<n]),
                            w\<lparr>pg_random := pg_random w + n\<rparr>)),
      PKCS5_PBKDF2_HMAC = (\<lambda>password salt iters n.
        Some (map (\<lambda>k. (string_bytes password @ [0]) ! (k mod (length password + 1)) +
                       (salt @ [0]) ! (k mod (length salt + 1))) [0..<n])),
      PQstatus_ok = (\<lambda>_. True),
      PQexecParams = ref_exec_params,
      PQexec = (\<lambda>sql w. (pg_failed ''statement not supported'', w))\<rparr>"

lemma ref_openssl_fills: "openssl_fills ref_externals"
  by (auto simp: openssl_fills_def ref_externals_def)

definition ref_usable :: "pg_world \<Rightarrow> bool" where
  "ref_usable w \<longleftrightarrow> (\<forall>r \<in> set (pg_users w). 0 \<le> u_id r \<and> u_id r \<le> 9223372036854775807)"

lemma sql_distinct:
  "sql_create_user \<noteq> sql_get_user" "sql_create_session \<noteq> sql_get_user"
  "sql_create_session \<noteq> sql_create_user"
  by (simp_all add: sql_create_user_def sql_get_user_def sql_create_session_def)

lemma stoll_to_string [simp]:
  "0 \<le> i \<Longrightarrow> i \<le> 9223372036854775807 \<Longrightarrow> stoll (to_string_int i) = Inr i"
  using stoll_dec_string [of "nat i"] by (simp add: to_string_int_def)

lemma ref_get_user:
  assumes "ref_usable w"
    and "ref_encodable (c_str name)"
  shows "get_user_by_username ref_externals name w =
           (Inr (List.find (\<lambda>r. u_username r = c_str name) (pg_users w)), w)"
proof (cases "List.find (\<lambda>r. u_username r = c_str name) (pg_users w)")
  case None
  with assms(2) sql_distinct show ?thesis
    by (simp add: get_user_by_username_def sbind_def Db_exec_params_def ref_externals_def
        ref_exec_params_def ref_select_user_def pg_rows_ok_def Db_must_ok_def PQntuples_def)
next
  case (Some r)
  then have "r \<in> set (pg_users w)" by (auto simp: find_Some_iff)
  with assms(1) have "stoll (to_string_int (u_id r)) = Inr (u_id r)" by (simp add: ref_usable_def)
  with Some assms(2) sql_distinct show ?thesis
    by (simp add: get_user_by_username_def sbind_def Db_exec_params_def ref_externals_def
        ref_exec_params_def ref_select_user_def pg_rows_ok_def Db_must_ok_def PQntuples_def
        user_row_def PQgetvalue_def PQgetvalue_ptr_def)
qed

lemma ref_get_user_refused:
  assumes "\<not> ref_encodable (c_str name)"
  shows "get_user_by_username ref_externals name w =
    (throw ''get_user_by_username: invalid byte sequence for encoding UTF8'', w)"
  using assms
  by (simp add: get_user_by_username_def sbind_def Db_exec_params_def ref_externals_def
      ref_exec_params_def pg_failed_def Db_must_ok_def)

lemma ref_create_user:
  "create_user ref_externals name email hash w =
     (if \<not> ref_encodable (c_str name) \<or> \<not> ref_encodable (c_str email) \<or> \<not> ref_encodable (c_str hash)
      then (throw ''create_user: invalid byte sequence for encoding UTF8'', w)
      else if 9223372036854775807 < pg_next_user w
      then (throw ''create_user: nextval: reached maximum value of sequence'', w)
      else if \<exists>r \<in> set (pg_users w). u_username r = c_str name \<or> u_email r = c_str email
      then (throw ''create_user: duplicate key value violates unique constraint'',
            w\<lparr>pg_next_user := pg_next_user w + 1\<rparr>)
      else (Inr (int (pg_next_user w)), w\<lparr>pg_next_user := pg_next_user w + 1, pg_users := pg_users w @
              [\<lparr>u_id = int (pg_next_user w), u_username = c_str name, u_email = c_str email,
               u_pass_hash = c_str hash\<rparr>]\<rparr>))"
  by (auto simp: create_user_def sbind_def Db_exec_params_def ref_externals_def PQgetvalue_def PQgetvalue_ptr_def
      ref_exec_params_def ref_insert_user_def pg_rows_ok_def pg_failed_def Db_must_ok_def PQntuples_def
      Let_def)

lemma ref_random_token: "fst (random_hex_token ref_externals 32 w) =
    Inr (to_hex (map (\<lambda>i. word_of_nat (pg_random w + i)) [0..<32]))"
  by (simp add: random_hex_token_def ref_externals_def)

lemma c_str_to_hex [simp]: "c_str (to_hex bs) = to_hex bs"
  using set_to_hex by (intro c_str_id) blast

lemma c_str_to_string_int: "c_str (to_string_int i) = to_string_int i"
  using not_in_dec_string [of "CHR 0x00"] by (intro c_str_id) (auto simp: to_string_int_def is_digit_def)

lemma ref_create_session:
  "create_session ref_externals uid ttl w =
     (let token = to_hex (map (\<lambda>i. word_of_nat (pg_random w + i)) [0..<32]);
          w1 = w\<lparr>pg_random := pg_random w + 32\<rparr>
      in if token \<in> set (pg_tokens w)
         then (throw ''create_session: duplicate key value violates unique constraint'', w1)
         else (Inr token, w1\<lparr>pg_tokens := token # pg_tokens w\<rparr>))"
proof -
  let ?t = "to_hex (map (\<lambda>i. word_of_nat (pg_random w + i)) [0..<32])"
  have r: "random_hex_token ref_externals 32 w = (Inr ?t, w\<lparr>pg_random := pg_random w + 32\<rparr>)"
    by (simp add: random_hex_token_def ref_externals_def)
  show ?thesis
    unfolding create_session_def sbind_def r Let_def
    using sql_distinct c_str_to_string_int
    by (simp add: Db_exec_params_def ref_externals_def ref_exec_params_def pg_rows_ok_def pg_failed_def
        Db_must_ok_def PQntuples_def PQgetvalue_def PQgetvalue_ptr_def del: upt.simps)
qed

interpretation ref_store:
  account_store "get_user_by_username ref_externals" "create_user ref_externals" pg_users ref_usable ref_encodable
    "create_session ref_externals" "\<lambda>w. set (pg_tokens w)"
proof unfold_locales
  fix w name assume "ref_usable w" and "ref_encodable (c_str name)"
  then show "get_user_by_username ref_externals name w =
      (Inr (List.find (\<lambda>r. u_username r = c_str name) (pg_users w)), w)"
    by (rule ref_get_user)
next
  fix w name assume "\<not> ref_encodable (c_str name)"
  from ref_get_user_refused [OF this]
  show "\<exists>m. get_user_by_username ref_externals name w = (throw m, w)" by blast
next
  fix w w' name email hash i
  assume "ref_usable w" and "create_user ref_externals name email hash w = (Inr i, w')"
  then show "ref_usable w' \<and> ref_encodable (c_str name) \<and>
      (\<forall>r \<in> set (pg_users w). u_username r \<noteq> c_str name \<and> u_email r \<noteq> c_str email) \<and>
      pg_users w' = pg_users w @
        [\<lparr>u_id = i, u_username = c_str name, u_email = c_str email, u_pass_hash = c_str hash\<rparr>]"
    by (auto simp: ref_create_user ref_usable_def split: if_splits)
next
  fix w w' name email hash e
  assume "ref_usable w" and "create_user ref_externals name email hash w = (Inl e, w')"
  then show "ref_usable w' \<and> e \<noteq> UndefinedBehaviour \<and> pg_users w' = pg_users w"
    by (auto simp: ref_create_user ref_usable_def split: if_splits)
next
  fix w w' uid ttl token
  assume "ref_usable w" and "create_session ref_externals uid ttl w = (Inr token, w')"
  then show "ref_usable w' \<and> pg_users w' = pg_users w \<and> token \<noteq> [] \<and> token \<notin> set (pg_tokens w) \<and>
      set (pg_tokens w') = insert token (set (pg_tokens w))"
    by (auto simp: ref_create_session ref_usable_def Let_def simp del: upt.simps split: if_splits)
next
  fix w w' uid ttl e
  assume "ref_usable w" and "create_session ref_externals uid ttl w = (Inl e, w')"
  then show "ref_usable w' \<and> pg_users w' = pg_users w \<and> e \<noteq> UndefinedBehaviour \<and>
      set (pg_tokens w') = set (pg_tokens w)"
    by (auto simp: ref_create_session ref_usable_def Let_def split: if_splits)
next
  fix w name email hash
  show "set (pg_tokens (snd (create_user ref_externals name email hash w))) = set (pg_tokens w)"
    by (simp add: ref_create_user)
qed

text \<open>The stored form of a password hashed with these externals, and its check.\<close>

theorem stored_password_checks_witness:
  "\<exists>stored w'. hash_password_pbkdf2 ref_externals ''secret'' 120000 pg_world_init = (Inr stored, w') \<and>
     verify_password_pbkdf2 ref_externals ''secret'' stored = Inr True"
proof -
  obtain stored w' where h: "hash_password_pbkdf2 ref_externals ''secret'' 120000 pg_world_init = (Inr stored, w')"
    by (auto simp: hash_password_pbkdf2_def ref_externals_def)
  from stored_password_checks [OF ref_openssl_fills h] h show ?thesis by blast
qed

end
