(* ===== verification/FsxWire.thy ===== *)
theory FsxWire
  imports FsxPrelude
begin

text \<open>
  The wire format shared by every message (\<open>core/include/fsx/protocol/message.h\<close> and the
  byte-order helpers of \<open>file_messages.h\<close>): network byte order, bounds-checked reads from a
  received payload, the 12-byte header, and a frame (header and payload).
\<close>

section \<open>Byte order\<close>

definition htons :: "u16 \<Rightarrow> u16" where "htons = bswap 2"
definition ntohs :: "u16 \<Rightarrow> u16" where "ntohs = bswap 2"
definition htonl :: "u32 \<Rightarrow> u32" where "htonl = bswap 4"
definition ntohl :: "u32 \<Rightarrow> u32" where "ntohl = bswap 4"

text \<open>
  \<open>be64toh_portable\<close> takes its first branch on the little-endian host: \<open>__builtin_bswap64\<close>.
  The last branch, for a host that is neither little-endian nor Windows, is
  \<open>be64toh_fallback\<close>; it is written with masks and shifts in the source.
\<close>

definition be64toh_portable :: "u64 \<Rightarrow> u64" where
  "be64toh_portable x = bswap 8 x"

definition htobe64_portable :: "u64 \<Rightarrow> u64" where
  "htobe64_portable x = be64toh_portable x"

definition be64toh_fallback :: "u64 \<Rightarrow> u64" where
  "be64toh_fallback x =
     drop_bit 56 (x AND 0xFF00000000000000) OR
     drop_bit 40 (x AND 0x00FF000000000000) OR
     drop_bit 24 (x AND 0x0000FF0000000000) OR
     drop_bit 8 (x AND 0x000000FF00000000) OR
     push_bit 8 (x AND 0x00000000FF000000) OR
     push_bit 24 (x AND 0x0000000000FF0000) OR
     push_bit 40 (x AND 0x000000000000FF00) OR
     push_bit 56 (x AND 0x00000000000000FF)"

lemma ntoh_hton [simp]:
  "ntohs (htons a) = a" "ntohl (htonl b) = b" "be64toh_portable (htobe64_portable c) = c"
  by (simp_all add: ntohs_def htons_def ntohl_def htonl_def be64toh_portable_def
      htobe64_portable_def)

section \<open>Fields of a payload\<close>

text \<open>
  Writing: the bytes at the address of the converted integer are appended
  (\<open>out.insert(out.end(), (const uint8_t*)&x_be, ... + n)\<close>).
\<close>

definition put16 :: "u16 \<Rightarrow> bytes" where "put16 x = store_le 2 (htons x)"
definition put32 :: "u32 \<Rightarrow> bytes" where "put32 x = store_le 4 (htonl x)"
definition put64 :: "u64 \<Rightarrow> bytes" where "put64 x = store_le 8 (htobe64_portable x)"

text \<open>
  \<open>htons(static_cast<uint16_t>(s.size()))\<close>, then the characters of \<open>s\<close>: the length wraps at
  65536, the characters are all written.
\<close>

definition put_str :: "string \<Rightarrow> bytes" where
  "put_str s = put16 (word_of_nat (length s)) @ string_bytes s"

text \<open>
  Reading: \<open>ntohs(*reinterpret_cast<const uint16_t*>(payload.data() + pos))\<close> and its 32- and
  64-bit kin, and \<open>std::string(payload.data() + pos, len)\<close>. The source guards the position by
  hand; a read that reaches past the end of the vector is undefined behaviour. Unaligned reads
  are taken to work as they do on the host the code is built for.
\<close>

definition get16 :: "bytes \<Rightarrow> nat \<Rightarrow> u16 result" where
  "get16 p pos = (if pos + 2 \<le> length p then Inr (ntohs (load_le (take 2 (drop pos p))))
                  else undefined_behaviour)"

definition get32 :: "bytes \<Rightarrow> nat \<Rightarrow> u32 result" where
  "get32 p pos = (if pos + 4 \<le> length p then Inr (ntohl (load_le (take 4 (drop pos p))))
                  else undefined_behaviour)"

definition get64 :: "bytes \<Rightarrow> nat \<Rightarrow> u64 result" where
  "get64 p pos = (if pos + 8 \<le> length p then Inr (be64toh_portable (load_le (take 8 (drop pos p))))
                  else undefined_behaviour)"

definition get8 :: "bytes \<Rightarrow> nat \<Rightarrow> u8 result" where
  "get8 p pos = (if pos < length p then Inr (p ! pos) else undefined_behaviour)"

definition get_str :: "bytes \<Rightarrow> nat \<Rightarrow> nat \<Rightarrow> string result" where
  "get_str p pos len = (if pos + len \<le> length p then Inr (bytes_string (take len (drop pos p)))
                        else undefined_behaviour)"

lemma length_put [simp]:
  "length (put16 a) = 2" "length (put32 b) = 4" "length (put64 c) = 8"
  "length (put_str s) = 2 + length s"
  by (simp_all add: put16_def put32_def put64_def put_str_def)

lemma load_put [simp]:
  "ntohs (load_le (put16 a)) = a" "ntohl (load_le (put32 b)) = b"
  "be64toh_portable (load_le (put64 c)) = c"
  by (simp_all add: put16_def put32_def put64_def load_store_le)

lemma get_here [codec_simps, simp]:
  "get16 (put16 a @ xs) 0 = Inr a" "get32 (put32 b @ xs) 0 = Inr b" "get64 (put64 c @ xs) 0 = Inr c"
  "get16 (put16 a) 0 = Inr a" "get32 (put32 b) 0 = Inr b" "get64 (put64 c) 0 = Inr c"
  "get8 (d # xs) 0 = Inr d"
  by (simp_all add: get16_def get32_def get64_def get8_def)

lemma get_str_here [codec_simps, simp]:
  "n = length s \<Longrightarrow> get_str (string_bytes s @ xs) 0 n = Inr s"
  "n = length s \<Longrightarrow> get_str (string_bytes s) 0 n = Inr s"
  by (simp_all add: get_str_def)

text \<open>A read behind a prefix is the read of the rest, at the position less the prefix's length.\<close>

lemma get_skip [codec_simps]:
  assumes "length xs \<le> pos"
  shows "get16 (xs @ ys) pos = get16 ys (pos - length xs)"
    "get32 (xs @ ys) pos = get32 ys (pos - length xs)"
    "get64 (xs @ ys) pos = get64 ys (pos - length xs)"
    "get8 (xs @ ys) pos = get8 ys (pos - length xs)"
    "get_str (xs @ ys) pos n = get_str ys (pos - length xs) n"
  using assms
  by (auto simp: get16_def get32_def get64_def get8_def get_str_def nth_append)

lemma get_skip_Cons [codec_simps]:
  assumes "0 < pos"
  shows "get16 (x # ys) pos = get16 ys (pos - 1)"
    "get32 (x # ys) pos = get32 ys (pos - 1)"
    "get64 (x # ys) pos = get64 ys (pos - 1)"
    "get8 (x # ys) pos = get8 ys (pos - 1)"
    "get_str (x # ys) pos n = get_str ys (pos - 1) n"
  using get_skip [where xs = "[x]" and pos = pos] assms by simp_all

text \<open>Inside the buffer, no read is undefined.\<close>

lemma get_eq_UB [codec_simps, simp]:
  "get16 p pos = undefined_behaviour \<longleftrightarrow> length p < pos + 2"
  "get32 p pos = undefined_behaviour \<longleftrightarrow> length p < pos + 4"
  "get64 p pos = undefined_behaviour \<longleftrightarrow> length p < pos + 8"
  "get8 p pos = undefined_behaviour \<longleftrightarrow> length p \<le> pos"
  "get_str p pos n = undefined_behaviour \<longleftrightarrow> length p < pos + n"
  by (auto simp: get16_def get32_def get64_def get8_def get_str_def)

lemma unat_length_u16 [simp]: "length s < 65536 \<Longrightarrow> unat (word_of_nat (length s) :: u16) = length s"
  by (simp add: unat_of_nat take_bit_eq_mod)

section \<open>The manual byte swap\<close>

lemma bit_bswap8:
  assumes "k < 64"
  shows "bit (bswap 8 (x :: u64)) k \<longleftrightarrow> bit x (8 * (7 - k div 8) + k mod 8)"
proof -
  have d: "k div 8 < 8" using assms by (simp add: less_mult_imp_div_less)
  have "8 * (7 - k div 8) \<le> 56" "k mod 8 < 8" by simp_all
  then have "8 * (7 - k div 8) + k mod 8 < 64" by linarith
  with assms d show ?thesis
    by (simp add: bswap_def bit_load_le rev_nth nth_store_le bit_ucast_iff bit_drop_bit_eq)
qed

lemma bit_be64toh_fallback:
  "list_all (\<lambda>k. bit (be64toh_fallback x) k \<longleftrightarrow> bit x (8 * (7 - k div 8) + k mod 8)) [0..<64]"
proof -
  have u: "[0..<64] = 0 # 1 # [2..<64 :: nat]" by (simp add: upt_rec)
  have "bit x 2 = bit x (Suc (Suc 0))" by (simp add: numeral_2_eq_2)
  then show ?thesis
    unfolding u by (simp add: be64toh_fallback_def bit_simps upt_rec_numeral)
qed

lemma be64toh_fallback_eq: "be64toh_fallback x = bswap 8 x"
proof (rule bit_word_eqI)
  fix k assume "k < LENGTH(64)"
  then have "k < 64" by simp
  with bit_be64toh_fallback [of x] show "bit (be64toh_fallback x) k \<longleftrightarrow> bit (bswap 8 x) k"
    by (simp add: bit_bswap8 list_all_iff)
qed

section \<open>Message types\<close>

text \<open>
  \<open>enum class MsgType : uint8_t\<close>. A \<open>static_cast\<close> from the received byte may give a value
  that has no enumerator; it is \<open>OtherType\<close>.
\<close>

datatype MsgType =
    HELLO | PING | PONG
  | REGISTER_REQ | REGISTER_RESP | LOGIN_REQ | LOGIN_RESP
  | ONLINE_LIST_REQ | ONLINE_LIST_RESP
  | FILE_OFFER_REQ | FILE_OFFER_RESP | FILE_ACCEPT_REQ | FILE_ACCEPT_RESP
  | FILE_CHUNK | FILE_DONE | FILE_RESULT
  | ADMIN_ONLINE_LIST_REQ | ADMIN_ONLINE_LIST_RESP
  | OtherType u8

fun msg_code :: "MsgType \<Rightarrow> u8" where
  "msg_code HELLO = 1"
| "msg_code PING = 2"
| "msg_code PONG = 3"
| "msg_code REGISTER_REQ = 10"
| "msg_code REGISTER_RESP = 11"
| "msg_code LOGIN_REQ = 12"
| "msg_code LOGIN_RESP = 13"
| "msg_code ONLINE_LIST_REQ = 20"
| "msg_code ONLINE_LIST_RESP = 21"
| "msg_code FILE_OFFER_REQ = 30"
| "msg_code FILE_OFFER_RESP = 31"
| "msg_code FILE_ACCEPT_REQ = 32"
| "msg_code FILE_ACCEPT_RESP = 33"
| "msg_code FILE_CHUNK = 34"
| "msg_code FILE_DONE = 35"
| "msg_code FILE_RESULT = 36"
| "msg_code ADMIN_ONLINE_LIST_REQ = 100"
| "msg_code ADMIN_ONLINE_LIST_RESP = 101"
| "msg_code (OtherType b) = b"

definition msg_enumerators :: "MsgType list" where
  "msg_enumerators =
     [HELLO, PING, PONG, REGISTER_REQ, REGISTER_RESP, LOGIN_REQ, LOGIN_RESP,
      ONLINE_LIST_REQ, ONLINE_LIST_RESP, FILE_OFFER_REQ, FILE_OFFER_RESP, FILE_ACCEPT_REQ,
      FILE_ACCEPT_RESP, FILE_CHUNK, FILE_DONE, FILE_RESULT,
      ADMIN_ONLINE_LIST_REQ, ADMIN_ONLINE_LIST_RESP]"

definition msg_type_of :: "u8 \<Rightarrow> MsgType" where
  "msg_type_of b = (case find (\<lambda>t. msg_code t = b) msg_enumerators of
                      Some t \<Rightarrow> t | None \<Rightarrow> OtherType b)"

lemma msg_type_of_code [simp]: "(\<And>b. t \<noteq> OtherType b) \<Longrightarrow> msg_type_of (msg_code t) = t"
  by (cases t) (simp_all add: msg_type_of_def msg_enumerators_def)

lemma msg_type_of_codes [simp]:
  "msg_type_of 1 = HELLO" "msg_type_of 2 = PING"
  "msg_type_of 10 = REGISTER_REQ" "msg_type_of 12 = LOGIN_REQ" "msg_type_of 20 = ONLINE_LIST_REQ"
  "msg_type_of 30 = FILE_OFFER_REQ" "msg_type_of 32 = FILE_ACCEPT_REQ"
  "msg_type_of 34 = FILE_CHUNK" "msg_type_of 35 = FILE_DONE"
  by (simp_all add: msg_type_of_def msg_enumerators_def)

lemma msg_code_type_of [simp]: "msg_code (msg_type_of b) = b"
  by (auto simp: msg_type_of_def find_Some_iff split: option.splits)

section \<open>Header and frame\<close>

record MessageHeaderWire =
  magic_be :: u32
  hdr_version :: u8
  hdr_type :: u8
  len_be :: u32
  reserved_be :: u16

definition MAGIC :: u32 where "MAGIC = 0x46535831"
definition VERSION :: u8 where "VERSION = 1"
definition HEADER_SIZE :: nat where "HEADER_SIZE = 12"

definition make_header :: "MsgType \<Rightarrow> u32 \<Rightarrow> MessageHeaderWire" where
  "make_header t len =
     \<lparr>magic_be = htonl MAGIC, hdr_version = VERSION, hdr_type = msg_code t,
      len_be = htonl len, reserved_be = htons 0\<rparr>"

definition validate_header :: "MessageHeaderWire \<Rightarrow> unit result" where
  "validate_header h =
     (if ntohl (magic_be h) \<noteq> MAGIC then throw ''bad magic''
      else if hdr_version h \<noteq> VERSION then throw ''bad version''
      else Inr ())"

definition payload_len :: "MessageHeaderWire \<Rightarrow> u32" where
  "payload_len h = ntohl (len_be h)"

text \<open>
  The header struct is packed, so its memory image is its fields in order; \<open>memcpy\<close> from it
  and \<open>async_read\<close> into it move that image.
\<close>

definition header_bytes :: "MessageHeaderWire \<Rightarrow> bytes" where
  "header_bytes h = store_le 4 (magic_be h) @ [hdr_version h, hdr_type h] @
                    store_le 4 (len_be h) @ store_le 2 (reserved_be h)"

definition header_of_bytes :: "bytes \<Rightarrow> MessageHeaderWire" where
  "header_of_bytes bs =
     \<lparr>magic_be = load_le (take 4 bs), hdr_version = bs ! 4, hdr_type = bs ! 5,
      len_be = load_le (take 4 (drop 6 bs)), reserved_be = load_le (take 2 (drop 10 bs))\<rparr>"

text \<open>\<open>TcpSession::send\<close> builds a frame: header, then payload; so do the clients.\<close>

definition frame :: "MsgType \<Rightarrow> bytes \<Rightarrow> bytes" where
  "frame t payload = header_bytes (make_header t (word_of_nat (length payload))) @ payload"

lemma length_header_bytes [simp]: "length (header_bytes h) = 12"
  by (simp add: header_bytes_def)

lemma length_frame [simp]: "length (frame t p) = 12 + length p"
  by (simp add: frame_def)

lemma header_of_bytes_inverse [simp]: "header_of_bytes (header_bytes h @ rest) = h"
  by (simp add: header_of_bytes_def header_bytes_def nth_append load_store_le)

lemma header_of_bytes_exact [simp]: "header_of_bytes (header_bytes h) = h"
  using header_of_bytes_inverse [of h "[]"] by simp

lemma header_bytes_inverse [simp]:
  assumes "length bs = 12"
  shows "header_bytes (header_of_bytes bs) = bs"
proof -
  have "bs = take 4 bs @ [bs ! 4, bs ! 5] @ take 4 (drop 6 bs) @ take 2 (drop 10 bs)"
    using assms by (auto simp: list_eq_iff_nth_eq nth_append nth_Cons' less_Suc_eq_le intro: arg_cong [where f = "\<lambda>i. bs ! i"])
  with assms show ?thesis
    by (simp add: header_bytes_def header_of_bytes_def store_load_le)
qed

lemma make_header_simps [simp]:
  "validate_header (make_header t len) = Inr ()"
  "payload_len (make_header t len) = len"
  "hdr_type (make_header t len) = msg_code t"
  by (simp_all add: validate_header_def make_header_def payload_len_def)

lemma validate_header_not_UB [simp]: "validate_header h \<noteq> undefined_behaviour"
  by (simp add: validate_header_def)

section \<open>Properties\<close>

text \<open>
  The mask-and-shift fallback of \<open>be64toh_portable\<close> computes, for every 64-bit value, what
  the built-in byte swap computes (so on a big-endian host, where the conversion has to be the
  identity, it would swap).
\<close>

theorem be64_fallback_is_swap: "be64toh_fallback x = be64toh_portable x"
  by (simp add: be64toh_portable_def be64toh_fallback_eq)

text \<open>
  The 12 bytes of a header and the header struct determine each other: reading the image of
  a header gives it back, and every 12 bytes are the image of the header read from them.
\<close>

theorem header_image_bijective:
  "header_of_bytes (header_bytes h @ rest) = h \<and> length (header_bytes h) = HEADER_SIZE \<and>
   (length bs = HEADER_SIZE \<longrightarrow> header_bytes (header_of_bytes bs) = bs)"
  by (simp add: HEADER_SIZE_def)

theorem header_image_bijective_witness:
  "header_bytes (header_of_bytes [0x46, 0x53, 0x58, 0x31, 1, 2, 0, 0, 0, 4, 0, 0]) =
     [0x46, 0x53, 0x58, 0x31, 1, 2, 0, 0, 0, 4, 0, 0]"
  using header_image_bijective [of "make_header PING 4" "[]" "[0x46, 0x53, 0x58, 0x31, 1, 2, 0, 0, 0, 4, 0, 0]"]
  by (simp add: HEADER_SIZE_def)

end
