(* ===== verification/FsxCodec.thy ===== *)
theory FsxCodec
  imports FsxWire
begin

text \<open>
  The interface every message class of \<open>core/include/fsx/protocol/\<close> offers: \<open>serialize\<close>
  and \<open>deserialize\<close> are inverse on the messages whose fields fit their length prefixes, and a
  \<open>deserialize\<close> is safe when no payload makes it read outside the buffer.
\<close>

locale codec =
  fixes ser :: "'m \<Rightarrow> bytes"
    and des :: "bytes \<Rightarrow> 'm result"
    and fits :: "'m \<Rightarrow> bool"
  assumes des_ser: "fits m \<Longrightarrow> des (ser m) = Inr m"
begin

lemma ser_inject: "fits m \<Longrightarrow> fits m' \<Longrightarrow> ser m = ser m' \<longleftrightarrow> m = m'"
  by (metis des_ser sum.inject(2))

lemma des_ser_not_UB: "fits m \<Longrightarrow> des (ser m) \<noteq> undefined_behaviour"
  by (simp add: des_ser)

end

locale safe_codec = codec +
  assumes des_safe: "des p \<noteq> undefined_behaviour"
begin

lemma des_cases:
  obtains (ok) m where "des p = Inr m" | (error) w where "des p = throw w"
  using des_safe by (metis exn.exhaust sum.exhaust)

end

text \<open>Common shape of the guards: the check before a read makes the read defined.\<close>

lemma guarded_read_safe [intro]:
  assumes "\<not> c \<Longrightarrow> m \<noteq> undefined_behaviour"
  shows "(if c then throw w else m) \<noteq> undefined_behaviour"
  using assms by simp

end
