(* ===== verification/FsxAuthMessages.thy ===== *)
theory FsxAuthMessages
  imports FsxCodec
begin

text \<open>
  \<open>core/include/fsx/protocol/auth_messages.h\<close> and \<open>online_messages.h\<close>: requests are only
  deserialized by the server and responses only serialized; the other halves are the clients'
  (theory \<open>FsxClient\<close>). The online list has both.
\<close>

section \<open>REGISTER\<close>

record RegisterReq =
  rreq_username :: string
  rreq_email :: string
  rreq_password :: string

definition RegisterReq_deserialize :: "bytes \<Rightarrow> RegisterReq result" where
  "RegisterReq_deserialize payload =
     (if length payload < 6 then throw ''REGISTER_REQ: payload too short'' else
      rbind (get16 payload 0) (\<lambda>username_len. let pos = 2 in
      if pos + unat username_len > length payload then throw ''REGISTER_REQ: invalid username_len'' else
      rbind (get_str payload pos (unat username_len)) (\<lambda>username. let pos = pos + unat username_len in
      if pos + 2 > length payload then throw ''REGISTER_REQ: missing email_len'' else
      rbind (get16 payload pos) (\<lambda>email_len. let pos = pos + 2 in
      if pos + unat email_len > length payload then throw ''REGISTER_REQ: invalid email_len'' else
      rbind (get_str payload pos (unat email_len)) (\<lambda>email. let pos = pos + unat email_len in
      if pos + 2 > length payload then throw ''REGISTER_REQ: missing password_len'' else
      rbind (get16 payload pos) (\<lambda>password_len. let pos = pos + 2 in
      if pos + unat password_len > length payload then throw ''REGISTER_REQ: invalid password_len'' else
      rbind (get_str payload pos (unat password_len)) (\<lambda>password.
      Inr \<lparr>rreq_username = username, rreq_email = email, rreq_password = password\<rparr>)))))))"

lemma RegisterReq_safe: "RegisterReq_deserialize p \<noteq> undefined_behaviour"
  by (auto simp: RegisterReq_deserialize_def Let_def result_simps split: if_splits)

record RegisterResp =
  rresp_ok :: bool
  rresp_msg :: string

definition RegisterResp_serialize :: "RegisterResp \<Rightarrow> bytes" where
  "RegisterResp_serialize m = [if rresp_ok m then 1 else 0] @ put_str (rresp_msg m)"

section \<open>LOGIN\<close>

record LoginReq =
  lreq_username :: string
  lreq_password :: string

definition LoginReq_deserialize :: "bytes \<Rightarrow> LoginReq result" where
  "LoginReq_deserialize payload =
     (if length payload < 4 then throw ''LOGIN_REQ: payload too short'' else
      rbind (get16 payload 0) (\<lambda>username_len. let pos = 2 in
      if pos + unat username_len > length payload then throw ''LOGIN_REQ: invalid username_len'' else
      rbind (get_str payload pos (unat username_len)) (\<lambda>username. let pos = pos + unat username_len in
      if pos + 2 > length payload then throw ''LOGIN_REQ: missing password_len'' else
      rbind (get16 payload pos) (\<lambda>password_len. let pos = pos + 2 in
      if pos + unat password_len > length payload then throw ''LOGIN_REQ: invalid password_len'' else
      rbind (get_str payload pos (unat password_len)) (\<lambda>password.
      Inr \<lparr>lreq_username = username, lreq_password = password\<rparr>)))))"

lemma LoginReq_safe: "LoginReq_deserialize p \<noteq> undefined_behaviour"
  by (auto simp: LoginReq_deserialize_def Let_def result_simps split: if_splits)

text \<open>\<open>user_id\<close> is a \<open>long long\<close>; it is sent as the \<open>uint64_t\<close> with the same bits.\<close>

record LoginResp =
  lresp_ok :: bool
  lresp_token :: string
  lresp_user_id :: int
  lresp_username :: string
  lresp_msg :: string

definition LoginResp_serialize :: "LoginResp \<Rightarrow> bytes" where
  "LoginResp_serialize m =
     [if lresp_ok m then 1 else 0] @
     (if lresp_ok m
      then put_str (lresp_token m) @ put64 (word_of_int (lresp_user_id m)) @ put_str (lresp_username m)
      else []) @
     put_str (lresp_msg m)"

section \<open>ONLINE_LIST\<close>

record OnlineListResp =
  online_usernames :: "string list"

definition OnlineListResp_serialize :: "OnlineListResp \<Rightarrow> bytes" where
  "OnlineListResp_serialize m =
     put16 (word_of_nat (length (online_usernames m))) @ concat (map put_str (online_usernames m))"

text \<open>
  The loop \<open>for (uint16_t i = 0; i < count && pos + 2 <= size; i++)\<close>, with \<open>count - i\<close>
  as the structural argument. A name that does not fit is skipped, and the position stays
  behind its length field.
\<close>

fun online_loop :: "bytes \<Rightarrow> nat \<Rightarrow> nat \<Rightarrow> string list result" where
  "online_loop payload 0 pos = Inr []"
| "online_loop payload (Suc n) pos =
     (if pos + 2 \<le> length payload then
        rbind (get16 payload pos) (\<lambda>len. let pos = pos + 2 in
        if pos + unat len \<le> length payload then
          rbind (get_str payload pos (unat len)) (\<lambda>username.
          rbind (online_loop payload n (pos + unat len)) (\<lambda>rest. Inr (username # rest)))
        else online_loop payload n pos)
      else Inr [])"

definition OnlineListResp_deserialize :: "bytes \<Rightarrow> OnlineListResp result" where
  "OnlineListResp_deserialize payload =
     (if length payload < 2 then Inr \<lparr>online_usernames = []\<rparr> else
      rbind (get16 payload 0) (\<lambda>count.
      rbind (online_loop payload (unat count) 2) (\<lambda>us. Inr \<lparr>online_usernames = us\<rparr>)))"

definition OnlineListResp_fits :: "OnlineListResp \<Rightarrow> bool" where
  "OnlineListResp_fits m \<longleftrightarrow>
     length (online_usernames m) < 65536 \<and> (\<forall>u \<in> set (online_usernames m). length u < 65536)"

lemma online_loop_written:
  assumes "\<forall>u \<in> set us. length u < 65536"
  shows "online_loop (pre @ concat (map put_str us)) (length us) (length pre) = Inr us"
  using assms
proof (induction us arbitrary: pre)
  case Nil
  then show ?case by simp
next
  case (Cons u us)
  have "online_loop ((pre @ put_str u) @ concat (map put_str us)) (length us) (length (pre @ put_str u))
          = Inr us"
    using Cons by (intro Cons.IH) simp
  moreover have "length u < 65536" using Cons.prems by simp
  ultimately show ?case
    by (simp add: put_str_def [of u] codec_simps Let_def add.assoc)
qed

lemma OnlineListResp_roundtrip:
  assumes "OnlineListResp_fits m"
  shows "OnlineListResp_deserialize (OnlineListResp_serialize m) = Inr m"
proof -
  let ?us = "online_usernames m" and ?n = "word_of_nat (length (online_usernames m)) :: u16"
  have "online_loop (put16 ?n @ concat (map put_str ?us)) (length ?us) 2 = Inr ?us"
    using online_loop_written [of ?us "put16 ?n"] assms by (simp add: OnlineListResp_fits_def)
  with assms show ?thesis
    by (simp add: OnlineListResp_serialize_def OnlineListResp_deserialize_def OnlineListResp_fits_def)
qed

lemma online_loop_safe: "online_loop p n pos \<noteq> undefined_behaviour"
  by (induction p n pos rule: online_loop.induct)
    (auto simp: Let_def result_simps split: if_splits)

lemma OnlineListResp_safe: "OnlineListResp_deserialize p \<noteq> undefined_behaviour"
  by (auto simp: OnlineListResp_deserialize_def result_simps online_loop_safe split: if_splits)

interpretation online_list:
  safe_codec OnlineListResp_serialize OnlineListResp_deserialize OnlineListResp_fits
  by unfold_locales (auto simp: OnlineListResp_roundtrip OnlineListResp_safe)

section \<open>Properties\<close>

text \<open>
  The online list is read back as it was written, when there are fewer than 65536 names
  and each is shorter than 65536 characters.
\<close>

theorem online_list_roundtrip:
  assumes "length us < 65536" and "\<forall>u \<in> set us. length u < 65536"
  shows "OnlineListResp_deserialize (OnlineListResp_serialize \<lparr>online_usernames = us\<rparr>) =
           Inr \<lparr>online_usernames = us\<rparr>"
  using assms by (intro online_list.des_ser) (simp add: OnlineListResp_fits_def)

theorem online_list_roundtrip_witness:
  "OnlineListResp_deserialize (OnlineListResp_serialize \<lparr>online_usernames = [''alice'', [], ''bob'']\<rparr>) =
     Inr \<lparr>online_usernames = [''alice'', [], ''bob'']\<rparr>"
  by (rule online_list_roundtrip) simp_all

text \<open>
  No payload makes the deserialization of a registration, a login, or an online list read
  outside the payload; the loop over the names always ends.
\<close>

theorem auth_messages_safe:
  "RegisterReq_deserialize p \<noteq> undefined_behaviour \<and> LoginReq_deserialize p \<noteq> undefined_behaviour \<and>
   OnlineListResp_deserialize p \<noteq> undefined_behaviour"
  by (simp add: RegisterReq_safe LoginReq_safe online_list.des_safe)

end
