(* ===== verification/FsxAuth.thy ===== *)
theory FsxAuth
  imports FsxReference FsxAuthMessages
begin

text \<open>
  \<open>AuthHandler\<close> (\<open>core/include/fsx/net/auth_handler.h\<close>, \<open>core/src/net/auth_handler.cpp\<close>):
  registration and login over the repositories, with every early return. An exception outside
  the \<open>try\<close> blocks leaves the handler and is caught by the session.
\<close>

section \<open>Handlers\<close>

definition register_fail :: "string \<Rightarrow> RegisterResp" where
  "register_fail msg = \<lparr>rresp_ok = False, rresp_msg = msg\<rparr>"

definition handle_register :: "'w externals \<Rightarrow> RegisterReq \<Rightarrow> ('w, RegisterResp) action" where
  "handle_register X req =
     (if rreq_username req = [] \<or> length (rreq_username req) > 64
      then sreturn (register_fail ''username must be 1-64 characters'')
      else if rreq_password req = [] \<or> length (rreq_password req) > 128
      then sreturn (register_fail ''password must be 1-128 characters'')
      else sbind (get_user_by_username X (rreq_username req)) (\<lambda>existing.
        if existing \<noteq> None then sreturn (register_fail ''username already exists'')
        else if rreq_email req = [] \<or> length (rreq_email req) > 255
        then sreturn (register_fail ''email must be 1-255 characters'')
        else scatch
          (sbind (hash_password_pbkdf2 X (rreq_password req) 120000) (\<lambda>pass_hash.
           sbind (create_user X (rreq_username req) (rreq_email req) pass_hash) (\<lambda>user_id.
           sreturn \<lparr>rresp_ok = True, rresp_msg = ''user created successfully''\<rparr>)))
          (\<lambda>what. sreturn (register_fail (''registration failed: '' @ what)))))"

definition login_fail :: "string \<Rightarrow> LoginResp" where
  "login_fail msg = \<lparr>lresp_ok = False, lresp_token = [], lresp_user_id = 0, lresp_username = [],
                     lresp_msg = msg\<rparr>"

definition handle_login :: "'w externals \<Rightarrow> LoginReq \<Rightarrow> ('w, LoginResp) action" where
  "handle_login X req =
     (if lreq_username req = [] \<or> lreq_password req = []
      then sreturn (login_fail ''username and password required'')
      else sbind (get_user_by_username X (lreq_username req)) (\<lambda>found.
        case found of
          None \<Rightarrow> sreturn (login_fail ''invalid username or password'')
        | Some user \<Rightarrow>
            sbind (slift (verify_password_pbkdf2 X (lreq_password req) (u_pass_hash user))) (\<lambda>verified.
            if \<not> verified then sreturn (login_fail ''invalid username or password'')
            else scatch
              (sbind (create_session X (u_id user) (24 * 3600)) (\<lambda>token.
               sreturn \<lparr>lresp_ok = True, lresp_token = token, lresp_user_id = u_id user,
                        lresp_username = u_username user, lresp_msg = ''login successful''\<rparr>))
              (\<lambda>what. sreturn (login_fail (''login failed: '' @ what))))))"

section \<open>Over an account store\<close>

text \<open>
  The repositories of one \<open>externals\<close> as an account store, with OpenSSL as documented and a
  source of random bytes that does not touch the tables.
\<close>

locale auth_backend =
  account_store "get_user_by_username X" "create_user X" user_rows usable encodable
    "create_session X" tokens
  for X :: "'w externals" and user_rows :: "'w \<Rightarrow> UserRow list" and usable :: "'w \<Rightarrow> bool"
    and tokens :: "'w \<Rightarrow> string set" and encodable :: "string \<Rightarrow> bool" +
  assumes openssl: "openssl_fills X"
    and random_frame: "RAND_bytes X n w = (r, w') \<Longrightarrow>
      usable w' = usable w \<and> user_rows w' = user_rows w \<and> tokens w' = tokens w"
begin

lemma hash_frame:
  assumes "hash_password_pbkdf2 X p i w = (r, w')"
  shows "usable w' = usable w \<and> user_rows w' = user_rows w \<and> tokens w' = tokens w"
  using assms random_frame [of 16 w]
  by (auto simp: hash_password_pbkdf2_def split: prod.splits option.splits)

lemma hash_not_UB: "fst (hash_password_pbkdf2 X p i w) \<noteq> undefined_behaviour"
  by (auto simp: hash_password_pbkdf2_def split: prod.splits option.splits)

text \<open>A successful registration appends one row, whose hash the password checks against.\<close>

lemma register_ok:
  assumes "usable w" and "handle_register X req w = (Inr resp, w')" and "rresp_ok resp"
  obtains i hash where "usable w'"
    and "user_rows w' = user_rows w @ [\<lparr>u_id = i, u_username = c_str (rreq_username req),
           u_email = c_str (rreq_email req), u_pass_hash = hash\<rparr>]"
    and "verify_password_pbkdf2 X (rreq_password req) hash = Inr True"
    and "rreq_username req \<noteq> []" and "rreq_password req \<noteq> []"
    and "\<forall>r \<in> set (user_rows w). u_username r \<noteq> c_str (rreq_username req)"
    and "encodable (c_str (rreq_username req))"
proof -
  obtain found where found: "get_user_by_username X (rreq_username req) w = (found, w)"
    using find_user_same [OF assms(1)] by (metis prod.collapse)
  from assms(2,3)
  have names: "rreq_username req \<noteq> []" "rreq_password req \<noteq> []"
    and body: "scatch
        (sbind (hash_password_pbkdf2 X (rreq_password req) 120000) (\<lambda>pass_hash.
         sbind (create_user X (rreq_username req) (rreq_email req) pass_hash) (\<lambda>user_id.
         sreturn \<lparr>rresp_ok = True, rresp_msg = ''user created successfully''\<rparr>)))
        (\<lambda>what. sreturn (register_fail (''registration failed: '' @ what))) w = (Inr resp, w')"
    by (auto simp: handle_register_def register_fail_def sbind_def found split: if_splits sum.splits)
  obtain h w1 where h: "hash_password_pbkdf2 X (rreq_password req) 120000 w = (h, w1)" by force
  from body assms(3) h obtain stored where stored: "h = Inr stored"
    by (cases h rule: sum.exhaust)
      (auto simp: scatch_def sbind_def register_fail_def split: exn.splits)
  obtain c w2 where c: "create_user X (rreq_username req) (rreq_email req) stored w1 = (c, w2)" by force
  from body assms(3) h stored c obtain i where i: "c = Inr i" and w2: "w2 = w'"
    by (cases c rule: sum.exhaust)
      (auto simp: scatch_def sbind_def register_fail_def split: exn.splits)
  note frame = hash_frame [OF h]
  with assms(1) have "usable w1" by simp
  note row = add_user_ok [OF this c [unfolded i w2]]
  from h stored have hs: "hash_password_pbkdf2 X (rreq_password req) (int 120000) w = (Inr stored, w1)"
    by simp
  obtain salt dk where dk: "PKCS5_PBKDF2_HMAC X (rreq_password req) salt (int 120000) 32 = Some dk"
    and form: "stored = ''pbkdf2$'' @ dec_string 120000 @ ''$'' @ to_hex salt @ ''$'' @ to_hex dk"
    by (rule hash_password_stored [OF hs]) blast
  have "length dk = 32" using dk openssl by (auto simp: openssl_fills_def)
  then have ver: "verify_password_pbkdf2 X (rreq_password req) stored = Inr True"
    using verify_stored [of 120000 X "rreq_password req" salt dk] dk form by simp
  have "CHR 0x00 \<notin> set stored"
    using set_to_hex [of "CHR 0x00"] not_in_dec_string [of "CHR 0x00"]
    by (auto simp: form is_digit_def)
  then have "c_str stored = stored" by (rule c_str_id)
  with row frame ver names show thesis by (intro that [of i stored]) auto
qed

end

interpretation ref_backend:
  auth_backend ref_externals pg_users ref_usable "\<lambda>w. set (pg_tokens w)" ref_encodable
  by unfold_locales
    (rule ref_openssl_fills, auto simp: ref_externals_def ref_usable_def)

section \<open>Login\<close>

context auth_backend begin

lemma login_accepted:
  assumes "usable w" and "lreq_username req \<noteq> []" and "lreq_password req \<noteq> []"
    and "encodable (c_str (lreq_username req))"
    and "List.find (\<lambda>r. u_username r = c_str (lreq_username req)) (user_rows w) = Some user"
    and "verify_password_pbkdf2 X (lreq_password req) (u_pass_hash user) = Inr True"
  obtains (opened) token w' where
      "handle_login X req w = (Inr \<lparr>lresp_ok = True, lresp_token = token, lresp_user_id = u_id user,
         lresp_username = u_username user, lresp_msg = ''login successful''\<rparr>, w')"
      and "token \<noteq> []" and "token \<notin> tokens w" and "tokens w' = insert token (tokens w)"
      and "usable w'" and "user_rows w' = user_rows w"
  | (failed) m w' where "handle_login X req w = (Inr (login_fail (''login failed: '' @ m)), w')"
      and "usable w'" and "user_rows w' = user_rows w" and "tokens w' = tokens w"
proof (cases "create_session X (u_id user) 86400 w")
  case (Pair t w')
  note find = find_user_row [OF assms(1,4)]
  show thesis
  proof (cases t)
    case (Inl e)
    with open_session_fails [OF assms(1), of "u_id user" 86400] Pair
    obtain m where "e = StdException m" and "usable w'" "user_rows w' = user_rows w" "tokens w' = tokens w"
      by (cases e) auto
    with Inl Pair find assms show thesis
      by (intro failed [of m w']) (auto simp: handle_login_def sbind_def scatch_def)
  next
    case (Inr token)
    with open_session_ok [OF assms(1), of "u_id user" 86400] Pair find assms show thesis
      by (intro opened [of token w']) (auto simp: handle_login_def sbind_def scatch_def)
  qed
qed

lemma login_rejected:
  assumes "usable w" and "lreq_username req \<noteq> []" and "lreq_password req \<noteq> []"
    and "encodable (c_str (lreq_username req))"
    and "case List.find (\<lambda>r. u_username r = c_str (lreq_username req)) (user_rows w) of
           None \<Rightarrow> True
         | Some user \<Rightarrow> verify_password_pbkdf2 X (lreq_password req) (u_pass_hash user) = Inr False"
  shows "handle_login X req w = (Inr (login_fail ''invalid username or password''), w)"
  using assms find_user_row [OF assms(1,4)]
  by (auto simp: handle_login_def sbind_def split: option.splits)

text \<open>The tables change only by a successful registration and a successful login.\<close>

lemma login_frame:
  assumes "usable w" and "handle_login X req w = (r, w')"
  shows "usable w' \<and> user_rows w' = user_rows w"
proof -
  obtain found where found: "get_user_by_username X (lreq_username req) w = (found, w)"
    using find_user_same [OF assms(1)] by (metis prod.collapse)
  have "usable w1 \<and> user_rows w1 = user_rows w" if "create_session X uid 86400 w = (t, w1)" for uid t w1
    using open_session_ok [OF assms(1)] open_session_fails [OF assms(1)] that by (cases t) blast+
  with found assms show ?thesis
    by (auto simp: handle_login_def sbind_def scatch_def login_fail_def
        split: if_splits sum.splits option.splits exn.splits prod.splits)
qed

lemma register_frame:
  assumes "usable w" and "handle_register X req w = (r, w')"
  shows "usable w'"
proof -
  obtain h w1 where h: "hash_password_pbkdf2 X (rreq_password req) 120000 w = (h, w1)" by force
  have w1: "usable w1" using hash_frame [OF h] assms(1) by simp
  have "usable w2" if "create_user X (rreq_username req) (rreq_email req) hash w1 = (c, w2)" for hash c w2
    using add_user_ok [OF w1, of _ _ hash] add_user_fails [OF w1, of _ _ hash] that by (cases c) blast+
  moreover obtain found where "get_user_by_username X (rreq_username req) w = (found, w)"
    using find_user_same [OF assms(1)] by (metis prod.collapse)
  ultimately show ?thesis using w1 h assms
    by (auto simp: handle_register_def sbind_def scatch_def register_fail_def
        split: if_splits sum.splits exn.splits prod.splits)
qed

text \<open>Tokens: a login that succeeds adds its own, which is new; nothing else adds one.\<close>

lemma wp_find_user:
  "usable w \<Longrightarrow> wp (get_user_by_username X name) Q w \<longleftrightarrow> Q (fst (get_user_by_username X name w)) w"
  by (simp add: wp_def find_user_same)

lemma wp_open_session:
  assumes "usable w"
    and "\<And>token w'. token \<noteq> [] \<Longrightarrow> token \<notin> tokens w \<Longrightarrow>
           tokens w' = insert token (tokens w) \<Longrightarrow> Q (Inr token) w'"
    and "\<And>what w'. tokens w' = tokens w \<Longrightarrow> Q (throw what) w'"
  shows "wp (create_session X uid ttl) Q w"
proof (cases "create_session X uid ttl w")
  case (Pair r w')
  show ?thesis
  proof (cases r)
    case (Inl e)
    with open_session_fails [OF assms(1)] Pair assms(3) show ?thesis
      by (cases e) (auto simp: wp_def)
  next
    case (Inr token)
    with open_session_ok [OF assms(1)] Pair assms(2) show ?thesis by (simp add: wp_def)
  qed
qed

lemma wp_login_tokens:
  assumes "usable w"
  shows "wp (handle_login X req) (\<lambda>r w'. case r of
           Inl e \<Rightarrow> tokens w' = tokens w
         | Inr resp \<Rightarrow>
             if lresp_ok resp
             then lresp_token resp \<noteq> [] \<and> lresp_token resp \<notin> tokens w \<and>
                  tokens w' = insert (lresp_token resp) (tokens w)
             else tokens w' = tokens w) w"
  using assms
  by (auto simp: handle_login_def login_fail_def wp_simps wp_find_user
      intro!: wp_open_session split: option.split sum.split)

lemma login_tokens:
  assumes "usable w" and "handle_login X req w = (Inr resp, w')"
  shows "if lresp_ok resp
         then lresp_token resp \<noteq> [] \<and> lresp_token resp \<notin> tokens w \<and>
              tokens w' = insert (lresp_token resp) (tokens w)
         else tokens w' = tokens w"
  using wp_apply [OF wp_login_tokens [OF assms(1)] assms(2)] by simp

lemma login_error_tokens:
  assumes "usable w" and "handle_login X req w = (Inl e, w')"
  shows "tokens w' = tokens w"
  using wp_apply [OF wp_login_tokens [OF assms(1)] assms(2)] by simp

lemma register_tokens:
  assumes "usable w" and "handle_register X req w = (r, w')"
  shows "tokens w' = tokens w"
proof -
  obtain h w1 where h: "hash_password_pbkdf2 X (rreq_password req) 120000 w = (h, w1)" by force
  note frame = hash_frame [OF h]
  have "tokens w2 = tokens w1" if "create_user X name email hash w1 = (c, w2)" for name email hash c w2
    using add_user_tokens [of w1 name email hash] frame assms(1) that by simp
  moreover obtain found where "get_user_by_username X (rreq_username req) w = (found, w)"
    using find_user_same [OF assms(1)] by (metis prod.collapse)
  ultimately show ?thesis using frame h assms
    by (auto simp: handle_register_def sbind_def scatch_def register_fail_def
        split: if_splits sum.splits exn.splits prod.splits)
qed

end

section \<open>Properties\<close>

text \<open>
  What PostgreSQL does with the INSERT of a session: for a user in the table and a hexadecimal token
  that no session has (the column is unique), it returns the row.
\<close>

definition inserts_sessions ::
  "'w externals \<Rightarrow> ('w \<Rightarrow> UserRow list) \<Rightarrow> ('w \<Rightarrow> string set) \<Rightarrow> 'w \<Rightarrow> bool" where
  "inserts_sessions X user_rows tokens w \<longleftrightarrow> PQstatus_ok X w \<and>
     (\<forall>user \<in> set (user_rows w). \<forall>bs. to_hex bs \<notin> tokens w \<longrightarrow>
        (\<exists>w'. PQexecParams X sql_create_session [to_string_int (u_id user), to_hex bs, to_string_int 86400] w =
           (Some \<lparr>pg_status = PGRES_TUPLES_OK, pg_error = [], pg_rows = [[Some (to_hex bs)]]\<rparr>, w')))"

lemma create_session_inserts:
  assumes "RAND_bytes X 32 w = (Some bs, w1)" and "inserts_sessions X user_rows tokens w1"
    and "user \<in> set (user_rows w1)" and "to_hex bs \<notin> tokens w1"
  obtains w2 where "create_session X (u_id user) 86400 w = (Inr (to_hex bs), w2)"
proof -
  obtain w2 where "PQexecParams X sql_create_session [to_string_int (u_id user), to_hex bs, to_string_int 86400] w1 =
      (Some \<lparr>pg_status = PGRES_TUPLES_OK, pg_error = [], pg_rows = [[Some (to_hex bs)]]\<rparr>, w2)" and "PQstatus_ok X w1"
    using assms(2-4) unfolding inserts_sessions_def by blast
  with assms(1) have "create_session X (u_id user) 86400 w = (Inr (to_hex bs), w2)"
    by (simp add: create_session_def random_hex_token_def Db_exec_params_def sbind_def Db_must_ok_def PQntuples_def
        PQgetvalue_def PQgetvalue_ptr_def c_str_to_string_int)
  then show thesis by (rule that)
qed

text \<open>
  C14: Whoever registered successfully can log in with that name and password. The login succeeds
  for the registered user, whose row the answer carries the id and the name of; its token is the
  hexadecimal text of 32 bytes of the random source, so it has 64 digits, and it is valid
  afterwards. (Where those bytes are not the token of another session, and the database inserts
  sessions as it is documented to.)
\<close>

theorem register_then_login:
  assumes "auth_backend X user_rows usable tokens encodable" and "usable w"
    and "handle_register X \<lparr>rreq_username = u, rreq_email = e, rreq_password = p\<rparr> w = (Inr resp, w1)"
    and "rresp_ok resp"
    and "RAND_bytes X 32 w1 = (Some bs, w2)" and "to_hex bs \<notin> tokens w1" and "inserts_sessions X user_rows tokens w2"
  shows "\<exists>user answer w3. user \<in> set (user_rows w1) \<and> user \<notin> set (user_rows w) \<and>
    u_username user = c_str u \<and> u_email user = c_str e \<and>
    handle_login X \<lparr>lreq_username = u, lreq_password = p\<rparr> w1 = (Inr answer, w3) \<and>
    lresp_ok answer \<and> lresp_user_id answer = u_id user \<and> lresp_username answer = c_str u \<and>
    lresp_token answer = to_hex bs \<and> length (lresp_token answer) = 64 \<and>
    tokens w3 = insert (to_hex bs) (tokens w1)"
proof -
  note B = assms(1)
  obtain i hash where w1: "usable w1"
    and rows: "user_rows w1 = user_rows w @ [\<lparr>u_id = i, u_username = c_str u, u_email = c_str e,
                 u_pass_hash = hash\<rparr>]"
    and ver: "verify_password_pbkdf2 X p hash = Inr True" and ne: "u \<noteq> []" "p \<noteq> []"
    and fresh: "\<forall>r \<in> set (user_rows w). u_username r \<noteq> c_str u" and enc: "encodable (c_str u)"
    using auth_backend.register_ok [OF B assms(2-4)] by auto
  let ?user = "\<lparr>u_id = i, u_username = c_str u, u_email = c_str e, u_pass_hash = hash\<rparr>"
  let ?req = "\<lparr>lreq_username = u, lreq_password = p\<rparr>"
  have "List.find (\<lambda>r. u_username r = c_str u) (user_rows w) = None"
    using fresh by (auto simp: find_None_iff)
  with rows have find: "List.find (\<lambda>r. u_username r = c_str u) (user_rows w1) = Some ?user"
    by (simp add: find_append)
  have r: "user_rows w2 = user_rows w1" "tokens w2 = tokens w1"
    using auth_backend.random_frame [OF B assms(5)] by simp_all
  have user: "?user \<in> set (user_rows w2)" and token: "to_hex bs \<notin> tokens w2" using rows r assms(6) by simp_all
  obtain w3 where "create_session X (u_id ?user) 86400 w1 = (Inr (to_hex bs), w3)"
    by (rule create_session_inserts [OF assms(5,7) user token])
  then have cs: "create_session X i 86400 w1 = (Inr (to_hex bs), w3)" by simp
  have "tokens w3 = insert (to_hex bs) (tokens w1)"
    using account_store.open_session_ok [OF auth_backend.axioms(1) [OF B] w1 cs] by simp
  moreover have "handle_login X ?req w1 = (Inr \<lparr>lresp_ok = True, lresp_token = to_hex bs, lresp_user_id = i,
      lresp_username = c_str u, lresp_msg = ''login successful''\<rparr>, w3)"
    using user_directory.find_user_row [OF account_store.axioms(1) [OF auth_backend.axioms(1) [OF B]] w1 enc] find ver ne cs
    by (simp add: handle_login_def sbind_def scatch_def)
  moreover have "length bs = 32"
    using auth_backend.openssl [OF B] assms(5) by (auto simp: openssl_fills_def)
  moreover have "?user \<notin> set (user_rows w)" using fresh by force
  ultimately show ?thesis
    using user r(1) by (intro exI [of _ ?user] exI [of _ "\<lparr>lresp_ok = True, lresp_token = to_hex bs, lresp_user_id = i,
      lresp_username = c_str u, lresp_msg = ''login successful''\<rparr>"] exI [of _ w3]) simp
qed

definition ref_registered :: pg_world where
  "ref_registered = snd (handle_register ref_externals
     \<lparr>rreq_username = ''alice'', rreq_email = ''a@b'', rreq_password = ''secret''\<rparr> pg_world_init)"

lemma ref_register:
  "handle_register ref_externals
     \<lparr>rreq_username = ''alice'', rreq_email = ''a@b'', rreq_password = ''secret''\<rparr> pg_world_init =
   (Inr \<lparr>rresp_ok = True, rresp_msg = ''user created successfully''\<rparr>, ref_registered)"
proof -
  obtain hash w1 where h: "hash_password_pbkdf2 ref_externals ''secret'' 120000 pg_world_init = (Inr hash, w1)"
    and w1: "pg_users w1 = []" "pg_next_user w1 = 1"
    by (auto simp: hash_password_pbkdf2_def ref_externals_def pg_world_init_def)
  have "ref_encodable (c_str hash)" using ref_encodable_hash [of _ _ 120000] h by simp
  moreover have "ref_encodable (c_str ''alice'')" "ref_encodable (c_str ''a@b'')"
    by (simp_all add: ref_encodable_def c_str_def)
  moreover have "ref_usable pg_world_init" by (simp add: ref_usable_def pg_world_init_def)
  ultimately have "fst (handle_register ref_externals
     \<lparr>rreq_username = ''alice'', rreq_email = ''a@b'', rreq_password = ''secret''\<rparr> pg_world_init) =
       Inr \<lparr>rresp_ok = True, rresp_msg = ''user created successfully''\<rparr>"
    using h w1
    by (simp add: handle_register_def sbind_def scatch_def ref_get_user ref_create_user)
      (simp add: pg_world_init_def)
  then show ?thesis by (simp add: ref_registered_def prod_eq_iff)
qed

lemma ref_inserts_sessions: "inserts_sessions ref_externals pg_users (\<lambda>w. set (pg_tokens w)) w"
  using sql_distinct by (auto simp: inserts_sessions_def ref_externals_def ref_exec_params_def pg_rows_ok_def)

theorem register_then_login_witness:
  "\<exists>answer w2. handle_login ref_externals \<lparr>lreq_username = ''alice'', lreq_password = ''secret''\<rparr>
     ref_registered = (Inr answer, w2) \<and> lresp_ok answer \<and> lresp_username answer = ''alice'' \<and>
     length (lresp_token answer) = 64 \<and> lresp_token answer \<in> set (pg_tokens w2)"
proof -
  have us: "ref_usable pg_world_init" by (simp add: ref_usable_def pg_world_init_def)
  obtain bs w2 where rnd: "RAND_bytes ref_externals 32 ref_registered = (Some bs, w2)"
    by (simp add: ref_externals_def)
  have "set (pg_tokens ref_registered) = {}"
    using ref_backend.register_tokens [OF us ref_register] by (simp add: pg_world_init_def)
  then have new: "to_hex bs \<notin> set (pg_tokens ref_registered)" by simp
  have "rresp_ok \<lparr>rresp_ok = True, rresp_msg = ''user created successfully''\<rparr>" by simp
  from register_then_login [OF ref_backend.auth_backend_axioms us ref_register this rnd new ref_inserts_sessions]
  show ?thesis by (auto simp: c_str_def)
qed

text \<open>
  A login that fails tells nothing about which users exist: an unknown user name and a wrong
  password get the same answer, and neither changes the database.
\<close>

theorem login_failure_uniform:
  assumes "auth_backend X user_rows usable tokens encodable" and "usable w"
    and "encodable (c_str u)" and "encodable (c_str u')"
    and "u \<noteq> []" and "p \<noteq> []" and "u' \<noteq> []" and "p' \<noteq> []"
    and "\<forall>r \<in> set (user_rows w). u_username r \<noteq> c_str u"
    and "List.find (\<lambda>r. u_username r = c_str u') (user_rows w) = Some r"
    and "verify_password_pbkdf2 X p' (u_pass_hash r) = Inr False"
  shows "handle_login X \<lparr>lreq_username = u, lreq_password = p\<rparr> w =
           (Inr (login_fail ''invalid username or password''), w) \<and>
         handle_login X \<lparr>lreq_username = u', lreq_password = p'\<rparr> w =
           (Inr (login_fail ''invalid username or password''), w)"
proof -
  have "List.find (\<lambda>r. u_username r = c_str u) (user_rows w) = None"
    using assms(9) by (auto simp: find_None_iff)
  with assms show ?thesis
    by (simp add: auth_backend.login_rejected)
qed

theorem login_failure_uniform_witness:
  "handle_login ref_externals \<lparr>lreq_username = ''eve'', lreq_password = ''x''\<rparr>
     \<lparr>pg_users = [\<lparr>u_id = 1, u_username = ''bob'', u_email = ''b@b'', u_pass_hash = ''none''\<rparr>],
      pg_next_user = 2, pg_tokens = [], pg_random = 0\<rparr> =
   handle_login ref_externals \<lparr>lreq_username = ''bob'', lreq_password = ''y''\<rparr>
     \<lparr>pg_users = [\<lparr>u_id = 1, u_username = ''bob'', u_email = ''b@b'', u_pass_hash = ''none''\<rparr>],
      pg_next_user = 2, pg_tokens = [], pg_random = 0\<rparr>"
proof -
  let ?r = "\<lparr>u_id = 1, u_username = ''bob'', u_email = ''b@b'', u_pass_hash = ''none''\<rparr>"
  let ?w = "\<lparr>pg_users = [?r], pg_next_user = 2, pg_tokens = [], pg_random = 0\<rparr>"
  have "verify_password_pbkdf2 ref_externals ''y'' (u_pass_hash ?r) = Inr False"
    by (simp add: verify_password_pbkdf2_def str_find_def)
  moreover have "ref_encodable (c_str ''eve'')" "ref_encodable (c_str ''bob'')"
    by (simp_all add: ref_encodable_def c_str_def)
  ultimately show ?thesis using login_failure_uniform [OF ref_backend.auth_backend_axioms, of ?w "''eve''" "''bob''" "''x''" "''y''" ?r]
    by (simp add: ref_usable_def c_str_def)
qed

end
