(* ===== verification/FsxFileMessages.thy ===== *)
theory FsxFileMessages
  imports FsxCodec
begin

text \<open>
  The file-transfer messages of \<open>core/include/fsx/protocol/file_messages.h\<close>: one record per
  struct, its \<open>deserialize\<close> and \<open>serialize\<close>, and the codec each pair forms.
\<close>

section \<open>FILE_OFFER_REQ\<close>

record FileOfferReq =
  oreq_client_transfer_id :: u64
  oreq_receiver_username :: string
  oreq_filename :: string
  oreq_file_size :: u64
  oreq_chunk_size :: u32

definition FileOfferReq_deserialize :: "bytes \<Rightarrow> FileOfferReq result" where
  "FileOfferReq_deserialize payload =
     (if length payload < 14 then throw ''FILE_OFFER_REQ: payload too short'' else
      rbind (if 0 + 8 \<le> length payload then rbind (get64 payload 0) (\<lambda>i. Inr (i, 8)) else Inr (0, 0))
        (\<lambda>(client_id, pos).
      if pos + 2 > length payload then throw ''FILE_OFFER_REQ: missing receiver_username_len'' else
      rbind (get16 payload pos) (\<lambda>receiver_username_len. let pos = pos + 2 in
      if pos + unat receiver_username_len > length payload
      then throw ''FILE_OFFER_REQ: invalid receiver_username_len'' else
      rbind (get_str payload pos (unat receiver_username_len)) (\<lambda>receiver.
      let pos = pos + unat receiver_username_len in
      if pos + 2 > length payload then throw ''FILE_OFFER_REQ: missing filename_len'' else
      rbind (get16 payload pos) (\<lambda>filename_len. let pos = pos + 2 in
      if pos + unat filename_len > length payload
      then throw ''FILE_OFFER_REQ: invalid filename_len'' else
      rbind (get_str payload pos (unat filename_len)) (\<lambda>name.
      let pos = pos + unat filename_len in
      if pos + 8 > length payload then throw ''FILE_OFFER_REQ: missing file_size'' else
      rbind (get64 payload pos) (\<lambda>size. let pos = pos + 8 in
      if pos + 4 > length payload then throw ''FILE_OFFER_REQ: missing chunk_size'' else
      rbind (get32 payload pos) (\<lambda>chunk.
      Inr \<lparr>oreq_client_transfer_id = client_id, oreq_receiver_username = receiver,
           oreq_filename = name, oreq_file_size = size, oreq_chunk_size = chunk\<rparr>))))))))"

definition FileOfferReq_serialize :: "FileOfferReq \<Rightarrow> bytes" where
  "FileOfferReq_serialize m =
     put64 (oreq_client_transfer_id m) @ put_str (oreq_receiver_username m) @
     put_str (oreq_filename m) @ put64 (oreq_file_size m) @ put32 (oreq_chunk_size m)"

definition FileOfferReq_fits :: "FileOfferReq \<Rightarrow> bool" where
  "FileOfferReq_fits m \<longleftrightarrow>
     length (oreq_receiver_username m) < 65536 \<and> length (oreq_filename m) < 65536"

lemma FileOfferReq_roundtrip:
  "FileOfferReq_fits m \<Longrightarrow> FileOfferReq_deserialize (FileOfferReq_serialize m) = Inr m"
  by (cases m)
    (simp add: FileOfferReq_fits_def FileOfferReq_deserialize_def FileOfferReq_serialize_def
      put_str_def codec_simps Let_def)

lemma FileOfferReq_safe: "FileOfferReq_deserialize p \<noteq> undefined_behaviour"
  by (auto simp: FileOfferReq_deserialize_def Let_def result_simps split: if_splits)

interpretation offer_req: safe_codec FileOfferReq_serialize FileOfferReq_deserialize FileOfferReq_fits
  by unfold_locales (auto simp: FileOfferReq_roundtrip FileOfferReq_safe)

section \<open>FILE_OFFER_RESP\<close>

record FileOfferResp =
  oresp_ok :: bool
  oresp_transfer_id :: u64
  oresp_reason :: string

definition FileOfferResp_deserialize :: "bytes \<Rightarrow> FileOfferResp result" where
  "FileOfferResp_deserialize payload =
     (if length payload < 9 then throw ''FILE_OFFER_RESP: payload too short'' else
      rbind (get8 payload 0) (\<lambda>status. let ok = (status = 0); pos = 1 in
      rbind (get64 payload pos) (\<lambda>tid. let pos = pos + 8 in
      rbind (if \<not> ok \<and> pos + 2 \<le> length payload then
               rbind (get16 payload pos) (\<lambda>reason_len. let pos = pos + 2 in
               if pos + unat reason_len \<le> length payload
               then get_str payload pos (unat reason_len) else Inr [])
             else Inr []) (\<lambda>reason.
      Inr \<lparr>oresp_ok = ok, oresp_transfer_id = tid, oresp_reason = reason\<rparr>))))"

definition FileOfferResp_serialize :: "FileOfferResp \<Rightarrow> bytes" where
  "FileOfferResp_serialize m =
     [if oresp_ok m then 0 else 1] @ put64 (oresp_transfer_id m) @
     (if \<not> oresp_ok m then put_str (oresp_reason m) else [])"

definition FileOfferResp_fits :: "FileOfferResp \<Rightarrow> bool" where
  "FileOfferResp_fits m \<longleftrightarrow>
     (if oresp_ok m then oresp_reason m = [] else length (oresp_reason m) < 65536)"

lemma FileOfferResp_roundtrip:
  "FileOfferResp_fits m \<Longrightarrow> FileOfferResp_deserialize (FileOfferResp_serialize m) = Inr m"
  by (cases m)
    (auto simp: FileOfferResp_fits_def FileOfferResp_deserialize_def FileOfferResp_serialize_def
      put_str_def codec_simps Let_def split: if_splits)

lemma FileOfferResp_safe: "FileOfferResp_deserialize p \<noteq> undefined_behaviour"
  by (auto simp: FileOfferResp_deserialize_def Let_def result_simps split: if_splits)

interpretation offer_resp:
  safe_codec FileOfferResp_serialize FileOfferResp_deserialize FileOfferResp_fits
  by unfold_locales (auto simp: FileOfferResp_roundtrip FileOfferResp_safe)

section \<open>FILE_ACCEPT_REQ\<close>

record FileAcceptReq =
  areq_transfer_id :: u64
  areq_accept :: bool

definition FileAcceptReq_deserialize :: "bytes \<Rightarrow> FileAcceptReq result" where
  "FileAcceptReq_deserialize payload =
     (if length payload < 9 then throw ''FILE_ACCEPT_REQ: payload too short'' else
      rbind (get64 payload 0) (\<lambda>tid.
      rbind (get8 payload 8) (\<lambda>a.
      Inr \<lparr>areq_transfer_id = tid, areq_accept = (a = 1)\<rparr>)))"

definition FileAcceptReq_serialize :: "FileAcceptReq \<Rightarrow> bytes" where
  "FileAcceptReq_serialize m = put64 (areq_transfer_id m) @ [if areq_accept m then 1 else 0]"

lemma FileAcceptReq_roundtrip: "FileAcceptReq_deserialize (FileAcceptReq_serialize m) = Inr m"
  by (cases m) (auto simp: FileAcceptReq_deserialize_def FileAcceptReq_serialize_def codec_simps)

lemma FileAcceptReq_safe: "FileAcceptReq_deserialize p \<noteq> undefined_behaviour"
  by (auto simp: FileAcceptReq_deserialize_def result_simps split: if_splits)

interpretation accept_req:
  safe_codec FileAcceptReq_serialize FileAcceptReq_deserialize "\<lambda>_. True"
  by unfold_locales (auto simp: FileAcceptReq_roundtrip FileAcceptReq_safe)

section \<open>FILE_ACCEPT_RESP\<close>

record FileAcceptResp =
  aresp_ok :: bool
  aresp_reason :: string

definition FileAcceptResp_deserialize :: "bytes \<Rightarrow> FileAcceptResp result" where
  "FileAcceptResp_deserialize payload =
     (if length payload < 1 then throw ''FILE_ACCEPT_RESP: payload too short'' else
      rbind (get8 payload 0) (\<lambda>status. let ok = (status = 0) in
      rbind (if \<not> ok \<and> length payload \<ge> 3 then
               rbind (get16 payload 1) (\<lambda>reason_len.
               if 3 + unat reason_len \<le> length payload
               then get_str payload 3 (unat reason_len) else Inr [])
             else Inr []) (\<lambda>reason.
      Inr \<lparr>aresp_ok = ok, aresp_reason = reason\<rparr>)))"

definition FileAcceptResp_serialize :: "FileAcceptResp \<Rightarrow> bytes" where
  "FileAcceptResp_serialize m =
     [if aresp_ok m then 0 else 1] @ (if \<not> aresp_ok m then put_str (aresp_reason m) else [])"

definition FileAcceptResp_fits :: "FileAcceptResp \<Rightarrow> bool" where
  "FileAcceptResp_fits m \<longleftrightarrow>
     (if aresp_ok m then aresp_reason m = [] else length (aresp_reason m) < 65536)"

lemma FileAcceptResp_roundtrip:
  "FileAcceptResp_fits m \<Longrightarrow> FileAcceptResp_deserialize (FileAcceptResp_serialize m) = Inr m"
  by (cases m)
    (auto simp: FileAcceptResp_fits_def FileAcceptResp_deserialize_def FileAcceptResp_serialize_def
      put_str_def codec_simps Let_def split: if_splits)

lemma FileAcceptResp_safe: "FileAcceptResp_deserialize p \<noteq> undefined_behaviour"
  by (cases p) (auto simp: FileAcceptResp_deserialize_def Let_def result_simps split: if_splits)

interpretation accept_resp:
  safe_codec FileAcceptResp_serialize FileAcceptResp_deserialize FileAcceptResp_fits
  by unfold_locales (auto simp: FileAcceptResp_roundtrip FileAcceptResp_safe)

section \<open>FILE_CHUNK\<close>

record FileChunk =
  chunk_transfer_id :: u64
  chunk_index :: u32
  chunk_data :: bytes

definition FileChunk_deserialize :: "bytes \<Rightarrow> FileChunk result" where
  "FileChunk_deserialize payload =
     (if length payload < 12 then throw ''FILE_CHUNK: payload too short'' else
      rbind (get64 payload 0) (\<lambda>tid.
      rbind (get32 payload 8) (\<lambda>idx.
      Inr \<lparr>chunk_transfer_id = tid, chunk_index = idx,
           chunk_data = (if length payload > 12 then drop 12 payload else [])\<rparr>)))"

definition FileChunk_serialize :: "FileChunk \<Rightarrow> bytes" where
  "FileChunk_serialize m = put64 (chunk_transfer_id m) @ put32 (chunk_index m) @ chunk_data m"

lemma FileChunk_roundtrip: "FileChunk_deserialize (FileChunk_serialize m) = Inr m"
  by (cases m) (auto simp: FileChunk_deserialize_def FileChunk_serialize_def codec_simps)

lemma FileChunk_safe: "FileChunk_deserialize p \<noteq> undefined_behaviour"
  by (auto simp: FileChunk_deserialize_def result_simps split: if_splits)

interpretation chunk: safe_codec FileChunk_serialize FileChunk_deserialize "\<lambda>_. True"
  by unfold_locales (auto simp: FileChunk_roundtrip FileChunk_safe)

section \<open>FILE_DONE\<close>

record FileDone =
  done_transfer_id :: u64
  done_total_chunks :: u32
  done_file_size :: u64

text \<open>The guard asks for 16 bytes; the three fields take 20.\<close>

definition FileDone_deserialize :: "bytes \<Rightarrow> FileDone result" where
  "FileDone_deserialize payload =
     (if length payload < 16 then throw ''FILE_DONE: payload too short'' else
      rbind (get64 payload 0) (\<lambda>tid.
      rbind (get32 payload 8) (\<lambda>n.
      rbind (get64 payload 12) (\<lambda>size.
      Inr \<lparr>done_transfer_id = tid, done_total_chunks = n, done_file_size = size\<rparr>))))"

definition FileDone_serialize :: "FileDone \<Rightarrow> bytes" where
  "FileDone_serialize m =
     put64 (done_transfer_id m) @ put32 (done_total_chunks m) @ put64 (done_file_size m)"

lemma FileDone_roundtrip: "FileDone_deserialize (FileDone_serialize m) = Inr m"
  by (cases m) (auto simp: FileDone_deserialize_def FileDone_serialize_def codec_simps)

interpretation file_done: codec FileDone_serialize FileDone_deserialize "\<lambda>_. True"
  by unfold_locales (rule FileDone_roundtrip)

section \<open>FILE_RESULT\<close>

record FileResult =
  result_transfer_id :: u64
  result_ok :: bool
  result_path_or_reason :: string

definition FileResult_deserialize :: "bytes \<Rightarrow> FileResult result" where
  "FileResult_deserialize payload =
     (if length payload < 9 then throw ''FILE_RESULT: payload too short'' else
      rbind (get64 payload 0) (\<lambda>tid.
      rbind (get8 payload 8) (\<lambda>status.
      rbind (if length payload \<ge> 11 then
               rbind (get16 payload 9) (\<lambda>path_len.
               if 11 + unat path_len \<le> length payload
               then get_str payload 11 (unat path_len) else Inr [])
             else Inr []) (\<lambda>path.
      Inr \<lparr>result_transfer_id = tid, result_ok = (status = 0), result_path_or_reason = path\<rparr>))))"

definition FileResult_serialize :: "FileResult \<Rightarrow> bytes" where
  "FileResult_serialize m =
     put64 (result_transfer_id m) @ [if result_ok m then 0 else 1] @
     put_str (result_path_or_reason m)"

definition FileResult_fits :: "FileResult \<Rightarrow> bool" where
  "FileResult_fits m \<longleftrightarrow> length (result_path_or_reason m) < 65536"

lemma FileResult_roundtrip:
  "FileResult_fits m \<Longrightarrow> FileResult_deserialize (FileResult_serialize m) = Inr m"
  by (cases m)
    (auto simp: FileResult_fits_def FileResult_deserialize_def FileResult_serialize_def
      put_str_def codec_simps)

lemma FileResult_safe: "FileResult_deserialize p \<noteq> undefined_behaviour"
  by (auto simp: FileResult_deserialize_def result_simps split: if_splits)

interpretation file_result:
  safe_codec FileResult_serialize FileResult_deserialize FileResult_fits
  by unfold_locales (auto simp: FileResult_roundtrip FileResult_safe)

text \<open>The payload sizes that make each fixed-layout message readable.\<close>

lemma FileDone_deserialize_UB:
  "FileDone_deserialize p = undefined_behaviour \<longleftrightarrow> 16 \<le> length p \<and> length p < 20"
  by (auto simp: FileDone_deserialize_def result_simps get64_def get32_def)

section \<open>Properties\<close>

text \<open>
  C20: Every file-transfer message is read back as it was written: for each of the seven
  messages, deserializing the serialized message gives the message, as long as its strings fit
  their 16-bit length fields (and a response carries a reason only when it reports a failure).
\<close>

theorem file_messages_roundtrip:
  "(FileOfferReq_fits a \<longrightarrow> FileOfferReq_deserialize (FileOfferReq_serialize a) = Inr a) \<and>
   (FileOfferResp_fits b \<longrightarrow> FileOfferResp_deserialize (FileOfferResp_serialize b) = Inr b) \<and>
   FileAcceptReq_deserialize (FileAcceptReq_serialize c) = Inr c \<and>
   (FileAcceptResp_fits d \<longrightarrow> FileAcceptResp_deserialize (FileAcceptResp_serialize d) = Inr d) \<and>
   FileChunk_deserialize (FileChunk_serialize e) = Inr e \<and>
   FileDone_deserialize (FileDone_serialize f) = Inr f \<and>
   (FileResult_fits g \<longrightarrow> FileResult_deserialize (FileResult_serialize g) = Inr g)"
  using offer_req.des_ser offer_resp.des_ser accept_req.des_ser accept_resp.des_ser chunk.des_ser
    file_done.des_ser file_result.des_ser by blast

theorem file_messages_roundtrip_witness:
  "FileOfferReq_deserialize (FileOfferReq_serialize
     \<lparr>oreq_client_transfer_id = 0, oreq_receiver_username = ''bob'', oreq_filename = ''a.txt'',
      oreq_file_size = 5, oreq_chunk_size = 262144\<rparr>) = Inr
     \<lparr>oreq_client_transfer_id = 0, oreq_receiver_username = ''bob'', oreq_filename = ''a.txt'',
      oreq_file_size = 5, oreq_chunk_size = 262144\<rparr> \<and>
   FileOfferResp_deserialize (FileOfferResp_serialize
     \<lparr>oresp_ok = False, oresp_transfer_id = 0, oresp_reason = ''no''\<rparr>) =
     Inr \<lparr>oresp_ok = False, oresp_transfer_id = 0, oresp_reason = ''no''\<rparr> \<and>
   FileAcceptResp_deserialize (FileAcceptResp_serialize \<lparr>aresp_ok = False, aresp_reason = ''no''\<rparr>) =
     Inr \<lparr>aresp_ok = False, aresp_reason = ''no''\<rparr> \<and>
   FileResult_deserialize (FileResult_serialize
     \<lparr>result_transfer_id = 7, result_ok = True, result_path_or_reason = ''p''\<rparr>) =
     Inr \<lparr>result_transfer_id = 7, result_ok = True, result_path_or_reason = ''p''\<rparr>"
  using file_messages_roundtrip
    [of "\<lparr>oreq_client_transfer_id = 0, oreq_receiver_username = ''bob'', oreq_filename = ''a.txt'',
          oreq_file_size = 5, oreq_chunk_size = 262144\<rparr>"
        "\<lparr>oresp_ok = False, oresp_transfer_id = 0, oresp_reason = ''no''\<rparr>" undefined
        "\<lparr>aresp_ok = False, aresp_reason = ''no''\<rparr>" undefined undefined
        "\<lparr>result_transfer_id = 7, result_ok = True, result_path_or_reason = ''p''\<rparr>"]
  by (simp add: FileOfferReq_fits_def FileOfferResp_fits_def FileAcceptResp_fits_def FileResult_fits_def)

text \<open>
  C34: The size check of FILE_DONE is too weak: \<open>deserialize\<close> reads past the end of the
  payload exactly when the payload has 16 to 19 bytes, since the check asks for 16 bytes and the
  three fields take 20.
\<close>

theorem file_done_reads_past_payload:
  "FileDone_deserialize p = undefined_behaviour \<longleftrightarrow> 16 \<le> length p \<and> length p < 20"
  by (rule FileDone_deserialize_UB)

text \<open>
  C35: No payload makes any other file-transfer message's \<open>deserialize\<close> read outside the
  payload: it returns a message or throws.
\<close>

theorem file_messages_safe:
  "FileOfferReq_deserialize p \<noteq> undefined_behaviour \<and>
   FileOfferResp_deserialize p \<noteq> undefined_behaviour \<and>
   FileAcceptReq_deserialize p \<noteq> undefined_behaviour \<and>
   FileAcceptResp_deserialize p \<noteq> undefined_behaviour \<and>
   FileChunk_deserialize p \<noteq> undefined_behaviour \<and>
   FileResult_deserialize p \<noteq> undefined_behaviour"
  by (simp add: offer_req.des_safe offer_resp.des_safe accept_req.des_safe accept_resp.des_safe
      chunk.des_safe file_result.des_safe)

end
