(* ===== verification/FsxTransfer.thy ===== *)
theory FsxTransfer
  imports FsxPrelude "HOL-Library.AList"
begin

text \<open>
  \<open>TransferManager\<close> (\<open>core/include/fsx/transfer/transfer_manager.h\<close> and
  \<open>core/src/transfer/transfer_manager.cpp\<close>). The \<open>unordered_map\<close> of shared pointers is an
  association list with distinct keys, in an arbitrary order; a field written through the
  shared pointer is an update of the entry (\<open>modify_transfer\<close>). The mutex makes each
  operation atomic.
\<close>

section \<open>Unordered maps\<close>

lemma map_of_update [simp]: "map_of (AList.update k v m) = (map_of m)(k \<mapsto> v)"
  by (rule update_conv')

lemma map_of_delete [simp]: "map_of (AList.delete k m) = (map_of m)(k := None)"
  by (rule delete_conv')

lemma set_update_iff:
  "distinct (map fst m) \<Longrightarrow>
     e \<in> set (AList.update k v m) \<longleftrightarrow> e = (k, v) \<or> (e \<in> set m \<and> fst e \<noteq> k)"
  by (induction m) (auto simp: rev_image_eqI)

lemma update_same_key [simp]: "AList.update k v (AList.update k w m) = AList.update k v m"
  by (induction m) auto

section \<open>State\<close>

datatype TransferState = OFFERED | ACCEPTED | RECEIVING | COMPLETED | FAILED

fun state_code :: "TransferState \<Rightarrow> nat" where
  "state_code OFFERED = 0"
| "state_code ACCEPTED = 1"
| "state_code RECEIVING = 2"
| "state_code COMPLETED = 3"
| "state_code FAILED = 4"

lemma state_code_inject: "state_code a = state_code b \<longleftrightarrow> a = b"
  by (cases a; cases b) simp_all

text \<open>The states are ordered by the value of the enumerator.\<close>

instantiation TransferState :: linorder
begin

definition less_eq_TransferState :: "TransferState \<Rightarrow> TransferState \<Rightarrow> bool" where
  "less_eq_TransferState a b \<longleftrightarrow> state_code a \<le> state_code b"

definition less_TransferState :: "TransferState \<Rightarrow> TransferState \<Rightarrow> bool" where
  "less_TransferState a b \<longleftrightarrow> state_code a < state_code b"

instance
  by standard
    (auto simp: less_eq_TransferState_def less_TransferState_def simp flip: state_code_inject)

end

text \<open>A \<open>FILE*\<close>: \<open>None\<close> is \<open>nullptr\<close>, \<open>Some h\<close> names a stream that was opened.\<close>

type_synonym file_ptr = "nat option"

record TransferSession =
  transfer_id :: u64
  sender_user_id :: int
  sender_username :: string
  sender_token :: string
  receiver_user_id :: int
  receiver_username :: string
  filename :: string
  file_size :: u64
  chunk_size :: u32
  expected_chunk_index :: u32
  bytes_received :: u64
  tstate :: TransferState
  temp_file_path :: string
  final_file_path :: string
  file_handle :: file_ptr

record TransferManager =
  next_transfer_id :: u64
  transfers :: "(u64 \<times> TransferSession) list"

section \<open>Operations\<close>

definition TransferManager_init :: TransferManager where
  "TransferManager_init = \<lparr>next_transfer_id = 1, transfers = []\<rparr>"

definition generate_transfer_id :: "TransferManager \<Rightarrow> u64 \<times> TransferManager" where
  "generate_transfer_id tm =
     (next_transfer_id tm, tm\<lparr>next_transfer_id := next_transfer_id tm + 1\<rparr>)"

definition create_transfer ::
  "int \<Rightarrow> string \<Rightarrow> string \<Rightarrow> int \<Rightarrow> string \<Rightarrow> string \<Rightarrow> u64 \<Rightarrow> u32 \<Rightarrow> TransferManager
    \<Rightarrow> u64 \<times> TransferManager" where
  "create_transfer s_id s_name s_token r_id r_name name bytes chunk tm =
     (let (tid, tm') = generate_transfer_id tm;
          session = \<lparr>transfer_id = tid, sender_user_id = s_id, sender_username = s_name,
            sender_token = s_token, receiver_user_id = r_id, receiver_username = r_name,
            filename = name, file_size = bytes, chunk_size = chunk, expected_chunk_index = 0,
            bytes_received = 0, tstate = OFFERED, temp_file_path = [], final_file_path = [],
            file_handle = None\<rparr>
      in (tid, tm'\<lparr>transfers := AList.update tid session (transfers tm')\<rparr>))"

definition get_transfer :: "TransferManager \<Rightarrow> u64 \<Rightarrow> TransferSession option" where
  "get_transfer tm tid = map_of (transfers tm) tid"

definition modify_transfer ::
  "u64 \<Rightarrow> (TransferSession \<Rightarrow> TransferSession) \<Rightarrow> TransferManager \<Rightarrow> TransferManager" where
  "modify_transfer tid f tm =
     (case get_transfer tm tid of
        None \<Rightarrow> tm
      | Some s \<Rightarrow> tm\<lparr>transfers := AList.update tid (f s) (transfers tm)\<rparr>)"

definition update_state :: "u64 \<Rightarrow> TransferState \<Rightarrow> TransferManager \<Rightarrow> bool \<times> TransferManager" where
  "update_state tid new_state tm =
     (case get_transfer tm tid of
        Some _ \<Rightarrow> (True, modify_transfer tid (\<lambda>s. s\<lparr>tstate := new_state\<rparr>) tm)
      | None \<Rightarrow> (False, tm))"

definition mark_chunk_received ::
  "u64 \<Rightarrow> u32 \<Rightarrow> nat \<Rightarrow> TransferManager \<Rightarrow> bool \<times> TransferManager" where
  "mark_chunk_received tid idx chunk_bytes tm =
     (case get_transfer tm tid of
        Some session \<Rightarrow>
          if idx = expected_chunk_index session then
            (True, modify_transfer tid (\<lambda>s. s\<lparr>
               expected_chunk_index := expected_chunk_index s + 1,
               bytes_received := bytes_received s + word_of_nat chunk_bytes,
               tstate := (if tstate s = ACCEPTED then RECEIVING else tstate s)\<rparr>) tm)
          else (False, tm)
      | None \<Rightarrow> (False, tm))"

definition remove_transfer :: "u64 \<Rightarrow> TransferManager \<Rightarrow> bool \<times> TransferManager" where
  "remove_transfer tid tm =
     (get_transfer tm tid \<noteq> None, tm\<lparr>transfers := AList.delete tid (transfers tm)\<rparr>)"

definition get_all_transfers :: "TransferManager \<Rightarrow> TransferSession list" where
  "get_all_transfers tm = map snd (transfers tm)"

section \<open>Lookup laws\<close>

lemma get_transfer_create [simp]:
  "get_transfer (snd (create_transfer a b c d e f g h tm)) tid =
     (if tid = next_transfer_id tm
      then Some \<lparr>transfer_id = tid, sender_user_id = a, sender_username = b, sender_token = c,
        receiver_user_id = d, receiver_username = e, filename = f, file_size = g, chunk_size = h,
        expected_chunk_index = 0, bytes_received = 0, tstate = OFFERED, temp_file_path = [],
        final_file_path = [], file_handle = None\<rparr>
      else get_transfer tm tid)"
  by (simp add: create_transfer_def generate_transfer_id_def get_transfer_def Let_def)

lemma fst_create_transfer [simp]:
  "fst (create_transfer a b c d e f g h tm) = next_transfer_id tm"
  by (simp add: create_transfer_def generate_transfer_id_def Let_def)

lemma next_transfer_id_create [simp]:
  "next_transfer_id (snd (create_transfer a b c d e f g h tm)) = next_transfer_id tm + 1"
  by (simp add: create_transfer_def generate_transfer_id_def Let_def)

lemma get_modify_transfer [simp]:
  "get_transfer (modify_transfer tid f tm) tid' =
     (if tid' = tid then map_option f (get_transfer tm tid) else get_transfer tm tid')"
  by (auto simp: modify_transfer_def get_transfer_def split: option.splits)

lemma next_transfer_id_modify [simp]:
  "next_transfer_id (modify_transfer tid f tm) = next_transfer_id tm"
  by (simp add: modify_transfer_def split: option.splits)

lemma modify_transfer_modify [simp]:
  "modify_transfer tid f (modify_transfer tid g tm) = modify_transfer tid (f \<circ> g) tm"
  by (auto simp: modify_transfer_def get_transfer_def comp_def split: option.splits)

lemma snd_update_state [simp]:
  "snd (update_state tid st tm) = modify_transfer tid (\<lambda>s. s\<lparr>tstate := st\<rparr>) tm"
  by (auto simp: update_state_def modify_transfer_def split: option.splits)

lemma get_remove_transfer [simp]:
  "get_transfer (snd (remove_transfer tid tm)) tid' =
     (if tid' = tid then None else get_transfer tm tid')"
  by (simp add: remove_transfer_def get_transfer_def)

lemma snd_mark_chunk:
  "snd (mark_chunk_received tid idx n tm) =
     (if \<exists>s. get_transfer tm tid = Some s \<and> idx = expected_chunk_index s
      then modify_transfer tid (\<lambda>s. s\<lparr>
               expected_chunk_index := expected_chunk_index s + 1,
               bytes_received := bytes_received s + word_of_nat n,
               tstate := (if tstate s = ACCEPTED then RECEIVING else tstate s)\<rparr>) tm
      else tm)"
  by (auto simp: mark_chunk_received_def split: option.splits)

section \<open>Well-formed managers\<close>

text \<open>
  Every entry is stored under its own id; an id is stored at most once. As long as fewer than
  \<open>2^64 - 1\<close> transfers were offered (\<open>ids_fresh\<close>), every id in use is below the next one
  and none is 0, which the server reads as failure.
\<close>

definition tm_wf :: "TransferManager \<Rightarrow> bool" where
  "tm_wf tm \<longleftrightarrow> distinct (map fst (transfers tm)) \<and>
     (\<forall>tid s. get_transfer tm tid = Some s \<longrightarrow> transfer_id s = tid)"

definition ids_fresh :: "TransferManager \<Rightarrow> bool" where
  "ids_fresh tm \<longleftrightarrow> next_transfer_id tm \<noteq> 0 \<and>
     (\<forall>tid s. get_transfer tm tid = Some s \<longrightarrow> tid \<noteq> 0 \<and> tid < next_transfer_id tm)"

lemma tm_wf_init: "tm_wf TransferManager_init"
  by (simp add: tm_wf_def TransferManager_init_def get_transfer_def)

lemma ids_fresh_init: "ids_fresh TransferManager_init"
  by (simp add: ids_fresh_def TransferManager_init_def get_transfer_def)

lemma tm_wf_create: "tm_wf tm \<Longrightarrow> tm_wf (snd (create_transfer a b c d e f g h tm))"
  by (simp add: tm_wf_def)
    (simp add: create_transfer_def generate_transfer_id_def Let_def distinct_update)

lemma tm_wf_modify:
  assumes "tm_wf tm" and "\<And>s. transfer_id (f s) = transfer_id s"
  shows "tm_wf (modify_transfer tid f tm)"
proof -
  have "distinct (map fst (transfers (modify_transfer tid f tm)))"
    using assms(1) by (simp add: tm_wf_def modify_transfer_def distinct_update split: option.split)
  with assms show ?thesis by (auto simp: tm_wf_def)
qed

lemma tm_wf_remove: "tm_wf tm \<Longrightarrow> tm_wf (snd (remove_transfer tid tm))"
  by (simp add: tm_wf_def) (simp add: remove_transfer_def distinct_delete)

lemma tm_wf_mark: "tm_wf tm \<Longrightarrow> tm_wf (snd (mark_chunk_received tid i n tm))"
  by (auto simp: snd_mark_chunk intro: tm_wf_modify)

lemma ids_fresh_create:
  assumes "ids_fresh tm" and "next_transfer_id tm \<noteq> - 1"
  shows "ids_fresh (snd (create_transfer a b c d e f g h tm))"
proof -
  have "next_transfer_id tm < next_transfer_id tm + 1" "next_transfer_id tm + 1 \<noteq> 0"
    using word_increases [OF assms(2)] by simp_all
  with assms(1) show ?thesis
    by (auto simp: ids_fresh_def split: if_splits intro: order.strict_trans)
qed

lemma ids_fresh_modify: "ids_fresh tm \<Longrightarrow> ids_fresh (modify_transfer tid f tm)"
  by (auto simp: ids_fresh_def split: if_splits)

section \<open>The sequence check as a refinement\<close>

text \<open>
  What \<open>mark_chunk_received\<close> promises of a whole run of arrivals: of the chunks that arrive,
  it takes those whose index is the next one, in order, and drops the others.
\<close>

fun taken :: "u32 \<Rightarrow> (u32 \<times> nat) list \<Rightarrow> nat list" where
  "taken e [] = []"
| "taken e ((i, n) # arrivals) = (if i = e then n # taken (e + 1) arrivals else taken e arrivals)"

definition mark_all :: "u64 \<Rightarrow> (u32 \<times> nat) list \<Rightarrow> TransferManager \<Rightarrow> TransferManager" where
  "mark_all tid arrivals tm = fold (\<lambda>(i, n) t. snd (mark_chunk_received tid i n t)) arrivals tm"

lemma mark_all_get:
  assumes "get_transfer tm tid = Some s" and "tstate s \<noteq> ACCEPTED"
  shows "get_transfer (mark_all tid arrivals tm) tid = Some (s\<lparr>
     expected_chunk_index := expected_chunk_index s +
       word_of_nat (length (taken (expected_chunk_index s) arrivals)),
     bytes_received := bytes_received s +
       word_of_nat (sum_list (taken (expected_chunk_index s) arrivals))\<rparr>)"
  using assms
proof (induction arrivals arbitrary: tm s)
  case Nil
  then show ?case by (simp add: mark_all_def)
next
  case (Cons a arrivals)
  obtain i n where a: "a = (i, n)" by (cases a)
  show ?case
  proof (cases "i = expected_chunk_index s")
    case True
    let ?s = "s\<lparr>expected_chunk_index := expected_chunk_index s + 1,
                bytes_received := bytes_received s + word_of_nat n\<rparr>"
    have "get_transfer (snd (mark_chunk_received tid i n tm)) tid = Some ?s"
      using Cons.prems True by (simp add: snd_mark_chunk)
    from Cons.IH [OF this] Cons.prems(2) True a show ?thesis
      by (simp add: mark_all_def add.assoc)
  next
    case False
    then have "snd (mark_chunk_received tid i n tm) = tm"
      using Cons.prems by (simp add: snd_mark_chunk)
    with Cons False a show ?thesis by (simp add: mark_all_def)
  qed
qed

section \<open>Properties\<close>

text \<open>
  A transfer that is receiving counts, of any run of chunk arrivals, exactly those a reader
  of the indices in order would take: the expected index advances by their number and the bytes
  received by their sizes (modulo the widths of the counters); nothing else of it changes.
\<close>

theorem chunk_sequence_refines:
  assumes "get_transfer tm tid = Some s" and "tstate s = RECEIVING"
  shows "get_transfer (fold (\<lambda>(i, n) t. snd (mark_chunk_received tid i n t)) arrivals tm) tid =
    Some (s\<lparr>
     expected_chunk_index := expected_chunk_index s +
       word_of_nat (length (taken (expected_chunk_index s) arrivals)),
     bytes_received := bytes_received s +
       word_of_nat (sum_list (taken (expected_chunk_index s) arrivals))\<rparr>)"
  using mark_all_get [OF assms(1)] assms(2) by (simp add: mark_all_def)

definition sample_transfer :: TransferSession where
  "sample_transfer =
     \<lparr>transfer_id = 7, sender_user_id = 1, sender_username = ''alice'', sender_token = ''t'',
      receiver_user_id = 2, receiver_username = ''bob'', filename = ''a.txt'', file_size = 9,
      chunk_size = 1024, expected_chunk_index = 0, bytes_received = 0, tstate = RECEIVING,
      temp_file_path = ''p.part'', final_file_path = ''p'', file_handle = Some 0\<rparr>"

theorem chunk_sequence_refines_witness:
  "get_transfer (fold (\<lambda>(i, n) t. snd (mark_chunk_received 7 i n t)) [(0, 5), (0, 5), (2, 3), (1, 4)]
      \<lparr>next_transfer_id = 8, transfers = [(7, sample_transfer)]\<rparr>) 7 =
   Some (sample_transfer\<lparr>expected_chunk_index := 2, bytes_received := 9\<rparr>)"
  using chunk_sequence_refines
    [of "\<lparr>next_transfer_id = 8, transfers = [(7, sample_transfer)]\<rparr>" 7 sample_transfer
        "[(0, 5), (0, 5), (2, 3), (1, 4)]"]
  by (simp add: get_transfer_def sample_transfer_def)

text \<open>
  A new transfer gets an id that is neither 0 nor in use, starts as OFFERED without data
  or file handle, and leaves every other transfer alone, as long as fewer than 2^64 - 1
  transfers were created; and the manager stays well-formed.
\<close>

theorem create_transfer_fresh:
  assumes "tm_wf tm" and "ids_fresh tm" and "next_transfer_id tm \<noteq> - 1"
    and "create_transfer s_id s_name s_token r_id r_name name bytes chunk tm = (tid, tm')"
  shows "tid \<noteq> 0 \<and> get_transfer tm tid = None \<and>
    (\<exists>t. get_transfer tm' tid = Some t \<and> transfer_id t = tid \<and> tstate t = OFFERED \<and>
         expected_chunk_index t = 0 \<and> bytes_received t = 0 \<and> file_handle t = None \<and>
         sender_user_id t = s_id \<and> receiver_user_id t = r_id \<and> filename t = name) \<and>
    (\<forall>tid'. tid' \<noteq> tid \<longrightarrow> get_transfer tm' tid' = get_transfer tm tid') \<and> tm_wf tm' \<and> ids_fresh tm'"
proof -
  have tm': "tm' = snd (create_transfer s_id s_name s_token r_id r_name name bytes chunk tm)"
    and tid: "tid = next_transfer_id tm"
    using assms(4) fst_create_transfer [of s_id s_name s_token r_id r_name name bytes chunk tm]
    by simp_all
  have "get_transfer tm tid = None"
    using assms(2) tid by (cases "get_transfer tm tid") (auto simp: ids_fresh_def)
  moreover have "tid \<noteq> 0" using assms(2) tid by (simp add: ids_fresh_def)
  ultimately show ?thesis
    using tm_wf_create [OF assms(1)] ids_fresh_create [OF assms(2,3)] tid unfolding tm' by simp
qed

theorem create_transfer_fresh_witness:
  "fst (create_transfer 1 ''alice'' ''t'' 2 ''bob'' ''a.txt'' 9 1024 TransferManager_init) \<noteq> 0"
proof -
  let ?c = "create_transfer 1 ''alice'' ''t'' 2 ''bob'' ''a.txt'' 9 1024 TransferManager_init"
  have "next_transfer_id TransferManager_init \<noteq> - 1" by (simp add: TransferManager_init_def)
  moreover have "?c = (fst ?c, snd ?c)" by (rule prod.collapse [symmetric])
  ultimately show ?thesis using create_transfer_fresh [OF tm_wf_init ids_fresh_init] by blast
qed

end
