(* ===== verification/FsxStore.thy ===== *)
theory FsxStore
  imports FsxTransfer "HOL-Library.Sublist"
begin

text \<open>
  \<open>FileStore\<close> (\<open>core/include/fsx/storage/file_store.h\<close>, \<open>core/src/storage/file_store.cpp\<close>)
  over the C library it calls. A stream is a file, an offset in it, and a buffer of bytes that have
  not reached the file yet; \<open>fopen(\<dots>, "wb")\<close> truncates or creates, \<open>fwrite\<close> appends to the
  buffer, of which some may go to the file at once, \<open>fflush\<close> writes the buffer to the file at the
  offset, and what could not be written stays in it, \<open>fclose\<close> does the same, drops what
  is left and ends the stream (any later use of the pointer is undefined behaviour), \<open>rename\<close>
  moves a name. What the operating system decides (whether a call succeeds, how many bytes \<open>fwrite\<close>
  takes, how many reach the file, which file a path resolves to) is an argument, \<open>os\<close>.
\<close>

section \<open>The C library and the operating system\<close>

record os_answers =
  create_directories_throws :: "string \<Rightarrow> bool"
  stat_mode :: "string \<Rightarrow> u32 option"
  mkdir_ok :: "string \<Rightarrow> bool"
  fopen_ok :: "string \<Rightarrow> bool"
  fwrite_takes :: "nat \<Rightarrow> nat"
  fwrite_through :: "nat \<Rightarrow> nat"
  fflush_through :: "nat \<Rightarrow> nat"
  rename_ok :: "string \<Rightarrow> string \<Rightarrow> bool"
  remove_all_throws :: "string \<Rightarrow> bool"
  resolve :: "string \<Rightarrow> string"

record stdio =
  names :: "string \<Rightarrow> nat option"
  contents :: "nat \<Rightarrow> bytes"
  next_file :: nat
  streams :: "nat \<Rightarrow> (nat \<times> nat) option"
  next_stream :: nat
  buffer :: "nat \<Rightarrow> bytes"

definition stdio_init :: stdio where
  "stdio_init = \<lparr>names = (\<lambda>_. None), contents = (\<lambda>_. []), next_file = 0,
                 streams = (\<lambda>_. None), next_stream = 0, buffer = (\<lambda>_. [])\<rparr>"

definition fopen_wb :: "os_answers \<Rightarrow> string \<Rightarrow> stdio \<Rightarrow> file_ptr \<times> stdio" where
  "fopen_wb os path st =
     (if \<not> fopen_ok os path then (None, st) else
      let p = resolve os path;
          (f, st1) = (case names st p of
             Some f \<Rightarrow> (f, st\<lparr>contents := (contents st)(f := [])\<rparr>)
           | None \<Rightarrow> (next_file st, st\<lparr>names := (names st)(p \<mapsto> next_file st),
                        contents := (contents st)(next_file st := []),
                        next_file := next_file st + 1\<rparr>));
          h = next_stream st
      in (Some h, st1\<lparr>streams := (streams st)(h \<mapsto> (f, 0)), next_stream := h + 1,
                      buffer := (buffer st)(h := [])\<rparr>))"

text \<open>Bytes written at an offset; a gap behind the end of the file reads as zeros.\<close>

definition write_at :: "nat \<Rightarrow> bytes \<Rightarrow> bytes \<Rightarrow> bytes" where
  "write_at off data old =
     take off (old @ replicate (off - length old) 0) @ data @ drop (off + length data) old"

text \<open>The first \<open>k\<close> bytes of the buffer of \<open>h\<close> (all, when it has no more) reach the file.\<close>

definition write_out :: "nat \<Rightarrow> nat \<Rightarrow> stdio \<Rightarrow> stdio" where
  "write_out h k st =
     (case streams st h of
        None \<Rightarrow> st
      | Some (f, off) \<Rightarrow>
          let out = take k (buffer st h)
          in st\<lparr>contents := (contents st)(f := write_at off out (contents st f)),
                streams := (streams st)(h \<mapsto> (f, off + length out)),
                buffer := (buffer st)(h := drop k (buffer st h))\<rparr>)"

definition fwrite :: "os_answers \<Rightarrow> nat \<Rightarrow> bytes \<Rightarrow> stdio \<Rightarrow> nat result \<times> stdio" where
  "fwrite os h data st =
     (case streams st h of
        None \<Rightarrow> (undefined_behaviour, st)
      | Some _ \<Rightarrow>
          let n = min (fwrite_takes os (length data)) (length data);
              buf = buffer st h @ take n data
          in (Inr n, write_out h (fwrite_through os (length buf)) (st\<lparr>buffer := (buffer st)(h := buf)\<rparr>)))"

text \<open>Whether all of the buffer reached the file.\<close>

definition fflush :: "os_answers \<Rightarrow> nat \<Rightarrow> stdio \<Rightarrow> bool result \<times> stdio" where
  "fflush os h st =
     (case streams st h of
        None \<Rightarrow> (undefined_behaviour, st)
      | Some _ \<Rightarrow>
          let st' = write_out h (fflush_through os (length (buffer st h))) st
          in (Inr (buffer st' h = []), st'))"

definition fclose :: "os_answers \<Rightarrow> nat \<Rightarrow> stdio \<Rightarrow> bool result \<times> stdio" where
  "fclose os h st =
     (case fflush os h st of
        (Inl e, st') \<Rightarrow> (Inl e, st')
      | (Inr flushed, st') \<Rightarrow>
          (Inr flushed, st'\<lparr>streams := (streams st')(h := None), buffer := (buffer st')(h := [])\<rparr>))"

definition rename_file :: "os_answers \<Rightarrow> string \<Rightarrow> string \<Rightarrow> stdio \<Rightarrow> bool \<times> stdio" where
  "rename_file os old new st =
     (if \<not> rename_ok os old new then (False, st) else
      case names st (resolve os old) of
        None \<Rightarrow> (False, st)
      | Some f \<Rightarrow> (True, st\<lparr>names := ((names st)(resolve os old := None))(resolve os new \<mapsto> f)\<rparr>))"

definition remove_tree :: "os_answers \<Rightarrow> string \<Rightarrow> stdio \<Rightarrow> stdio" where
  "remove_tree os dir st =
     st\<lparr>names := (\<lambda>p. if p = resolve os dir \<or> prefix (resolve os dir @ ''/'') p then None
                     else names st p)\<rparr>"

section \<open>FileStore\<close>

definition get_file_path :: "string \<Rightarrow> u64 \<Rightarrow> string \<Rightarrow> string" where
  "get_file_path base_path tid name = base_path @ ''/'' @ dec_string (unat tid) @ ''/'' @ name"

definition get_temp_path :: "string \<Rightarrow> u64 \<Rightarrow> string \<Rightarrow> string" where
  "get_temp_path base_path tid name =
     base_path @ ''/'' @ dec_string (unat tid) @ ''/'' @ name @ ''.part''"

text \<open>
  \<open>create_directories\<close>, and when it throws, the fallback with \<open>stat\<close> and \<open>mkdir\<close>;
  \<open>S_IFDIR\<close> is \<open>0x4000\<close>.
\<close>

definition ensure_directory :: "os_answers \<Rightarrow> string \<Rightarrow> bool" where
  "ensure_directory os path =
     (if \<not> create_directories_throws os path then True
      else case stat_mode os (c_str path) of
             None \<Rightarrow> mkdir_ok os (c_str path)
           | Some mode \<Rightarrow> mode AND 0x4000 \<noteq> 0)"

definition FileStore_initialize :: "os_answers \<Rightarrow> string \<Rightarrow> bool" where
  "FileStore_initialize os base_path = ensure_directory os base_path"

definition open_for_write ::
  "os_answers \<Rightarrow> string \<Rightarrow> u64 \<Rightarrow> string \<Rightarrow> stdio \<Rightarrow> file_ptr \<times> stdio" where
  "open_for_write os base_path tid name st =
     (let temp_path = get_temp_path base_path tid name;
          transfer_dir = base_path @ ''/'' @ dec_string (unat tid)
      in if \<not> ensure_directory os transfer_dir then (None, st)
         else fopen_wb os (c_str temp_path) st)"

definition write_chunk :: "os_answers \<Rightarrow> file_ptr \<Rightarrow> bytes \<Rightarrow> stdio \<Rightarrow> int result \<times> stdio" where
  "write_chunk os fp data st =
     (case fp of
        None \<Rightarrow> (Inr (- 1), st)
      | Some h \<Rightarrow>
          if length data = 0 then (Inr (- 1), st) else
          (case fwrite os h data st of
             (Inl e, st') \<Rightarrow> (Inl e, st')
           | (Inr written, st') \<Rightarrow>
               if written \<noteq> length data then (Inr (- 1), st')
               else (case fflush os h st' of
                   (Inl e, st'') \<Rightarrow> (Inl e, st'')
                 | (Inr flushed, st'') \<Rightarrow> (Inr (int written), st''))))"

definition finalize_file ::
  "os_answers \<Rightarrow> string \<Rightarrow> u64 \<Rightarrow> string \<Rightarrow> file_ptr \<Rightarrow> stdio \<Rightarrow> bool result \<times> stdio" where
  "finalize_file os base_path tid name fp st =
     (case fp of
        None \<Rightarrow> (Inr False, st)
      | Some h \<Rightarrow>
          (case fclose os h st of
             (Inl e, st') \<Rightarrow> (Inl e, st')
           | (Inr flushed, st') \<Rightarrow>
               let (ok, st'') = rename_file os (c_str (get_temp_path base_path tid name))
                                  (c_str (get_file_path base_path tid name)) st'
               in (Inr ok, st'')))"

definition cleanup_transfer :: "os_answers \<Rightarrow> string \<Rightarrow> u64 \<Rightarrow> stdio \<Rightarrow> bool \<times> stdio" where
  "cleanup_transfer os base_path tid st =
     (let transfer_dir = base_path @ ''/'' @ dec_string (unat tid)
      in if remove_all_throws os transfer_dir then (False, st)
         else (True, remove_tree os transfer_dir st))"

section \<open>Paths\<close>

lemma get_temp_path_eq: "get_temp_path b tid name = get_file_path b tid (name @ ''.part'')"
  by (simp add: get_temp_path_def get_file_path_def)

lemma dec_prefix_inject:
  assumes "dec_string m @ CHR ''/'' # s = dec_string n @ CHR ''/'' # t"
  shows "m = n \<and> s = t"
proof -
  have slash: "\<not> is_digit CHR ''/''" by (simp add: is_digit_def)
  have "takeWhile is_digit (dec_string m @ CHR ''/'' # s) = dec_string m"
    and "takeWhile is_digit (dec_string n @ CHR ''/'' # t) = dec_string n"
    using slash by (simp_all add: takeWhile_digits)
  with assms have "dec_string m = dec_string n" by metis
  with assms show ?thesis by simp
qed

lemma get_file_path_inject:
  "get_file_path b tid name = get_file_path b tid' name' \<longleftrightarrow> tid = tid' \<and> name = name'"
  using dec_prefix_inject [of "unat tid" name "unat tid'" name']
  by (auto simp: get_file_path_def unsigned_word_eqI)

lemma file_path_ne_temp_path: "get_file_path b tid name \<noteq> get_temp_path b tid' name"
  by (auto simp: get_temp_path_eq get_file_path_inject)

section \<open>Streams\<close>

definition stdio_wf :: "stdio \<Rightarrow> bool" where
  "stdio_wf st \<longleftrightarrow>
     (\<forall>h f off. streams st h = Some (f, off) \<longrightarrow> h < next_stream st \<and> f < next_file st) \<and>
     (\<forall>p f. names st p = Some f \<longrightarrow> f < next_file st)"

definition is_open :: "stdio \<Rightarrow> nat \<Rightarrow> bool" where
  "is_open st h \<longleftrightarrow> streams st h \<noteq> None"

lemma stdio_wf_init: "stdio_wf stdio_init"
  by (simp add: stdio_wf_def stdio_init_def)

lemma is_open_init [simp]: "\<not> is_open stdio_init h"
  by (simp add: is_open_def stdio_init_def)

lemma fopen_wb_wf: "stdio_wf st \<Longrightarrow> stdio_wf (snd (fopen_wb os p st))"
  by (auto simp: stdio_wf_def fopen_wb_def Let_def less_Suc_eq split: option.splits)

text \<open>
  The file, the stream and the buffer of \<open>h\<close> may change, nothing else; the stream stays open on its
  file.
\<close>

definition touches :: "nat \<Rightarrow> stdio \<Rightarrow> stdio \<Rightarrow> bool" where
  "touches h st st' \<longleftrightarrow>
     names st' = names st \<and> next_file st' = next_file st \<and> next_stream st' = next_stream st \<and>
     (\<forall>g. g \<noteq> h \<longrightarrow> streams st' g = streams st g \<and> buffer st' g = buffer st g) \<and>
     map_option fst (streams st' h) = map_option fst (streams st h) \<and>
     (\<forall>x. (\<forall>off. streams st h \<noteq> Some (x, off)) \<longrightarrow> contents st' x = contents st x)"

lemma touches_refl [simp]: "touches h st st"
  by (simp add: touches_def)

lemma touches_trans: "touches h st st1 \<Longrightarrow> touches h st1 st2 \<Longrightarrow> touches h st st2"
  unfolding touches_def by (cases "streams st h"; cases "streams st1 h") auto

lemma touches_buffer [simp]: "touches h st (st\<lparr>buffer := (buffer st)(h := b)\<rparr>)"
  by (simp add: touches_def)

lemma touches_write_out [simp]: "touches h st (write_out h k st)"
  by (auto simp: touches_def write_out_def Let_def split: option.split)

lemma touches_fwrite: "touches h st (snd (fwrite os h d st))"
  by (auto simp: fwrite_def Let_def split: option.split intro: touches_trans [OF touches_buffer touches_write_out])

lemma touches_fflush: "touches h st (snd (fflush os h st))"
  by (auto simp: fflush_def Let_def split: option.split)

lemma touches_stream:
  assumes "touches h st st'"
  shows "(\<exists>off. streams st' g = Some (f, off)) \<longleftrightarrow> (\<exists>off. streams st g = Some (f, off))"
proof -
  have "map_option fst (streams st' g) = map_option fst (streams st g)"
    using assms by (cases "g = h") (simp_all add: touches_def)
  then show ?thesis by (cases "streams st g"; cases "streams st' g") auto
qed

lemma touches_wf: "touches h st st' \<Longrightarrow> stdio_wf st \<Longrightarrow> stdio_wf st'"
  using touches_stream [of h st st'] unfolding stdio_wf_def by (auto simp: touches_def)

lemma touches_is_open: "touches h st st' \<Longrightarrow> is_open st' g = is_open st g"
  using touches_stream [of h st st' g] unfolding is_open_def by fastforce

lemma rename_file_wf: "stdio_wf st \<Longrightarrow> stdio_wf (snd (rename_file os p q st))"
  by (auto simp: stdio_wf_def rename_file_def split: option.splits)

lemma open_for_write_wf: "stdio_wf st \<Longrightarrow> stdio_wf (snd (open_for_write os b tid name st))"
  by (auto simp: open_for_write_def Let_def fopen_wb_wf)

lemma fflush_open: "streams st h \<noteq> None \<Longrightarrow> \<exists>b. fst (fflush os h st) = Inr b"
  by (auto simp: fflush_def Let_def)

lemma snd_fclose:
  "snd (fclose os h st) = (if streams st h = None then st else (snd (fflush os h st))\<lparr>
     streams := (streams (snd (fflush os h st)))(h := None), buffer := (buffer (snd (fflush os h st)))(h := [])\<rparr>)"
  by (auto simp: fclose_def fflush_def Let_def split: option.split)

lemma fst_fclose: "fst (fclose os h st) = fst (fflush os h st)"
  by (auto simp: fclose_def split: prod.split sum.split)

text \<open>What a chunk answers does not depend on the flush.\<close>

lemma fst_write_chunk:
  "fst (write_chunk os fp d st) =
     (case fp of
        None \<Rightarrow> Inr (- 1)
      | Some h \<Rightarrow> if d = [] then Inr (- 1) else if streams st h = None then undefined_behaviour
          else if fwrite_takes os (length d) < length d then Inr (- 1) else Inr (int (length d)))"
proof (cases fp)
  case (Some h)
  show ?thesis
  proof (cases "streams st h")
    case None
    with Some show ?thesis by (simp add: write_chunk_def fwrite_def)
  next
    case (Some x)
    obtain st' where fw: "fwrite os h d st = (Inr (min (fwrite_takes os (length d)) (length d)), st')"
      using Some by (simp add: fwrite_def Let_def)
    have "streams st' h \<noteq> None"
      using touches_is_open [OF touches_fwrite [where st = st and h = h and os = os and d = d], of h] Some fw
      by (simp add: is_open_def)
    with fflush_open obtain b where "fst (fflush os h st') = Inr b" by blast
    with Some fw \<open>fp = Some h\<close> show ?thesis
      by (auto simp: write_chunk_def min_def split: prod.splits sum.splits)
  qed
qed (simp add: write_chunk_def)

lemma snd_write_chunk:
  "snd (write_chunk os fp d st) =
     (case fp of
        None \<Rightarrow> st
      | Some h \<Rightarrow> if d = [] then st
          else if fwrite_takes os (length d) < length d \<or> streams st h = None then snd (fwrite os h d st)
          else snd (fflush os h (snd (fwrite os h d st))))"
  by (auto simp: write_chunk_def fwrite_def Let_def split: option.splits prod.splits sum.splits)

lemma touches_write_chunk: "touches h st (snd (write_chunk os (Some h) d st))"
  using touches_trans [OF touches_fwrite touches_fflush] by (simp add: snd_write_chunk touches_fwrite)

lemma snd_finalize_file:
  "snd (finalize_file os b tid name fp st) =
     (case fp of
        None \<Rightarrow> st
      | Some h \<Rightarrow> if streams st h = None then st
          else snd (rename_file os (c_str (get_temp_path b tid name)) (c_str (get_file_path b tid name))
                 (snd (fclose os h st))))"
  by (auto simp: finalize_file_def fclose_def fflush_def Let_def split: option.splits prod.splits)

lemma write_chunk_wf: "stdio_wf st \<Longrightarrow> stdio_wf (snd (write_chunk os fp d st))"
  using touches_wf [OF touches_write_chunk] by (cases fp) (simp_all add: snd_write_chunk)

lemma fclose_wf: "stdio_wf st \<Longrightarrow> stdio_wf (snd (fclose os h st))"
  using touches_wf [OF touches_fflush [where st = st and h = h and os = os]] by (auto simp: snd_fclose stdio_wf_def)

lemma finalize_file_wf: "stdio_wf st \<Longrightarrow> stdio_wf (snd (finalize_file os b tid name fp st))"
  by (simp add: snd_finalize_file rename_file_wf fclose_wf split: option.split)

text \<open>Which streams each call opens, keeps and closes.\<close>

lemma open_for_write_open:
  assumes "open_for_write os b tid name st = (Some h, st')"
  shows "is_open st' h" and "h = next_stream st" and "next_stream st' = h + 1"
    and "h' \<noteq> h \<Longrightarrow> is_open st' h' \<longleftrightarrow> is_open st h'"
  using assms
  by (auto simp: open_for_write_def fopen_wb_def is_open_def Let_def split: option.splits if_splits)

lemma open_for_write_fails:
  "open_for_write os b tid name st = (None, st') \<Longrightarrow> st' = st"
  by (auto simp: open_for_write_def fopen_wb_def Let_def split: option.splits if_splits)

lemma write_chunk_is_open [simp]:
  "is_open (snd (write_chunk os fp d st)) h \<longleftrightarrow> is_open st h"
  using touches_is_open [OF touches_write_chunk] by (cases fp) (simp_all add: snd_write_chunk)

lemma write_chunk_next_stream [simp]:
  "next_stream (snd (write_chunk os fp d st)) = next_stream st"
  using touches_write_chunk by (cases fp) (simp_all add: snd_write_chunk touches_def)

lemma write_chunk_UB_iff:
  "fst (write_chunk os fp d st) = undefined_behaviour \<longleftrightarrow>
     (\<exists>h. fp = Some h \<and> d \<noteq> [] \<and> \<not> is_open st h)"
  by (simp add: fst_write_chunk is_open_def split: option.split)

lemma write_chunk_no_throw: "fst (write_chunk os fp d st) \<noteq> throw w"
  by (simp add: fst_write_chunk split: option.split)

lemma finalize_file_UB_iff:
  "fst (finalize_file os b tid name fp st) = undefined_behaviour \<longleftrightarrow>
     (\<exists>h. fp = Some h \<and> \<not> is_open st h)"
  by (auto simp: finalize_file_def fclose_def fflush_def is_open_def Let_def split: option.splits prod.splits)

lemma finalize_file_no_throw: "fst (finalize_file os b tid name fp st) \<noteq> throw w"
  by (auto simp: finalize_file_def fclose_def fflush_def Let_def split: option.splits prod.splits)

lemma fclose_is_open: "is_open (snd (fclose os h st)) g \<longleftrightarrow> is_open st g \<and> g \<noteq> h"
  using touches_fflush [where st = st and h = h and os = os] by (auto simp: snd_fclose is_open_def touches_def)

lemma fclose_frame [simp]:
  "names (snd (fclose os h st)) = names st" "next_file (snd (fclose os h st)) = next_file st"
  "next_stream (snd (fclose os h st)) = next_stream st"
  using touches_fflush [where st = st and h = h and os = os] by (simp_all add: snd_fclose touches_def)

lemma rename_file_streams [simp]:
  "streams (snd (rename_file os p q st)) = streams st"
  "next_stream (snd (rename_file os p q st)) = next_stream st"
  by (auto simp: rename_file_def split: option.splits)

lemma finalize_file_is_open:
  "is_open (snd (finalize_file os b tid name fp st)) h \<longleftrightarrow> is_open st h \<and> fp \<noteq> Some h"
  using fclose_is_open [of os _ st h] by (cases fp) (auto simp: snd_finalize_file is_open_def)

lemma finalize_file_next_stream [simp]:
  "next_stream (snd (finalize_file os b tid name fp st)) = next_stream st"
  by (simp add: snd_finalize_file split: option.split)

text \<open>Closing a stream flushes it to its own file; renaming moves names only.\<close>

lemma rename_file_names:
  "names st1 = names st \<Longrightarrow> names (snd (rename_file os p q st1)) = names (snd (rename_file os p q st))"
  "contents (snd (rename_file os p q st)) = contents st" "buffer (snd (rename_file os p q st)) = buffer st"
  "next_file (snd (rename_file os p q st)) = next_file st"
  by (simp_all add: rename_file_def split: option.split)

lemma fclose_streams: "streams (snd (fclose os h st)) = (streams st)(h := None)"
  using touches_fflush [where st = st and h = h and os = os] by (auto simp: snd_fclose touches_def)

lemma fclose_others:
  "g \<noteq> h \<Longrightarrow> buffer (snd (fclose os h st)) g = buffer st g"
  "(\<And>off. streams st h \<noteq> Some (x, off)) \<Longrightarrow> contents (snd (fclose os h st)) x = contents st x"
  using touches_fflush [where st = st and h = h and os = os] by (auto simp: snd_fclose touches_def)

lemma finalize_streams: "streams (snd (finalize_file os b tid name (Some h) st)) = (streams st)(h := None)"
  by (auto simp: snd_finalize_file fclose_streams)

lemma finalize_others:
  "g \<noteq> h \<Longrightarrow> buffer (snd (finalize_file os b tid name (Some h) st)) g = buffer st g"
  "(\<And>off. streams st h \<noteq> Some (x, off)) \<Longrightarrow>
     contents (snd (finalize_file os b tid name (Some h) st)) x = contents st x"
  "next_file (snd (finalize_file os b tid name (Some h) st)) = next_file st"
  by (simp_all add: snd_finalize_file rename_file_names fclose_others)

lemma finalize_names:
  "names (snd (finalize_file os b tid name (Some h) st)) =
     (if streams st h = None then names st
      else names (snd (rename_file os (c_str (get_temp_path b tid name)) (c_str (get_file_path b tid name)) st)))"
  using rename_file_names(1) [OF fclose_frame(1)] by (simp add: snd_finalize_file)

section \<open>Appending to a stream\<close>

text \<open>
  What a sender of chunks needs of a sink: a write that is accepted appends its data to what
  the handle has taken so far, and leaves the handles that do not share its file alone.
\<close>

fun write_all ::
  "('h \<Rightarrow> bytes \<Rightarrow> 's \<Rightarrow> 'r \<times> 's) \<Rightarrow> (bytes \<Rightarrow> 'r \<Rightarrow> bool) \<Rightarrow> 'h \<Rightarrow> bytes list \<Rightarrow> 's \<Rightarrow> bool \<times> 's" where
  "write_all put accepted h [] s = (True, s)"
| "write_all put accepted h (d # ds) s =
     (case put h d s of
        (r, s') \<Rightarrow> if accepted d r then write_all put accepted h ds s' else (False, s'))"

locale append_sink =
  fixes put :: "'h \<Rightarrow> bytes \<Rightarrow> 's \<Rightarrow> 'r \<times> 's"
    and accepted :: "bytes \<Rightarrow> 'r \<Rightarrow> bool"
    and written :: "'s \<Rightarrow> 'h \<Rightarrow> bytes option"
    and shares :: "'s \<Rightarrow> 'h \<Rightarrow> 'h \<Rightarrow> bool"
  assumes write_appends:
      "written s h = Some c \<Longrightarrow> accepted d (fst (put h d s)) \<Longrightarrow>
         written (snd (put h d s)) h = Some (c @ d)"
    and write_other: "\<not> shares s h h' \<Longrightarrow> written (snd (put h d s)) h' = written s h'"
    and shares_stable: "shares (snd (put h d s)) g g' = shares s g g'"
begin

lemma write_all_concat:
  "written s h = Some c \<Longrightarrow> fst (write_all put accepted h ds s) \<Longrightarrow>
     written (snd (write_all put accepted h ds s)) h = Some (c @ concat ds)"
proof (induction ds arbitrary: s c)
  case Nil
  then show ?case by simp
next
  case (Cons d ds)
  obtain r s' where w: "put h d s = (r, s')" by (cases "put h d s")
  with Cons.prems(2) have ok: "accepted d r" and rest: "fst (write_all put accepted h ds s')"
    by (auto split: if_splits)
  from write_appends [OF Cons.prems(1), of d] w ok have "written s' h = Some (c @ d)" by simp
  from Cons.IH [OF this rest] w ok show ?case by simp
qed

lemma write_all_other:
  "\<not> shares s h h' \<Longrightarrow> written (snd (write_all put accepted h ds s)) h' = written s h'"
proof (induction ds arbitrary: s)
  case Nil
  then show ?case by simp
next
  case (Cons d ds)
  then have "\<not> shares (snd (put h d s)) h h'" by (simp add: shares_stable)
  from Cons.IH [OF this] Cons.prems show ?case
    by (simp add: write_other split: prod.split)
      (metis snd_conv write_other)
qed

end

text \<open>
  What was written to a stream positioned at the end of its file: the bytes of the file, and those
  still in the buffer. Two streams share a file when both are open on it.
\<close>

definition written_to :: "stdio \<Rightarrow> file_ptr \<Rightarrow> bytes option" where
  "written_to st fp =
     (case fp of
        None \<Rightarrow> None
      | Some h \<Rightarrow> (case streams st h of
          None \<Rightarrow> None
        | Some (f, off) \<Rightarrow> if off = length (contents st f) then Some (contents st f @ buffer st h) else None))"

definition same_file :: "stdio \<Rightarrow> file_ptr \<Rightarrow> file_ptr \<Rightarrow> bool" where
  "same_file st fp fp' =
     (case (fp, fp') of
        (Some h, Some h') \<Rightarrow> h = h' \<or>
          (case (streams st h, streams st h') of
             (Some (f, _), Some (f', _)) \<Rightarrow> f = f' | _ \<Rightarrow> False)
      | _ \<Rightarrow> False)"

definition chunk_accepted :: "bytes \<Rightarrow> int result \<Rightarrow> bool" where
  "chunk_accepted data r \<longleftrightarrow> r = Inr (int (length data))"

lemma write_at_end: "write_at (length old) data old = old @ data"
  by (simp add: write_at_def)

lemma written_to_Some:
  "written_to st (Some h) = Some c \<longleftrightarrow>
     (\<exists>f. streams st h = Some (f, length (contents st f)) \<and> c = contents st f @ buffer st h)"
  by (auto simp: written_to_def split: option.split)

lemma written_write_out: "written_to st (Some h) = Some c \<Longrightarrow> written_to (write_out h k st) (Some h) = Some c"
  by (auto simp: written_to_Some write_out_def write_at_end Let_def)

lemma written_fwrite:
  assumes "written_to st (Some h) = Some c"
  shows "written_to (snd (fwrite os h d st)) (Some h) = Some (c @ take (fwrite_takes os (length d)) d)"
proof -
  let ?b = "buffer st h @ take (min (fwrite_takes os (length d)) (length d)) d"
  have "written_to (st\<lparr>buffer := (buffer st)(h := ?b)\<rparr>) (Some h) = Some (c @ take (fwrite_takes os (length d)) d)"
    using assms by (auto simp: written_to_Some min_def)
  from written_write_out [OF this] assms show ?thesis by (auto simp: written_to_Some fwrite_def Let_def)
qed

lemma written_fflush: "written_to st (Some h) = Some c \<Longrightarrow> written_to (snd (fflush os h st)) (Some h) = Some c"
  using written_write_out by (auto simp: fflush_def Let_def split: option.split)

text \<open>A chunk that is not empty: so much of it as \<open>fwrite\<close> takes is appended.\<close>

lemma written_write_chunk:
  assumes "written_to st (Some h) = Some c" and "d \<noteq> []"
  shows "written_to (snd (write_chunk os (Some h) d st)) (Some h) = Some (c @ take (fwrite_takes os (length d)) d)"
  using written_fwrite [OF assms(1), of os d] written_fflush assms(2) by (simp add: snd_write_chunk)

lemma write_chunk_appends:
  assumes "written_to st fp = Some c" and "chunk_accepted d (fst (write_chunk os fp d st))"
  shows "written_to (snd (write_chunk os fp d st)) fp = Some (c @ d)"
proof (cases fp)
  case (Some h)
  with assms(2) have "d \<noteq> []" "length d \<le> fwrite_takes os (length d)"
    by (auto simp: chunk_accepted_def fst_write_chunk split: if_splits)
  with written_write_chunk [of st h c d os] assms(1) Some show ?thesis by simp
qed (use assms in \<open>simp add: written_to_def\<close>)

lemma touches_other:
  assumes "touches h st st'" and "\<not> same_file st (Some h) (Some g)"
  shows "written_to st' (Some g) = written_to st (Some g)"
proof (cases "streams st g")
  case (Some fo)
  with assms have "streams st' g = Some fo" "buffer st' g = buffer st g" "contents st' (fst fo) = contents st (fst fo)"
    by (auto simp: touches_def same_file_def split: option.splits)
  with Some show ?thesis by (cases fo) (simp add: written_to_def)
qed (use assms in \<open>auto simp: touches_def same_file_def written_to_def split: option.splits\<close>)

lemma write_chunk_other:
  "\<not> same_file st fp fp' \<Longrightarrow> written_to (snd (write_chunk os fp d st)) fp' = written_to st fp'"
  using touches_other [OF touches_write_chunk]
  by (cases fp; cases fp') (simp_all add: snd_write_chunk, simp_all add: written_to_def)

lemma touches_same_file: "touches h st st' \<Longrightarrow> same_file st' g g' = same_file st g g'"
proof -
  have same: "same_file st (Some x) (Some y) \<longleftrightarrow> x = y \<or>
      (\<exists>f. (\<exists>off. streams st x = Some (f, off)) \<and> (\<exists>off. streams st y = Some (f, off)))" for st x y
    by (auto simp: same_file_def split: option.split)
  show "touches h st st' \<Longrightarrow> same_file st' g g' = same_file st g g'"
    by (cases g; cases g') (simp_all add: same touches_stream, simp_all add: same_file_def)
qed

lemma write_chunk_same_file:
  "same_file (snd (write_chunk os fp d st)) g g' = same_file st g g'"
  using touches_same_file [OF touches_write_chunk] by (cases fp) (simp_all add: snd_write_chunk)

interpretation store_sink:
  append_sink "write_chunk os" chunk_accepted written_to same_file for os
  by unfold_locales (simp_all add: write_chunk_appends write_chunk_other write_chunk_same_file)

lemma open_for_write_empty:
  "open_for_write os b tid name st = (Some h, st') \<Longrightarrow> written_to st' (Some h) = Some []"
  by (auto simp: open_for_write_def fopen_wb_def written_to_def Let_def split: option.splits if_splits)

section \<open>Properties\<close>

text \<open>
  Chunks that the store accepts end up in the file in the order of the calls: writing a list
  of chunks to a freshly opened stream, each accepted in full, leaves exactly their
  concatenation in the file; and it leaves the file of every other stream alone.
\<close>

theorem store_appends_chunks:
  assumes "open_for_write os base tid name st = (Some h, st1)"
    and "fst (write_all (write_chunk os) chunk_accepted (Some h) chunks st1)"
    and "\<not> same_file st1 (Some h) other"
  shows "written_to (snd (write_all (write_chunk os) chunk_accepted (Some h) chunks st1)) (Some h) =
           Some (concat chunks) \<and>
         written_to (snd (write_all (write_chunk os) chunk_accepted (Some h) chunks st1)) other =
           written_to st1 other"
  using store_sink.write_all_concat [OF open_for_write_empty [OF assms(1)] assms(2)]
    store_sink.write_all_other [OF assms(3)] by simp

definition sample_os :: os_answers where
  "sample_os = \<lparr>create_directories_throws = (\<lambda>_. False), stat_mode = (\<lambda>_. None), mkdir_ok = (\<lambda>_. True),
     fopen_ok = (\<lambda>_. True), fwrite_takes = (\<lambda>n. n), fwrite_through = (\<lambda>_. 0), fflush_through = (\<lambda>n. n), rename_ok = (\<lambda>_ _. True),
     remove_all_throws = (\<lambda>_. False), resolve = (\<lambda>p. p)\<rparr>"

theorem store_appends_chunks_witness:
  "written_to (snd (write_all (write_chunk sample_os) chunk_accepted (Some 0) [[1, 2], [3]]
     (snd (open_for_write sample_os ''d'' 1 ''f'' stdio_init)))) (Some 0) = Some [1, 2, 3]"
proof -
  let ?st = "snd (open_for_write sample_os ''d'' 1 ''f'' stdio_init)"
  have o: "open_for_write sample_os ''d'' 1 ''f'' stdio_init = (Some 0, ?st)"
    by (simp add: open_for_write_def ensure_directory_def fopen_wb_def sample_os_def stdio_init_def Let_def)
  have "fst (write_all (write_chunk sample_os) chunk_accepted (Some 0) [[1, 2], [3]] ?st)"
    by (simp add: open_for_write_def ensure_directory_def fopen_wb_def sample_os_def stdio_init_def Let_def
        write_chunk_def fwrite_def fflush_def write_out_def write_at_def chunk_accepted_def)
  from store_appends_chunks [OF o this, of None] show ?thesis by (simp add: same_file_def)
qed

text \<open>
  The paths of two transfers never meet: the final path determines the transfer and the
  file name, so does the temporary path, and no final path is a temporary path of the same
  transfer and name.
\<close>

theorem transfer_paths_distinct:
  "(get_file_path b tid name = get_file_path b tid' name' \<longleftrightarrow> tid = tid' \<and> name = name') \<and>
   (get_temp_path b tid name = get_temp_path b tid' name' \<longleftrightarrow> tid = tid' \<and> name = name') \<and>
   get_file_path b tid name \<noteq> get_temp_path b tid' name"
  using file_path_ne_temp_path [of b tid name tid']
  by (auto simp: get_temp_path_eq get_file_path_inject)

end
