(* ===== verification/FsxSession.thy ===== *)
theory FsxSession
  imports FsxAuth FsxFileMessages FsxStore
begin

text \<open>
  The state of the server: the \<open>TcpSession\<close> objects (\<open>core/include/fsx/net/tcp_session.h\<close>),
  the \<open>SessionManager\<close> (\<open>core/src/net/session_manager.cpp\<close>), and the operations of a
  session that do not look at a message: sending, the write queue, going offline. An object
  exists (\<open>sessions c = Some s\<close>) as long as an asynchronous operation holds a
  \<open>shared_ptr\<close> to it; a \<open>weak_ptr\<close> is its number, and expires with the entry. \<open>sent_log\<close> is no
  variable of the program but its history: the calls of \<open>send\<close> so far, with their arguments. No
  operation reads it.
\<close>

section \<open>State\<close>

datatype read_op = NoRead | ReadHeader | ReadBody

record TcpSession =
  sess_token :: string
  sess_user_id :: int
  sess_username :: string
  sess_header :: MessageHeaderWire
  sess_body :: bytes
  outq :: "bytes list"
  pending_read :: read_op
  pending_write :: bool

record 'w server =
  world :: 'w
  manager :: TransferManager
  store :: stdio
  registry :: "(string \<times> nat) list"
  sessions :: "nat \<Rightarrow> TcpSession option"
  next_conn :: nat
  sent_log :: "(nat \<times> MsgType \<times> bytes) list"

definition zero_header :: MessageHeaderWire where
  "zero_header = \<lparr>magic_be = 0, hdr_version = 0, hdr_type = 0, len_be = 0, reserved_be = 0\<rparr>"

definition TcpSession_new :: TcpSession where
  "TcpSession_new = \<lparr>sess_token = [], sess_user_id = 0, sess_username = [],
     sess_header = zero_header, sess_body = [], outq = [], pending_read = NoRead,
     pending_write = False\<rparr>"

definition is_authenticated :: "TcpSession \<Rightarrow> bool" where
  "is_authenticated s \<longleftrightarrow> sess_token s \<noteq> []"

definition set_auth :: "string \<Rightarrow> int \<Rightarrow> string \<Rightarrow> TcpSession \<Rightarrow> TcpSession" where
  "set_auth t i n s = s\<lparr>sess_token := t, sess_user_id := i, sess_username := n\<rparr>"

definition clear_auth :: "TcpSession \<Rightarrow> TcpSession" where
  "clear_auth s = s\<lparr>sess_token := [], sess_user_id := 0, sess_username := []\<rparr>"

section \<open>SessionManager\<close>

type_synonym registry = "(string \<times> nat) list"

definition add_session :: "string \<Rightarrow> nat \<Rightarrow> registry \<Rightarrow> registry" where
  "add_session t c reg = AList.update t c reg"

definition remove_session :: "string \<Rightarrow> registry \<Rightarrow> registry" where
  "remove_session t reg = AList.delete t reg"

text \<open>
  The overload on a session: the loop erases expired entries as it meets them and returns at
  the first entry of the session.
\<close>

fun remove_session_ptr :: "(nat \<Rightarrow> TcpSession option) \<Rightarrow> nat \<Rightarrow> registry \<Rightarrow> registry" where
  "remove_session_ptr objs c [] = []"
| "remove_session_ptr objs c ((t, c') # reg) =
     (case objs c' of
        Some _ \<Rightarrow> if c' = c then reg else (t, c') # remove_session_ptr objs c reg
      | None \<Rightarrow> remove_session_ptr objs c reg)"

fun get_online_usernames ::
  "(nat \<Rightarrow> TcpSession option) \<Rightarrow> registry \<Rightarrow> string list \<times> registry" where
  "get_online_usernames objs [] = ([], [])"
| "get_online_usernames objs ((t, c) # reg) =
     (let (names, reg') = get_online_usernames objs reg in
      case objs c of
        Some s \<Rightarrow> (if is_authenticated s then sess_username s # names else names, (t, c) # reg')
      | None \<Rightarrow> (names, reg'))"

fun session_count :: "(nat \<Rightarrow> TcpSession option) \<Rightarrow> registry \<Rightarrow> nat \<times> registry" where
  "session_count objs [] = (0, [])"
| "session_count objs ((t, c) # reg) =
     (let (cnt, reg') = session_count objs reg in
      case objs c of
        Some s \<Rightarrow> (if is_authenticated s then cnt + 1 else cnt, (t, c) # reg')
      | None \<Rightarrow> (cnt, reg'))"

definition get_session :: "(nat \<Rightarrow> TcpSession option) \<Rightarrow> registry \<Rightarrow> string \<Rightarrow> nat option" where
  "get_session objs reg t =
     (case map_of reg t of
        Some c \<Rightarrow> (case objs c of Some _ \<Rightarrow> Some c | None \<Rightarrow> None)
      | None \<Rightarrow> None)"

section \<open>Sending\<close>

definition modify_session :: "nat \<Rightarrow> (TcpSession \<Rightarrow> TcpSession) \<Rightarrow> 'w server \<Rightarrow> 'w server" where
  "modify_session c f srv = srv\<lparr>sessions := (sessions srv)(c := map_option f (sessions srv c))\<rparr>"

definition do_write :: "TcpSession \<Rightarrow> TcpSession" where
  "do_write s = s\<lparr>pending_write := True\<rparr>"

definition session_send :: "MsgType \<Rightarrow> bytes \<Rightarrow> TcpSession \<Rightarrow> TcpSession" where
  "session_send t payload s =
     (let writing = (outq s \<noteq> []);
          s' = s\<lparr>outq := outq s @ [frame t payload]\<rparr>
      in if \<not> writing then do_write s' else s')"

definition send :: "nat \<Rightarrow> MsgType \<Rightarrow> bytes \<Rightarrow> 'w server \<Rightarrow> 'w server" where
  "send c t payload srv =
     modify_session c (session_send t payload) (srv\<lparr>sent_log := sent_log srv @ [(c, t, payload)]\<rparr>)"

text \<open>
  The block every disconnect runs: an authenticated session is counted (which erases expired
  entries), removed from the manager, and loses its authentication.
\<close>

definition online_remove :: "nat \<Rightarrow> 'w server \<Rightarrow> 'w server" where
  "online_remove c srv =
     (case sessions srv c of
        None \<Rightarrow> srv
      | Some s \<Rightarrow>
          if sess_token s \<noteq> [] then
            let (count_before, reg) = session_count (sessions srv) (registry srv)
            in modify_session c clear_auth (srv\<lparr>registry := remove_session (sess_token s) reg\<rparr>)
          else srv)"

text \<open>The completion of \<open>async_write\<close>: \<open>failed\<close> is its error code.\<close>

definition on_written :: "nat \<Rightarrow> bool \<Rightarrow> 'w server \<Rightarrow> 'w server" where
  "on_written c failed srv =
     (let srv = modify_session c (\<lambda>s. s\<lparr>pending_write := False\<rparr>) srv in
      if failed then online_remove c srv
      else modify_session c (\<lambda>s.
             let s' = s\<lparr>outq := tl (outq s)\<rparr>
             in if outq s' \<noteq> [] then do_write s' else s') srv)"

text \<open>
  When a completion handler returns, its \<open>shared_ptr\<close> goes; without a pending operation the
  object is destroyed (and its socket closed).
\<close>

definition release :: "nat \<Rightarrow> 'w server \<Rightarrow> 'w server" where
  "release c srv =
     (case sessions srv c of
        Some s \<Rightarrow> if pending_read s = NoRead \<and> \<not> pending_write s
                  then srv\<lparr>sessions := (sessions srv)(c := None)\<rparr> else srv
      | None \<Rightarrow> srv)"

section \<open>Laws\<close>

lemma sessions_modify [simp]:
  "sessions (modify_session c f srv) d =
     (if d = c then map_option f (sessions srv c) else sessions srv d)"
  by (simp add: modify_session_def)

lemma modify_session_other [simp]:
  "world (modify_session c f srv) = world srv" "manager (modify_session c f srv) = manager srv"
  "store (modify_session c f srv) = store srv" "registry (modify_session c f srv) = registry srv"
  "next_conn (modify_session c f srv) = next_conn srv" "sent_log (modify_session c f srv) = sent_log srv"
  by (simp_all add: modify_session_def)

lemma modify_session_modify:
  "modify_session c f (modify_session c g srv) = modify_session c (f \<circ> g) srv"
  by (simp add: modify_session_def option.map_comp comp_def)

lemma send_other [simp]:
  "world (send c t p srv) = world srv" "manager (send c t p srv) = manager srv"
  "store (send c t p srv) = store srv" "registry (send c t p srv) = registry srv"
  "next_conn (send c t p srv) = next_conn srv" "sent_log (send c t p srv) = sent_log srv @ [(c, t, p)]"
  by (simp_all add: send_def)

lemma sessions_send [simp]:
  "sessions (send c t p srv) d =
     (if d = c then map_option (session_send t p) (sessions srv c) else sessions srv d)"
  by (simp add: send_def)

lemma session_send_fields [simp]:
  "sess_token (session_send t p s) = sess_token s"
  "sess_user_id (session_send t p s) = sess_user_id s"
  "sess_username (session_send t p s) = sess_username s"
  "sess_header (session_send t p s) = sess_header s"
  "sess_body (session_send t p s) = sess_body s"
  "pending_read (session_send t p s) = pending_read s"
  "outq (session_send t p s) = outq s @ [frame t p]"
  "pending_write (session_send t p s) \<longleftrightarrow> outq s = [] \<or> pending_write s"
  by (simp_all add: session_send_def do_write_def Let_def)

section \<open>The registry\<close>

text \<open>
  The entries whose object still exists, and those of them that are authenticated. Listing
  and counting keep the former (they erase the rest) and report the latter.
\<close>

definition unexpired :: "(nat \<Rightarrow> TcpSession option) \<Rightarrow> registry \<Rightarrow> registry" where
  "unexpired objs reg = filter (\<lambda>e. objs (snd e) \<noteq> None) reg"

definition online_entries :: "(nat \<Rightarrow> TcpSession option) \<Rightarrow> registry \<Rightarrow> registry" where
  "online_entries objs reg =
     filter (\<lambda>e. case objs (snd e) of Some s \<Rightarrow> is_authenticated s | None \<Rightarrow> False) reg"

lemma snd_session_count [simp]: "snd (session_count objs reg) = unexpired objs reg"
  by (induction objs reg rule: session_count.induct)
    (auto simp: unexpired_def split: prod.splits option.splits)

lemma snd_get_online [simp]: "snd (get_online_usernames objs reg) = unexpired objs reg"
  by (induction objs reg rule: get_online_usernames.induct)
    (auto simp: unexpired_def split: prod.splits option.splits)

lemma fst_session_count: "fst (session_count objs reg) = length (online_entries objs reg)"
  by (induction objs reg rule: session_count.induct)
    (auto simp: online_entries_def split: prod.splits option.splits)

lemma fst_get_online:
  "fst (get_online_usernames objs reg) =
     map (\<lambda>e. sess_username (the (objs (snd e)))) (online_entries objs reg)"
  by (induction objs reg rule: get_online_usernames.induct)
    (auto simp: online_entries_def split: prod.splits option.splits)

lemma get_session_Some:
  "get_session objs reg t = Some c \<longleftrightarrow> map_of reg t = Some c \<and> objs c \<noteq> None"
  by (auto simp: get_session_def split: option.splits)

lemma distinct_unexpired: "distinct (map fst reg) \<Longrightarrow> distinct (map fst (unexpired objs reg))"
  by (simp add: unexpired_def distinct_map_filter)

lemma map_of_unexpired:
  assumes "distinct (map fst reg)"
  shows "map_of (unexpired objs reg) t =
     (case map_of reg t of None \<Rightarrow> None | Some c \<Rightarrow> if objs c = None then None else Some c)"
  using assms
  by (induction reg)
    (auto simp: unexpired_def simp flip: map_of_eq_None_iff split: option.splits)

text \<open>
  What the sessions rely on: a lookup finds what was added last under the token, removing a
  token removes it and nothing else, and erasing expired entries changes no lookup.
\<close>

locale session_directory =
  fixes add :: "string \<Rightarrow> 'c \<Rightarrow> 'm \<Rightarrow> 'm"
    and remove :: "string \<Rightarrow> 'm \<Rightarrow> 'm"
    and sweep :: "'m \<Rightarrow> 'm"
    and lookup :: "'m \<Rightarrow> string \<Rightarrow> 'c option"
    and live :: "'c \<Rightarrow> bool"
    and wf :: "'m \<Rightarrow> bool"
  assumes lookup_add:
      "wf m \<Longrightarrow> live c \<Longrightarrow> lookup (add t c m) t' = (if t' = t then Some c else lookup m t')"
    and lookup_remove: "wf m \<Longrightarrow> lookup (remove t m) t' = (if t' = t then None else lookup m t')"
    and lookup_sweep: "wf m \<Longrightarrow> lookup (sweep m) t = lookup m t"
    and wf_add: "wf m \<Longrightarrow> wf (add t c m)"
    and wf_remove: "wf m \<Longrightarrow> wf (remove t m)"
    and wf_sweep: "wf m \<Longrightarrow> wf (sweep m)"
begin

lemma login_visible:
  "wf m \<Longrightarrow> live c \<Longrightarrow> lookup (sweep (add t c m)) t = Some c"
  by (simp add: lookup_sweep lookup_add wf_add)

lemma logout_invisible:
  "wf m \<Longrightarrow> lookup (remove t (sweep m)) t = None"
  by (simp add: lookup_remove wf_sweep)

lemma logout_others:
  "wf m \<Longrightarrow> t' \<noteq> t \<Longrightarrow> lookup (remove t (sweep m)) t' = lookup m t'"
  by (simp add: lookup_remove lookup_sweep wf_sweep)

end

interpretation manager_dir:
  session_directory add_session remove_session "unexpired objs" "get_session objs"
    "\<lambda>c. objs c \<noteq> None" "\<lambda>reg. distinct (map fst reg)" for objs
  by unfold_locales
    (auto simp: add_session_def remove_session_def get_session_def distinct_update distinct_delete
      map_of_unexpired distinct_unexpired split: option.splits)

lemma remove_session_ptr_lookup:
  assumes "distinct (map fst reg)" and "map_of reg t = Some c" and "objs c \<noteq> None"
    and "\<forall>t'. map_of reg t' = Some c \<longrightarrow> t' = t"
  shows "get_session objs (remove_session_ptr objs c reg) t' =
           (if t' = t then None else get_session objs reg t')"
  using assms
proof (induction objs c reg rule: remove_session_ptr.induct)
  case (1 objs c)
  then show ?case by simp
next
  case (2 objs c u d reg)
  have u: "map_of reg u = None" using "2.prems"(1) by (simp add: map_of_eq_None_iff)
  show ?case
  proof (cases "objs d")
    case None
    with "2.prems"(2,3) have tu: "t \<noteq> u" by (auto split: if_splits)
    have "get_session objs (remove_session_ptr objs c reg) t' =
            (if t' = t then None else get_session objs reg t')"
      using "2.prems" u None tu by (intro "2.IH"(1)) (auto split: if_splits)
    with None tu u show ?thesis by (auto simp: get_session_def)
  next
    case (Some s)
    show ?thesis
    proof (cases "d = c")
      case True
      with "2.prems"(4) have "u = t" by auto
      with True Some u show ?thesis by (simp add: get_session_def)
    next
      case False
      with "2.prems"(2) have tu: "t \<noteq> u" by (auto split: if_splits)
      have "get_session objs (remove_session_ptr objs c reg) t' =
              (if t' = t then None else get_session objs reg t')"
        using "2.prems" u Some False tu by (intro "2.IH"(2)) (auto split: if_splits)
      with Some False tu u show ?thesis by (auto simp: get_session_def)
    qed
  qed
qed

section \<open>Properties\<close>

text \<open>
  The online list has exactly the names of the entries whose session exists and is
  authenticated, in the order of the map; counting gives their number; both leave the map with
  exactly the entries whose session exists, so that no lookup changes.
\<close>

theorem online_list_exact:
  assumes "distinct (map fst reg)"
  shows "fst (get_online_usernames objs reg) =
           map (\<lambda>(t, c). sess_username (the (objs c)))
             (filter (\<lambda>(t, c). \<exists>s. objs c = Some s \<and> is_authenticated s) reg) \<and>
         fst (session_count objs reg) = length (fst (get_online_usernames objs reg)) \<and>
         snd (get_online_usernames objs reg) = filter (\<lambda>(t, c). objs c \<noteq> None) reg \<and>
         snd (session_count objs reg) = snd (get_online_usernames objs reg) \<and>
         get_session objs (snd (get_online_usernames objs reg)) tok = get_session objs reg tok"
proof -
  have "online_entries objs reg = filter (\<lambda>(t, c). \<exists>s. objs c = Some s \<and> is_authenticated s) reg"
    by (auto simp: online_entries_def intro!: filter_cong split: option.splits)
  then show ?thesis
    using manager_dir.lookup_sweep [OF assms, of objs tok]
    by (simp add: fst_get_online fst_session_count unexpired_def case_prod_unfold)
qed

definition sample_session :: "string \<Rightarrow> string \<Rightarrow> TcpSession" where
  "sample_session token name = set_auth token 1 name TcpSession_new"

theorem online_list_exact_witness:
  "fst (get_online_usernames [0 \<mapsto> sample_session ''t0'' ''alice'', 2 \<mapsto> TcpSession_new]
     [(''t0'', 0), (''t1'', 1), (''t2'', 2)]) = [''alice'']"
  using online_list_exact [of "[(''t0'', 0), (''t1'', 1), (''t2'', 2)]"
      "[0 \<mapsto> sample_session ''t0'' ''alice'', 2 \<mapsto> TcpSession_new]"]
  by (simp add: sample_session_def is_authenticated_def set_auth_def TcpSession_new_def)

text \<open>
  A session that was added is found under its token as long as it exists, also after expired
  entries were erased; once removed it is not found, and no other token is affected.
\<close>

theorem login_logout_lookup:
  assumes "distinct (map fst reg)" and "objs c \<noteq> None"
  shows "get_session objs (snd (session_count objs (add_session t c reg))) t = Some c \<and>
         get_session objs (remove_session t (snd (session_count objs reg))) t = None \<and>
         (t' \<noteq> t \<longrightarrow>
            get_session objs (remove_session t (snd (session_count objs reg))) t' = get_session objs reg t' \<and>
            get_session objs (add_session t c reg) t' = get_session objs reg t')"
  using manager_dir.login_visible [where objs = objs, OF assms]
    manager_dir.logout_invisible [where objs = objs, OF assms(1)]
    manager_dir.logout_others [where objs = objs, OF assms(1)] manager_dir.lookup_add [where objs = objs, OF assms]
  by simp

theorem login_logout_lookup_witness:
  "get_session [0 \<mapsto> TcpSession_new] (snd (session_count [0 \<mapsto> TcpSession_new]
     (add_session ''t'' 0 [(''old'', 5)]))) ''t'' = Some 0"
  using login_logout_lookup [of "[(''old'', 5)]" "[0 \<mapsto> TcpSession_new]" 0 "''t''" "''t''"] by simp

end
