(* ===== verification/FsxHandlers.thy ===== *)
theory FsxHandlers
  imports FsxSession
begin

text \<open>
  The message handlers of \<open>core/src/net/tcp_session.cpp\<close>: \<open>handle_message\<close> and the four
  file-transfer handlers, on the whole state of the server. \<open>c\<close> is the connection whose session
  runs the handler, \<open>s\<close> that session as the handler finds it, \<open>X\<close> the external libraries,
  \<open>os\<close> what the operating system answers, and \<open>base\<close> the base path of the file store. Log
  lines have no counterpart.
\<close>

section \<open>Reaching the parts of the server\<close>

definition on_world :: "('w, 'a) action \<Rightarrow> ('w server, 'a) action" where
  "on_world m srv = (case m (world srv) of (r, w') \<Rightarrow> (r, srv\<lparr>world := w'\<rparr>))"

definition on_manager :: "(TransferManager \<Rightarrow> 'a \<times> TransferManager) \<Rightarrow> ('w server, 'a) action" where
  "on_manager f srv = (case f (manager srv) of (x, tm') \<Rightarrow> (Inr x, srv\<lparr>manager := tm'\<rparr>))"

definition on_store :: "(stdio \<Rightarrow> 'a result \<times> stdio) \<Rightarrow> ('w server, 'a) action" where
  "on_store f srv = (case f (store srv) of (r, st') \<Rightarrow> (r, srv\<lparr>store := st'\<rparr>))"

definition find_transfer :: "u64 \<Rightarrow> ('w server, TransferSession option) action" where
  "find_transfer tid srv = (Inr (get_transfer (manager srv) tid), srv)"

definition set_state :: "u64 \<Rightarrow> TransferState \<Rightarrow> ('w server, bool) action" where
  "set_state tid st = on_manager (update_state tid st)"

definition reply :: "nat \<Rightarrow> MsgType \<Rightarrow> bytes \<Rightarrow> ('w server, unit) action" where
  "reply c t payload srv = (Inr (), send c t payload srv)"

definition find_session :: "string \<Rightarrow> ('w server, nat option) action" where
  "find_session token srv = (Inr (get_session (sessions srv) (registry srv) token), srv)"

lemmas handler_access = on_world_def on_manager_def on_store_def find_transfer_def set_state_def
  reply_def find_session_def

section \<open>FILE_OFFER_REQ\<close>

definition offer_fail :: "string \<Rightarrow> FileOfferResp" where
  "offer_fail reason = \<lparr>oresp_ok = False, oresp_transfer_id = 0, oresp_reason = reason\<rparr>"

definition effective_chunk_size :: "u32 \<Rightarrow> u32" where
  "effective_chunk_size requested =
     (let size = requested;
          size = (if size < 1024 then 64 * 1024 else size);
          size = (if size > 1024 * 1024 then 256 * 1024 else size)
      in size)"

definition handle_file_offer_req ::
  "'w externals \<Rightarrow> string \<Rightarrow> nat \<Rightarrow> TcpSession \<Rightarrow> bytes \<Rightarrow> ('w server, unit) action" where
  "handle_file_offer_req X base c s payload =
     (if \<not> is_authenticated s
      then reply c FILE_OFFER_RESP (FileOfferResp_serialize (offer_fail ''Not authenticated''))
      else scatch
        (sbind (slift (FileOfferReq_deserialize payload)) (\<lambda>req.
         sbind (on_world (get_user_by_username X (oreq_receiver_username req))) (\<lambda>receiver_user.
         case receiver_user of
           None \<Rightarrow> reply c FILE_OFFER_RESP (FileOfferResp_serialize (offer_fail ''Receiver not found''))
         | Some receiver \<Rightarrow>
             sbind (on_manager (create_transfer (sess_user_id s) (sess_username s) (sess_token s)
                      (u_id receiver) (u_username receiver) (oreq_filename req) (oreq_file_size req)
                      (effective_chunk_size (oreq_chunk_size req)))) (\<lambda>tid.
             if tid = 0
             then reply c FILE_OFFER_RESP
                    (FileOfferResp_serialize (offer_fail ''Failed to create transfer''))
             else sbind (on_manager (\<lambda>tm. ((), modify_transfer tid (\<lambda>t.
                      t\<lparr>temp_file_path := get_temp_path base tid (oreq_filename req),
                        final_file_path := get_file_path base tid (oreq_filename req)\<rparr>) tm))) (\<lambda>_.
                  reply c FILE_OFFER_RESP (FileOfferResp_serialize
                    \<lparr>oresp_ok = True, oresp_transfer_id = tid, oresp_reason = []\<rparr>))))))
        (\<lambda>what. reply c FILE_OFFER_RESP
                  (FileOfferResp_serialize (offer_fail (''error: '' @ what)))))"

section \<open>FILE_ACCEPT_REQ\<close>

definition accept_fail :: "string \<Rightarrow> FileAcceptResp" where
  "accept_fail reason = \<lparr>aresp_ok = False, aresp_reason = reason\<rparr>"

definition accept_ok :: FileAcceptResp where
  "accept_ok = \<lparr>aresp_ok = True, aresp_reason = []\<rparr>"

text \<open>The message to the session that offered the file, if its token still leads to one.\<close>

definition notify_sender :: "string \<Rightarrow> FileAcceptResp \<Rightarrow> ('w server, unit) action" where
  "notify_sender token resp =
     (if token = [] then sreturn ()
      else sbind (find_session token) (\<lambda>sender_session.
        case sender_session of
          None \<Rightarrow> sreturn ()
        | Some d \<Rightarrow> reply d FILE_ACCEPT_RESP (FileAcceptResp_serialize resp)))"

definition handle_file_accept_req ::
  "os_answers \<Rightarrow> string \<Rightarrow> nat \<Rightarrow> TcpSession \<Rightarrow> bytes \<Rightarrow> ('w server, unit) action" where
  "handle_file_accept_req os base c s payload =
     (if \<not> is_authenticated s
      then reply c FILE_ACCEPT_RESP (FileAcceptResp_serialize (accept_fail ''Not authenticated''))
      else scatch
        (sbind (slift (FileAcceptReq_deserialize payload)) (\<lambda>req.
         sbind (find_transfer (areq_transfer_id req)) (\<lambda>found.
         case found of
           None \<Rightarrow> reply c FILE_ACCEPT_RESP
                     (FileAcceptResp_serialize (accept_fail ''Transfer not found''))
         | Some t \<Rightarrow>
             if receiver_user_id t \<noteq> sess_user_id s
             then reply c FILE_ACCEPT_RESP
                    (FileAcceptResp_serialize (accept_fail ''Not the receiver''))
             else if areq_accept req then
               sbind (on_store (\<lambda>st. let (fp, st') =
                        open_for_write os base (areq_transfer_id req) (filename t) st in (Inr fp, st')))
                 (\<lambda>fp.
               if fp = None then
                 sbind (set_state (areq_transfer_id req) FAILED) (\<lambda>_.
                 reply c FILE_ACCEPT_RESP
                   (FileAcceptResp_serialize (accept_fail ''Failed to open file'')))
               else
                 sbind (on_manager (\<lambda>tm. ((), modify_transfer (areq_transfer_id req)
                          (\<lambda>t. t\<lparr>file_handle := fp\<rparr>) tm))) (\<lambda>_.
                 sbind (set_state (areq_transfer_id req) ACCEPTED) (\<lambda>_.
                 sbind (notify_sender (sender_token t) accept_ok) (\<lambda>_.
                 reply c FILE_ACCEPT_RESP (FileAcceptResp_serialize accept_ok)))))
             else
               sbind (set_state (areq_transfer_id req) FAILED) (\<lambda>_.
               sbind (notify_sender (sender_token t) (accept_fail ''Receiver rejected'')) (\<lambda>_.
               reply c FILE_ACCEPT_RESP (FileAcceptResp_serialize accept_ok))))))
        (\<lambda>what. reply c FILE_ACCEPT_RESP
                  (FileAcceptResp_serialize (accept_fail (''error: '' @ what)))))"

section \<open>FILE_CHUNK\<close>

definition handle_file_chunk ::
  "os_answers \<Rightarrow> TcpSession \<Rightarrow> bytes \<Rightarrow> ('w server, unit) action" where
  "handle_file_chunk os s payload =
     (if \<not> is_authenticated s then sreturn ()
      else scatch
        (sbind (slift (FileChunk_deserialize payload)) (\<lambda>chunk.
         sbind (find_transfer (chunk_transfer_id chunk)) (\<lambda>found.
         case found of
           None \<Rightarrow> sreturn ()
         | Some t \<Rightarrow>
             if sender_user_id t \<noteq> sess_user_id s then sreturn ()
             else if tstate t \<noteq> ACCEPTED \<and> tstate t \<noteq> RECEIVING then sreturn ()
             else
               sbind (on_store (write_chunk os (file_handle t) (chunk_data chunk))) (\<lambda>written.
               if written < 0 then
                 sbind (set_state (chunk_transfer_id chunk) FAILED) (\<lambda>_. sreturn ())
               else
                 sbind (on_manager (mark_chunk_received (chunk_transfer_id chunk)
                          (chunk_index chunk) (length (chunk_data chunk)))) (\<lambda>_.
                 sreturn ())))))
        (\<lambda>_. sreturn ()))"

section \<open>FILE_DONE\<close>

definition handle_file_done ::
  "os_answers \<Rightarrow> string \<Rightarrow> nat \<Rightarrow> TcpSession \<Rightarrow> bytes \<Rightarrow> ('w server, unit) action" where
  "handle_file_done os base c s payload =
     (if \<not> is_authenticated s then sreturn ()
      else scatch
        (sbind (slift (FileDone_deserialize payload)) (\<lambda>msg.
         sbind (find_transfer (done_transfer_id msg)) (\<lambda>found.
         case found of
           None \<Rightarrow> sreturn ()
         | Some t \<Rightarrow>
             if sender_user_id t \<noteq> sess_user_id s then sreturn ()
             else
               sbind (on_store (finalize_file os base (done_transfer_id msg) (filename t)
                        (file_handle t))) (\<lambda>success.
               if \<not> success then
                 sbind (set_state (done_transfer_id msg) FAILED) (\<lambda>_.
                 reply c FILE_RESULT (FileResult_serialize
                   \<lparr>result_transfer_id = done_transfer_id msg, result_ok = False,
                    result_path_or_reason = ''Failed to finalize file''\<rparr>))
               else
                 sbind (set_state (done_transfer_id msg) COMPLETED) (\<lambda>_.
                 reply c FILE_RESULT (FileResult_serialize
                   \<lparr>result_transfer_id = done_transfer_id msg, result_ok = True,
                    result_path_or_reason = final_file_path t\<rparr>))))))
        (\<lambda>_. sreturn ()))"

section \<open>REGISTER_REQ, LOGIN_REQ, ONLINE_LIST_REQ\<close>

definition handle_register_req :: "'w externals \<Rightarrow> nat \<Rightarrow> bytes \<Rightarrow> ('w server, unit) action" where
  "handle_register_req X c payload =
     scatch
       (sbind (slift (RegisterReq_deserialize payload)) (\<lambda>req.
        sbind (on_world (handle_register X req)) (\<lambda>resp.
        reply c REGISTER_RESP (RegisterResp_serialize resp))))
       (\<lambda>what. reply c REGISTER_RESP (RegisterResp_serialize (register_fail (''error: '' @ what))))"

text \<open>
  A login that succeeds authenticates the session and enters it under its new token; the log
  line about it counts the sessions, which erases expired entries.
\<close>

definition go_online :: "nat \<Rightarrow> LoginResp \<Rightarrow> ('w server, unit) action" where
  "go_online c resp srv =
     (let srv = modify_session c (set_auth (lresp_token resp) (lresp_user_id resp)
                  (lresp_username resp)) srv;
          (online, reg) = session_count (sessions srv)
                            (add_session (lresp_token resp) c (registry srv))
      in (Inr (), srv\<lparr>registry := reg\<rparr>))"

definition handle_login_req :: "'w externals \<Rightarrow> nat \<Rightarrow> bytes \<Rightarrow> ('w server, unit) action" where
  "handle_login_req X c payload =
     scatch
       (sbind (slift (LoginReq_deserialize payload)) (\<lambda>req.
        sbind (on_world (handle_login X req)) (\<lambda>resp.
        sbind (reply c LOGIN_RESP (LoginResp_serialize resp)) (\<lambda>_.
        if lresp_ok resp then go_online c resp else sreturn ()))))
       (\<lambda>what. reply c LOGIN_RESP (LoginResp_serialize (login_fail (''error: '' @ what))))"

definition handle_online_list_req :: "nat \<Rightarrow> ('w server, unit) action" where
  "handle_online_list_req c srv =
     (let (usernames, reg) = get_online_usernames (sessions srv) (registry srv)
      in reply c ONLINE_LIST_RESP (OnlineListResp_serialize \<lparr>online_usernames = usernames\<rparr>)
           (srv\<lparr>registry := reg\<rparr>))"

section \<open>Dispatch\<close>

definition handle_message ::
  "'w externals \<Rightarrow> os_answers \<Rightarrow> string \<Rightarrow> nat \<Rightarrow> TcpSession \<Rightarrow> MsgType \<Rightarrow> bytes
    \<Rightarrow> ('w server, unit) action" where
  "handle_message X os base c s type payload =
     (if type = HELLO then sreturn ()
      else if type = PING then reply c PONG (string_bytes ''pong'')
      else if type = PONG then sreturn ()
      else if type = REGISTER_REQ then handle_register_req X c payload
      else if type = LOGIN_REQ then handle_login_req X c payload
      else if type = ONLINE_LIST_REQ then handle_online_list_req c
      else if type = FILE_OFFER_REQ then handle_file_offer_req X base c s payload
      else if type = FILE_ACCEPT_REQ then handle_file_accept_req os base c s payload
      else if type = FILE_CHUNK then handle_file_chunk os s payload
      else if type = FILE_DONE then handle_file_done os base c s payload
      else sreturn ())"

section \<open>Weakest preconditions of the access operations\<close>

lemma wp_access [wp_simps]:
  "wp (on_world m) Q srv \<longleftrightarrow> wp m (\<lambda>r w'. Q r (srv\<lparr>world := w'\<rparr>)) (world srv)"
  "wp (on_manager f) Q1 srv \<longleftrightarrow>
     Q1 (Inr (fst (f (manager srv)))) (srv\<lparr>manager := snd (f (manager srv))\<rparr>)"
  "wp (on_store g) Q2 srv \<longleftrightarrow> Q2 (fst (g (store srv))) (srv\<lparr>store := snd (g (store srv))\<rparr>)"
  "wp (find_transfer tid) Q3 srv \<longleftrightarrow> Q3 (Inr (get_transfer (manager srv) tid)) srv"
  "wp (set_state tid st) Q4 srv \<longleftrightarrow>
     Q4 (Inr (fst (update_state tid st (manager srv))))
        (srv\<lparr>manager := modify_transfer tid (\<lambda>s. s\<lparr>tstate := st\<rparr>) (manager srv)\<rparr>)"
  "wp (reply c t p) Q5 srv \<longleftrightarrow> Q5 (Inr ()) (send c t p srv)"
  "wp (find_session token) Q6 srv \<longleftrightarrow>
     Q6 (Inr (get_session (sessions srv) (registry srv) token)) srv"
  by (simp_all add: wp_def handler_access case_prod_unfold)

lemma wp_notify_sender [wp_simps]:
  "wp (notify_sender token resp) Q srv \<longleftrightarrow>
     Q (Inr ()) (case get_session (sessions srv) (registry srv) token of
        None \<Rightarrow> srv
      | Some d \<Rightarrow> if token = [] then srv
                  else send d FILE_ACCEPT_RESP (FileAcceptResp_serialize resp) srv)"
  by (simp add: notify_sender_def wp_simps split: option.split)

lemma wp_go_online [wp_simps]:
  "wp (go_online c resp) Q srv \<longleftrightarrow>
     (let srv = modify_session c (set_auth (lresp_token resp) (lresp_user_id resp)
                  (lresp_username resp)) srv
      in Q (Inr ()) (srv\<lparr>registry := unexpired (sessions srv)
                          (add_session (lresp_token resp) c (registry srv))\<rparr>))"
  by (simp add: wp_def go_online_def Let_def case_prod_unfold)

lemma wp_online_list [wp_simps]:
  "wp (handle_online_list_req c) Q srv \<longleftrightarrow>
     Q (Inr ()) (send c ONLINE_LIST_RESP (OnlineListResp_serialize
        \<lparr>online_usernames = fst (get_online_usernames (sessions srv) (registry srv))\<rparr>)
        (srv\<lparr>registry := unexpired (sessions srv) (registry srv)\<rparr>))"
  by (simp add: wp_def handle_online_list_req_def reply_def case_prod_unfold Let_def)

text \<open>A condition that holds whenever the action returns.\<close>

abbreviation keeps :: "('s \<Rightarrow> bool) \<Rightarrow> ('s, unit) action \<Rightarrow> 's \<Rightarrow> bool" where
  "keeps I m s \<equiv> wp m (\<lambda>r s'. r = Inr () \<longrightarrow> I s') s"

lemma keeps_message:
  assumes "I srv" and "\<And>p. I (send c PONG p srv)"
    and "\<And>p. I (send c ONLINE_LIST_RESP p (srv\<lparr>registry := unexpired (sessions srv) (registry srv)\<rparr>))"
    and "keeps I (handle_register_req X c p) srv" and "keeps I (handle_login_req X c p) srv"
    and "keeps I (handle_file_offer_req X base c s p) srv"
    and "keeps I (handle_file_accept_req os base c s p) srv"
    and "keeps I (handle_file_chunk os s p) srv" and "keeps I (handle_file_done os base c s p) srv"
  shows "keeps I (handle_message X os base c s t p) srv"
  using assms by (simp add: handle_message_def wp_simps)

text \<open>
  A condition on the sessions only is kept by every message, once it is kept by what handlers do
  to sessions: queueing a frame and setting the authentication.
\<close>

locale session_property =
  fixes I :: "'w server \<Rightarrow> bool"
  assumes I_world: "I (srv\<lparr>world := w\<rparr>) = I srv"
    and I_manager: "I (srv\<lparr>manager := m\<rparr>) = I srv"
    and I_store: "I (srv\<lparr>store := st\<rparr>) = I srv"
    and I_registry: "I (srv\<lparr>registry := reg\<rparr>) = I srv"
    and I_send: "I srv \<Longrightarrow> I (send c t p srv)"
    and I_auth: "I srv \<Longrightarrow> I (modify_session c (set_auth token i n) srv)"
begin

lemmas I_simps = I_world I_manager I_store I_registry

lemma file_messages_keep:
  assumes "I srv"
  shows "keeps I (handle_file_offer_req X base c s p) srv"
    and "keeps I (handle_file_accept_req os base c s p) srv"
    and "keeps I (handle_file_chunk os s p) srv"
    and "keeps I (handle_file_done os base c s p) srv"
  using assms
  by (auto simp: handle_file_offer_req_def handle_file_accept_req_def handle_file_chunk_def
      handle_file_done_def wp_simps wp_def [of "get_user_by_username X _"] case_prod_unfold Let_def
      I_simps I_send split: sum.split exn.split option.split)

lemma auth_messages_keep:
  assumes "I srv"
  shows "keeps I (handle_register_req X c p) srv" and "keeps I (handle_login_req X c p) srv"
  using assms
  by (auto simp: handle_register_req_def handle_login_req_def wp_simps Let_def
      wp_def [of "handle_register X _"] wp_def [of "handle_login X _"] I_simps
      intro!: I_send I_auth split: sum.split exn.split)

lemma message_keeps: "I srv \<Longrightarrow> keeps I (handle_message X os base c s t p) srv"
  by (intro keeps_message file_messages_keep auth_messages_keep I_send) (simp_all add: I_simps)

end

section \<open>Exceptions\<close>

lemma scatch_no_throw:
  "(\<And>w s'. wp (h w) (\<lambda>r _. \<forall>v. r \<noteq> throw v) s') \<Longrightarrow> wp (scatch m h) (\<lambda>r _. \<forall>v. r \<noteq> throw v) s"
  by (auto simp: wp_def scatch_def split: prod.splits sum.splits exn.splits)

lemma message_no_throw: "wp (handle_message X os base c s t p) (\<lambda>r _. \<forall>v. r \<noteq> throw v) srv"
  by (simp add: handle_message_def handle_register_req_def handle_login_req_def
      handle_file_offer_req_def handle_file_accept_req_def handle_file_chunk_def handle_file_done_def
      wp_branches wp_online_list scatch_no_throw wp_simps(1,2) wp_access(6) del: wp_scatch)

section \<open>Properties\<close>

text \<open>
  C19: No message makes an exception leave \<open>handle_message\<close> (which would end the server, since
  only \<open>main\<close> catches it): every exception of a parser, of the database or of the hash is
  answered or dropped by the handler.
\<close>

theorem messages_never_throw: "fst (handle_message X os base c s t p srv) \<noteq> throw w"
  using message_no_throw [of X os base c s t p srv] by (simp add: wp_def)

text \<open>
  C15: A session that is not authenticated cannot reach the transfers: its file messages return
  and leave the transfers, the files, the database and the registry as they were; at most an
  answer is queued for it.
\<close>

theorem file_messages_need_login:
  assumes "\<not> is_authenticated s" and "t \<in> {FILE_OFFER_REQ, FILE_ACCEPT_REQ, FILE_CHUNK, FILE_DONE}"
  shows "\<exists>srv'. handle_message X os base c s t p srv = (Inr (), srv') \<and>
    manager srv' = manager srv \<and> store srv' = store srv \<and> world srv' = world srv \<and>
    registry srv' = registry srv \<and> (\<forall>d. d \<noteq> c \<longrightarrow> sessions srv' d = sessions srv d)"
  using assms
  by (auto simp: handle_message_def handle_file_offer_req_def handle_file_accept_req_def
      handle_file_chunk_def handle_file_done_def reply_def)

definition sample_server :: "pg_world server" where
  "sample_server =
     \<lparr>world = pg_world_init,
      manager = \<lparr>next_transfer_id = 8, transfers = [(7, sample_transfer)]\<rparr>,
      store = snd (open_for_write sample_os ''d'' 7 ''a.txt'' stdio_init), registry = [(''t'', 0)],
      sessions = [0 \<mapsto> sample_session ''t'' ''alice'', 1 \<mapsto> TcpSession_new], next_conn = 2, sent_log = []\<rparr>"

theorem file_messages_need_login_witness:
  "manager (snd (handle_message ref_externals sample_os ''d'' 1 TcpSession_new FILE_CHUNK [0]
     sample_server)) = manager sample_server"
  using file_messages_need_login [of TcpSession_new FILE_CHUNK ref_externals sample_os "''d''" 1 "[0]"
     sample_server]
  by (auto simp: is_authenticated_def TcpSession_new_def)

text \<open>
  C16: Only the sender of a transfer moves it by chunks and FILE_DONE, and only its receiver
  accepts or rejects it: a message about the transfer from any other user changes neither the
  transfers nor the files.
\<close>

theorem only_parties_act:
  assumes "is_authenticated s" and "get_transfer (manager srv) tid = Some t"
  shows "(sender_user_id t \<noteq> sess_user_id s \<longrightarrow> FileChunk_deserialize p = Inr m1 \<longrightarrow>
            chunk_transfer_id m1 = tid \<longrightarrow> handle_message X os base c s FILE_CHUNK p srv = (Inr (), srv)) \<and>
         (sender_user_id t \<noteq> sess_user_id s \<longrightarrow> FileDone_deserialize p = Inr m2 \<longrightarrow>
            done_transfer_id m2 = tid \<longrightarrow> handle_message X os base c s FILE_DONE p srv = (Inr (), srv)) \<and>
         (receiver_user_id t \<noteq> sess_user_id s \<longrightarrow> FileAcceptReq_deserialize p = Inr m3 \<longrightarrow>
            areq_transfer_id m3 = tid \<longrightarrow> handle_message X os base c s FILE_ACCEPT_REQ p srv =
              (Inr (), send c FILE_ACCEPT_RESP (FileAcceptResp_serialize (accept_fail ''Not the receiver'')) srv))"
  using assms
  by (auto intro!: wp_run simp: handle_message_def handle_file_chunk_def handle_file_done_def
      handle_file_accept_req_def wp_simps)

theorem only_parties_act_witness:
  "handle_message ref_externals sample_os ''d'' 1 (set_auth ''u'' 5 ''eve'' TcpSession_new) FILE_CHUNK
     (FileChunk_serialize \<lparr>chunk_transfer_id = 7, chunk_index = 0, chunk_data = [1]\<rparr>) sample_server =
   (Inr (), sample_server)"
  using only_parties_act [of "set_auth ''u'' 5 ''eve'' TcpSession_new" sample_server 7 sample_transfer
     "FileChunk_serialize \<lparr>chunk_transfer_id = 7, chunk_index = 0, chunk_data = [1]\<rparr>"
     "\<lparr>chunk_transfer_id = 7, chunk_index = 0, chunk_data = [1]\<rparr>"
     ref_externals sample_os "''d''" 1]
  by (simp add: FileChunk_roundtrip set_auth_def TcpSession_new_def is_authenticated_def
      sample_server_def get_transfer_def) (simp add: sample_transfer_def)

text \<open>
  The chunk size the server records is between 1024 and 1048576 bytes, whatever the client
  asked for, and is what the client asked for when that lies in the range.
\<close>

theorem chunk_size_in_range:
  "1024 \<le> effective_chunk_size r \<and> effective_chunk_size r \<le> 1048576 \<and>
   (1024 \<le> r \<and> r \<le> 1048576 \<longrightarrow> effective_chunk_size r = r)"
  by (auto simp: effective_chunk_size_def Let_def not_less)

theorem chunk_size_in_range_witness: "effective_chunk_size 262144 = 262144"
  using chunk_size_in_range [of 262144] by simp

end
