(* ===== verification/FsxServer.thy ===== *)
theory FsxServer
  imports FsxHandlers
begin

text \<open>
  The event loop: \<open>TcpServer\<close> (\<open>core/src/net/tcp_server.cpp\<close>) and the read and write loops
  of \<open>TcpSession\<close>. One thread runs \<open>io_context::run\<close>, so the completion handlers are the
  atomic steps of the server; which pending operation completes next, and with what result, is
  the choice of the environment. A step relation over these events, the reachable states, and
  the locale by which an invariant of the handlers becomes one of the server.
\<close>

section \<open>Read loop\<close>

definition do_read_header :: "nat \<Rightarrow> 'w server \<Rightarrow> 'w server" where
  "do_read_header c srv = modify_session c (\<lambda>s. s\<lparr>pending_read := ReadHeader\<rparr>) srv"

definition do_read_body ::
  "'w externals \<Rightarrow> os_answers \<Rightarrow> string \<Rightarrow> nat \<Rightarrow> ('w server, unit) action" where
  "do_read_body X os base c srv =
     (case sessions srv c of
        None \<Rightarrow> (Inr (), srv)
      | Some s \<Rightarrow>
          if sess_body s = [] then
            sbind (handle_message X os base c s (msg_type_of (hdr_type (sess_header s))) (sess_body s))
              (\<lambda>_ srv. (Inr (), do_read_header c srv)) srv
          else (Inr (), modify_session c (\<lambda>s. s\<lparr>pending_read := ReadBody\<rparr>) srv))"

text \<open>
  The completion of a read: \<open>ec\<close> is whether it has an error code, \<open>bs\<close> the bytes that were
  transferred to the front of the buffer.
\<close>

definition transferred :: "bytes \<Rightarrow> bytes \<Rightarrow> bytes" where
  "transferred bs buf = bs @ drop (length bs) buf"

definition on_header ::
  "'w externals \<Rightarrow> os_answers \<Rightarrow> string \<Rightarrow> nat \<Rightarrow> bool \<Rightarrow> bytes \<Rightarrow> ('w server, unit) action" where
  "on_header X os base c ec bs srv =
     (let srv = modify_session c (\<lambda>s. s\<lparr>pending_read := NoRead,
            sess_header := header_of_bytes (transferred bs (header_bytes (sess_header s)))\<rparr>) srv
      in case sessions srv c of
        None \<Rightarrow> (Inr (), srv)
      | Some s \<Rightarrow>
          if ec then (Inr (), online_remove c srv)
          else if length bs \<noteq> HEADER_SIZE then (Inr (), online_remove c srv)
          else case validate_header (sess_header s) of
            Inl e \<Rightarrow> (case e of
                StdException w \<Rightarrow> (Inr (), online_remove c srv)
              | UndefinedBehaviour \<Rightarrow> (undefined_behaviour, srv))
          | Inr _ \<Rightarrow>
              let len = payload_len (sess_header s)
              in if len > 16 * 1024 * 1024 then (Inr (), srv)
                 else do_read_body X os base c
                        (modify_session c (\<lambda>s. s\<lparr>sess_body := replicate (unat len) 0\<rparr>) srv))"

definition on_body ::
  "'w externals \<Rightarrow> os_answers \<Rightarrow> string \<Rightarrow> nat \<Rightarrow> bool \<Rightarrow> bytes \<Rightarrow> ('w server, unit) action" where
  "on_body X os base c ec bs srv =
     (let srv = modify_session c (\<lambda>s. s\<lparr>pending_read := NoRead,
            sess_body := transferred bs (sess_body s)\<rparr>) srv
      in case sessions srv c of
        None \<Rightarrow> (Inr (), srv)
      | Some s \<Rightarrow>
          if ec then (Inr (), online_remove c srv)
          else if length bs \<noteq> length (sess_body s) then (Inr (), online_remove c srv)
          else sbind (handle_message X os base c s (msg_type_of (hdr_type (sess_header s))) (sess_body s))
                 (\<lambda>_ srv. (Inr (), do_read_header c srv)) srv)"

section \<open>Accepting connections\<close>

definition server_init :: "'w \<Rightarrow> 'w server" where
  "server_init w = \<lparr>world = w, manager = TransferManager_init, store = stdio_init, registry = [],
                    sessions = (\<lambda>_. None), next_conn = 0, sent_log = []\<rparr>"

text \<open>\<open>make_shared<TcpSession>\<close> and \<open>start\<close>, which begins to read the first header.\<close>

definition TcpSession_start :: "nat \<Rightarrow> 'w server \<Rightarrow> 'w server" where
  "TcpSession_start c srv = do_read_header c srv"

definition on_accept :: "bool \<Rightarrow> 'w server \<Rightarrow> 'w server" where
  "on_accept ec srv =
     (if \<not> ec then
        let c = next_conn srv
        in TcpSession_start c
             (srv\<lparr>sessions := (sessions srv)(c \<mapsto> TcpSession_new), next_conn := c + 1\<rparr>)
      else srv)"

section \<open>Events and reachable states\<close>

datatype event =
    AcceptDone bool
  | HeaderDone nat bool bytes
  | BodyDone nat bool bytes
  | WriteDone nat bool

text \<open>
  An event can happen when its operation is pending; without an error, \<open>async_read\<close> has
  filled the buffer.
\<close>

fun enabled :: "'w server \<Rightarrow> event \<Rightarrow> bool" where
  "enabled srv (AcceptDone ec) \<longleftrightarrow> True"
| "enabled srv (HeaderDone c ec bs) \<longleftrightarrow>
     (case sessions srv c of
        None \<Rightarrow> False
      | Some s \<Rightarrow> pending_read s = ReadHeader \<and> length bs \<le> HEADER_SIZE \<and>
                  (\<not> ec \<longrightarrow> length bs = HEADER_SIZE))"
| "enabled srv (BodyDone c ec bs) \<longleftrightarrow>
     (case sessions srv c of
        None \<Rightarrow> False
      | Some s \<Rightarrow> pending_read s = ReadBody \<and> length bs \<le> length (sess_body s) \<and>
                  (\<not> ec \<longrightarrow> length bs = length (sess_body s)))"
| "enabled srv (WriteDone c ec) \<longleftrightarrow>
     (case sessions srv c of None \<Rightarrow> False | Some s \<Rightarrow> pending_write s)"

text \<open>The completion handler of an event, and the release of its hold on the session.\<close>

fun run_event :: "'w externals \<Rightarrow> os_answers \<Rightarrow> string \<Rightarrow> event \<Rightarrow> ('w server, unit) action" where
  "run_event X os base (AcceptDone ec) srv = (Inr (), on_accept ec srv)"
| "run_event X os base (HeaderDone c ec bs) srv =
     sbind (on_header X os base c ec bs) (\<lambda>_ srv. (Inr (), release c srv)) srv"
| "run_event X os base (BodyDone c ec bs) srv =
     sbind (on_body X os base c ec bs) (\<lambda>_ srv. (Inr (), release c srv)) srv"
| "run_event X os base (WriteDone c ec) srv = (Inr (), release c (on_written c ec srv))"

inductive server_step :: "'w externals \<Rightarrow> string \<Rightarrow> 'w server \<Rightarrow> event \<Rightarrow> 'w server \<Rightarrow> bool"
  for X :: "'w externals" and base :: string where
  run: "enabled srv ev \<Longrightarrow> run_event X os base ev srv = (Inr (), srv') \<Longrightarrow>
          server_step X base srv ev srv'"

inductive_cases server_step_cases: "server_step X base srv ev srv'"

inductive reachable :: "'w externals \<Rightarrow> string \<Rightarrow> 'w \<Rightarrow> 'w server \<Rightarrow> bool"
  for X :: "'w externals" and base :: string and w0 :: 'w where
  start: "reachable X base w0 (server_init w0)"
| step: "reachable X base w0 srv \<Longrightarrow> server_step X base srv ev srv' \<Longrightarrow> reachable X base w0 srv'"

section \<open>Invariants\<close>

text \<open>
  What a condition on the server must be stable under to survive every event but the completion
  of a write: the handlers, and the operations of the read loop. \<open>inv_read\<close> is about the fields
  only the read loop uses.
\<close>

locale read_stable =
  fixes X :: "'w externals" and base :: string and inv :: "'w server \<Rightarrow> bool"
  assumes inv_message: "inv srv \<Longrightarrow> sessions srv c = Some s \<Longrightarrow>
          handle_message X os base c s t p srv = (Inr (), srv') \<Longrightarrow> inv srv'"
    and inv_offline: "inv srv \<Longrightarrow> inv (online_remove c srv)"
    and inv_read: "inv srv \<Longrightarrow>
          inv (modify_session c (\<lambda>s. s\<lparr>pending_read := r s, sess_header := h s, sess_body := b s\<rparr>) srv)"
    and inv_accept: "inv srv \<Longrightarrow> inv (on_accept False srv)"
    and inv_release: "inv srv \<Longrightarrow> inv (release c srv)"
begin

lemma inv_read_simps:
  assumes "inv srv"
  shows "inv (modify_session c (\<lambda>s. s\<lparr>pending_read := r\<rparr>) srv)"
    and "inv (modify_session c (\<lambda>s. s\<lparr>pending_read := r, sess_header := h s\<rparr>) srv)"
    and "inv (modify_session c (\<lambda>s. s\<lparr>pending_read := r, sess_body := b s\<rparr>) srv)"
    and "inv (modify_session c (\<lambda>s. s\<lparr>sess_body := b s\<rparr>) srv)"
    and "inv (do_read_header c srv)"
proof -
  note read = inv_read [OF assms, where c = c]
  show "inv (modify_session c (\<lambda>s. s\<lparr>pending_read := r\<rparr>) srv)"
    using read [where h = sess_header and b = sess_body and r = "\<lambda>_. r"] by simp
  show "inv (modify_session c (\<lambda>s. s\<lparr>pending_read := r, sess_header := h s\<rparr>) srv)"
    using read [where h = h and b = sess_body and r = "\<lambda>_. r"] by simp
  show "inv (modify_session c (\<lambda>s. s\<lparr>pending_read := r, sess_body := b s\<rparr>) srv)"
    using read [where h = sess_header and b = b and r = "\<lambda>_. r"] by simp
  show "inv (modify_session c (\<lambda>s. s\<lparr>sess_body := b s\<rparr>) srv)"
    using read [where h = sess_header and b = b and r = pending_read] by simp
  show "inv (do_read_header c srv)"
    using read [where h = sess_header and b = sess_body and r = "\<lambda>_. ReadHeader"] by (simp add: do_read_header_def)
qed

lemma inv_dispatch:
  assumes "inv srv" and "sessions srv c = Some s"
    and "sbind (handle_message X os base c s t p) (\<lambda>_ srv. (Inr (), do_read_header c srv)) srv
           = (Inr (), srv')"
  shows "inv srv'"
proof -
  obtain r srv1 where h: "handle_message X os base c s t p srv = (r, srv1)" by force
  with assms(3) have "r = Inr ()" and "srv' = do_read_header c srv1"
    by (auto simp: sbind_def split: sum.splits)
  with inv_message [OF assms(1,2)] h show ?thesis by (auto intro: inv_read_simps)
qed

lemma inv_body_read:
  assumes "inv srv" and "do_read_body X os base c srv = (Inr (), srv')"
  shows "inv srv'"
  using assms inv_read_simps [OF assms(1)] inv_dispatch [OF assms(1)]
  by (auto simp: do_read_body_def split: option.splits if_splits)

lemma inv_on_header:
  assumes "inv srv" and "on_header X os base c ec bs srv = (Inr (), srv')"
  shows "inv srv'"
proof -
  let ?srv = "modify_session c (\<lambda>s. s\<lparr>pending_read := NoRead,
            sess_header := header_of_bytes (transferred bs (header_bytes (sess_header s)))\<rparr>) srv"
  have inv1: "inv ?srv" by (rule inv_read_simps [OF assms(1)])
  show ?thesis
    using assms(2) inv1 inv_offline [OF inv1, of c]
      inv_body_read [OF inv_read_simps(4) [OF inv1], where srv' = srv']
    by (auto simp: on_header_def Let_def simp del: sessions_modify
        split: option.splits if_splits sum.splits exn.splits)
qed

lemma inv_on_body:
  assumes "inv srv" and "on_body X os base c ec bs srv = (Inr (), srv')"
  shows "inv srv'"
proof -
  let ?srv = "modify_session c (\<lambda>s. s\<lparr>pending_read := NoRead,
            sess_body := transferred bs (sess_body s)\<rparr>) srv"
  have inv1: "inv ?srv" by (rule inv_read_simps [OF assms(1)])
  show ?thesis
    using assms(2) inv1 inv_offline [OF inv1, of c] inv_dispatch [OF inv1]
    by (auto simp: on_body_def Let_def simp del: sessions_modify split: option.splits if_splits)
qed

lemma inv_released:
  assumes "sbind m (\<lambda>_ srv. (Inr (), release c srv)) srv = (Inr (), srv')"
    and "\<And>srv1. m srv = (Inr (), srv1) \<Longrightarrow> inv srv1"
  shows "inv srv'"
proof -
  obtain r srv1 where m: "m srv = (r, srv1)" by force
  with assms(1) have "r = Inr ()" and "srv' = release c srv1"
    by (auto simp: sbind_def split: sum.splits)
  with assms(2) m show ?thesis by (simp add: inv_release)
qed

lemma inv_event:
  assumes "inv srv" and "run_event X os base ev srv = (Inr (), srv')"
    and "\<And>c ec. ev \<noteq> WriteDone c ec"
  shows "inv srv'"
proof (cases ev)
  case (AcceptDone ec)
  with assms inv_accept [OF assms(1)] show ?thesis by (cases ec) (auto simp: on_accept_def)
next
  case (HeaderDone c ec bs)
  with assms show ?thesis using inv_on_header [OF assms(1)] by (auto intro: inv_released)
next
  case (BodyDone c ec bs)
  with assms show ?thesis using inv_on_body [OF assms(1)] by (auto intro: inv_released)
next
  case (WriteDone c ec)
  with assms(3) show ?thesis by blast
qed

end

text \<open>Stable under every step.\<close>

locale server_stable = read_stable +
  assumes inv_written: "inv srv \<Longrightarrow> sessions srv c = Some s \<Longrightarrow> pending_write s \<Longrightarrow>
          inv (on_written c ec srv)"
begin

lemma inv_step:
  assumes "inv srv" and "server_step X base srv ev srv'"
  shows "inv srv'"
proof -
  obtain os where 1: "enabled srv ev" "run_event X os base ev srv = (Inr (), srv')"
    using assms(2) by (rule server_step_cases)
  show ?thesis
  proof (cases "\<exists>c ec. ev = WriteDone c ec")
    case True
    then obtain c ec where "ev = WriteDone c ec" by blast
    with 1 show ?thesis using inv_written [OF assms(1)]
      by (auto intro: inv_release split: option.splits)
  next
    case False
    with inv_event [OF assms(1) 1(2)] show ?thesis by blast
  qed
qed

end

text \<open>And true at the start: true in every reachable state.\<close>

locale server_invariant = server_stable X base inv
  for X :: "'w externals" and base :: string and w0 :: 'w and inv :: "'w server \<Rightarrow> bool" +
  assumes inv_init: "inv (server_init w0)"
begin

theorem inv_reachable: "reachable X base w0 srv \<Longrightarrow> inv srv"
  by (induction rule: reachable.induct) (auto intro: inv_init inv_step)

end

end
