(* ===== verification/FsxInvariants.thy ===== *)
theory FsxInvariants
  imports FsxServer
begin

text \<open>
  What holds in every reachable state of the server: of its transfers and their streams, and
  of the write queues. Each condition is an instance of the locale \<open>server_invariant\<close>.
\<close>

section \<open>Transfers and their streams\<close>

text \<open>
  Chunks are written to a transfer only in the states ACCEPTED and RECEIVING (\<open>live_state\<close>);
  in those its file handle is an open stream. No two transfers hold the same handle. Every
  transfer but one with id 0 has the paths the file store gives it.
\<close>

definition live_state :: "TransferState \<Rightarrow> bool" where
  "live_state st \<longleftrightarrow> st = ACCEPTED \<or> st = RECEIVING"

definition handles_ok :: "TransferManager \<Rightarrow> stdio \<Rightarrow> bool" where
  "handles_ok tm st \<longleftrightarrow>
     (\<forall>tid t h. get_transfer tm tid = Some t \<longrightarrow> file_handle t = Some h \<longrightarrow> h < next_stream st) \<and>
     (\<forall>tid tid' t t' h. get_transfer tm tid = Some t \<longrightarrow> get_transfer tm tid' = Some t' \<longrightarrow>
        file_handle t = Some h \<longrightarrow> file_handle t' = Some h \<longrightarrow> tid = tid') \<and>
     (\<forall>tid t. get_transfer tm tid = Some t \<longrightarrow> live_state (tstate t) \<longrightarrow>
        (\<exists>h. file_handle t = Some h \<and> is_open st h))"

definition paths_ok :: "string \<Rightarrow> TransferManager \<Rightarrow> bool" where
  "paths_ok base tm \<longleftrightarrow>
     (\<forall>tid t. get_transfer tm tid = Some t \<longrightarrow> tid \<noteq> 0 \<longrightarrow>
        temp_file_path t = get_temp_path base tid (filename t) \<and>
        final_file_path t = get_file_path base tid (filename t))"

definition transfers_ok :: "string \<Rightarrow> 'w server \<Rightarrow> bool" where
  "transfers_ok base srv \<longleftrightarrow>
     tm_wf (manager srv) \<and> stdio_wf (store srv) \<and> handles_ok (manager srv) (store srv) \<and>
     paths_ok base (manager srv)"

lemma handles_ok_create:
  "handles_ok tm st \<Longrightarrow> handles_ok (snd (create_transfer a b c d e f g h tm)) st"
  unfolding handles_ok_def get_transfer_create live_state_def by (auto split: if_splits)

lemma handles_ok_same:
  assumes "handles_ok tm st"
    and "\<And>t. file_handle (f t) = file_handle t" and "\<And>t. live_state (tstate (f t)) \<Longrightarrow> live_state (tstate t)"
  shows "handles_ok (modify_transfer tid f tm) st"
  using assms unfolding handles_ok_def get_modify_transfer by (auto split: if_splits; blast)

lemma handles_ok_chunk:
  "handles_ok tm st \<Longrightarrow> handles_ok tm (snd (write_chunk os fp d st))"
  by (simp add: handles_ok_def)

lemma handles_ok_open:
  assumes "handles_ok tm st" and "open_for_write os b tid name st = (Some h, st')"
    and "\<And>t. file_handle (f t) = Some h"
  shows "handles_ok (modify_transfer tid f tm) st'"
proof -
  note o = open_for_write_open [OF assms(2)]
  have fresh: "h' < next_stream st'" and "h' \<noteq> h" if "h' < next_stream st" for h'
    using that o by auto
  with assms(1,3) o(1,4) show ?thesis
    unfolding handles_ok_def get_modify_transfer
    by (auto split: if_splits simp: o(3); metis)
qed

lemma handles_ok_done:
  assumes ok: "handles_ok tm st" and t: "get_transfer tm tid = Some t"
    and f: "\<And>s. file_handle (f s) = file_handle s" "\<And>s. \<not> live_state (tstate (f s))"
  shows "handles_ok (modify_transfer tid f tm) (snd (finalize_file os b tid name (file_handle t) st))"
proof -
  let ?tm = "modify_transfer tid f tm" and ?st = "snd (finalize_file os b tid name (file_handle t) st)"
  have other: "\<exists>h. file_handle u = Some h \<and> is_open ?st h"
    if "get_transfer ?tm tid' = Some u" and "live_state (tstate u)" for tid' u
  proof -
    have "tid' \<noteq> tid" using that f(2) by auto
    moreover from this that have "get_transfer tm tid' = Some u" by simp
    ultimately show ?thesis
      using ok t that(2) unfolding handles_ok_def finalize_file_is_open by metis
  qed
  have "handles_ok ?tm st"
    using ok f by (intro handles_ok_same) auto
  then show ?thesis
    unfolding handles_ok_def finalize_file_next_stream
    by (elim conjE) (intro conjI allI impI, blast, blast, rule other)
qed

lemma paths_ok_same:
  assumes "paths_ok base tm"
    and "\<And>t. filename (f t) = filename t" and "\<And>t. temp_file_path (f t) = temp_file_path t"
    and "\<And>t. final_file_path (f t) = final_file_path t"
  shows "paths_ok base (modify_transfer tid f tm)"
  using assms by (auto simp: paths_ok_def split: if_splits)

lemma paths_ok_mark: "paths_ok base tm \<Longrightarrow> paths_ok base (snd (mark_chunk_received tid i n tm))"
  by (auto simp: snd_mark_chunk intro: paths_ok_same)

lemma handles_ok_mark: "handles_ok tm st \<Longrightarrow> handles_ok (snd (mark_chunk_received tid i n tm)) st"
  by (auto simp: snd_mark_chunk live_state_def intro!: handles_ok_same split: if_splits)

lemma paths_ok_create:
  assumes "paths_ok base tm" and "tid = next_transfer_id tm"
  shows "paths_ok base (modify_transfer tid
           (\<lambda>t. t\<lparr>temp_file_path := get_temp_path base tid f, final_file_path := get_file_path base tid f\<rparr>)
           (snd (create_transfer a b c d e f g h tm)))"
  using assms by (auto simp: paths_ok_def split: if_splits)

lemma paths_ok_create_0:
  assumes "paths_ok base tm" and "next_transfer_id tm = 0"
  shows "paths_ok base (snd (create_transfer a b c d e f g h tm))"
  using assms by (auto simp: paths_ok_def split: if_splits)

section \<open>Handlers\<close>

lemma transfers_ok_send [simp]: "transfers_ok base (send c t p srv) = transfers_ok base srv"
  by (simp add: transfers_ok_def)

lemma transfers_ok_world [simp]: "transfers_ok base (srv\<lparr>world := w\<rparr>) = transfers_ok base srv"
  by (simp add: transfers_ok_def)

lemma transfers_ok_registry [simp]: "transfers_ok base (srv\<lparr>registry := r\<rparr>) = transfers_ok base srv"
  by (simp add: transfers_ok_def)

lemma transfers_ok_sessions [simp]:
  "transfers_ok base (srv\<lparr>sessions := r\<rparr>) = transfers_ok base srv"
  "transfers_ok base (modify_session c f srv) = transfers_ok base srv"
  by (simp_all add: transfers_ok_def)

lemma offer_keeps_transfers:
  assumes "transfers_ok base srv"
  shows "keeps (transfers_ok base) (handle_file_offer_req X base c s p) srv"
  using assms
  by (auto simp: handle_file_offer_req_def wp_simps wp_def [of "get_user_by_username X _"]
      split: sum.split exn.split option.split)
    (auto simp: transfers_ok_def intro!: tm_wf_create tm_wf_modify handles_ok_create handles_ok_same
        paths_ok_create paths_ok_create_0)

lemma accept_keeps_transfers:
  assumes "transfers_ok base srv"
  shows "keeps (transfers_ok base) (handle_file_accept_req os base c s p) srv"
proof -
  let ?open = "\<lambda>tid name. open_for_write os base tid name (store srv)"
  have opened: "transfers_ok base (srv\<lparr>store := snd (?open tid name), manager := modify_transfer tid
                  ((\<lambda>s. s\<lparr>tstate := ACCEPTED\<rparr>) \<circ> (\<lambda>t. t\<lparr>file_handle := Some h\<rparr>)) (manager srv)\<rparr>)"
    if "fst (?open tid name) = Some h" for tid name h
  proof -
    from that have h: "?open tid name = (Some h, snd (?open tid name))"
      by (simp add: prod_eq_iff)
    have "stdio_wf (snd (?open tid name))"
      using assms open_for_write_wf by (simp add: transfers_ok_def)
    with assms show ?thesis
      by (auto simp: transfers_ok_def intro!: tm_wf_modify paths_ok_same handles_ok_open [OF _ h])
  qed
  have failed: "transfers_ok base (srv\<lparr>manager := modify_transfer tid (\<lambda>s. s\<lparr>tstate := FAILED\<rparr>) (manager srv)\<rparr>)"
    for tid
    using assms
    by (auto simp: transfers_ok_def live_state_def intro!: tm_wf_modify paths_ok_same handles_ok_same)
  have nopen: "srv\<lparr>store := snd (?open tid name)\<rparr> = srv" if "fst (?open tid name) = None" for tid name
    using open_for_write_fails [of os base tid name "store srv"] that by (simp add: prod_eq_iff)
  show ?thesis
    using assms failed opened nopen
    by (auto simp: handle_file_accept_req_def wp_simps case_prod_unfold Let_def
        split: sum.split exn.split option.split)
qed

lemma chunk_keeps_transfers:
  assumes "transfers_ok base srv"
  shows "keeps (transfers_ok base) (handle_file_chunk os s p) srv"
  using assms
  by (auto simp: handle_file_chunk_def wp_simps split: sum.split exn.split option.split)
    (auto simp: transfers_ok_def live_state_def intro!: tm_wf_modify tm_wf_mark write_chunk_wf
        handles_ok_mark handles_ok_chunk handles_ok_same paths_ok_mark paths_ok_same)

lemma done_keeps_transfers:
  assumes "transfers_ok base srv"
  shows "keeps (transfers_ok base) (handle_file_done os base c s p) srv"
  using assms finalize_file_no_throw [of os base]
  by (auto simp: handle_file_done_def wp_simps split: sum.split exn.split option.split)
    (auto simp: transfers_ok_def live_state_def intro!: tm_wf_modify finalize_file_wf
        handles_ok_done paths_ok_same)

lemma register_keeps_transfers:
  "transfers_ok base srv \<Longrightarrow> keeps (transfers_ok base) (handle_register_req X c p) srv"
  by (auto simp: handle_register_req_def wp_simps wp_def [of "handle_register X _"]
      split: sum.split exn.split)

lemma login_keeps_transfers:
  "transfers_ok base srv \<Longrightarrow> keeps (transfers_ok base) (handle_login_req X c p) srv"
  by (auto simp: handle_login_req_def wp_simps wp_def [of "handle_login X _"] Let_def
      split: sum.split exn.split)

lemma message_keeps_transfers:
  "transfers_ok base srv \<Longrightarrow> keeps (transfers_ok base) (handle_message X os base c s t p) srv"
  by (intro keeps_message offer_keeps_transfers accept_keeps_transfers chunk_keeps_transfers
      done_keeps_transfers register_keeps_transfers login_keeps_transfers) simp_all

lemma transfers_ok_offline: "transfers_ok base (online_remove c srv) = transfers_ok base srv"
  by (auto simp: online_remove_def case_prod_unfold Let_def split: option.split)

lemma transfers_ok_release: "transfers_ok base (release c srv) = transfers_ok base srv"
  by (auto simp: release_def split: option.split)

interpretation transfers: server_invariant X base w0 "transfers_ok base" for X base w0
proof unfold_locales
  show "transfers_ok base (server_init w0)"
    by (simp add: transfers_ok_def server_init_def tm_wf_init stdio_wf_init)
      (simp add: handles_ok_def paths_ok_def TransferManager_init_def get_transfer_def)
next
  fix srv :: "'a server" and c s os t p srv'
  assume "transfers_ok base srv" and "handle_message X os base c s t p srv = (Inr (), srv')"
  then show "transfers_ok base srv'" using wp_apply [OF message_keeps_transfers] by blast
qed (auto simp: transfers_ok_offline transfers_ok_release on_written_def on_accept_def
    TcpSession_start_def do_read_header_def Let_def, simp add: transfers_ok_def)

section \<open>Write queues\<close>

text \<open>
  A write is in progress only on the front of a non-empty queue (so \<open>outq_.front()\<close> exists when
  \<open>async_write\<close> runs on it, and a second write never starts while one runs); every queued
  block of bytes is one frame.
\<close>

definition queue_ok :: "TcpSession \<Rightarrow> bool" where
  "queue_ok s \<longleftrightarrow> (pending_write s \<longrightarrow> outq s \<noteq> []) \<and> (\<forall>b \<in> set (outq s). \<exists>t p. b = frame t p)"

definition queues_ok :: "'w server \<Rightarrow> bool" where
  "queues_ok srv \<longleftrightarrow> (\<forall>c s. sessions srv c = Some s \<longrightarrow> queue_ok s)"

lemma queue_ok_send: "queue_ok s \<Longrightarrow> queue_ok (session_send t p s)"
  by (auto simp: queue_ok_def)

lemma queues_ok_modify:
  "queues_ok srv \<Longrightarrow> (\<And>s. queue_ok s \<Longrightarrow> queue_ok (f s)) \<Longrightarrow> queues_ok (modify_session c f srv)"
  by (auto simp: queues_ok_def split: if_splits)

lemma queues_ok_other [simp]:
  "queues_ok (srv\<lparr>world := w\<rparr>) = queues_ok srv" "queues_ok (srv\<lparr>manager := m\<rparr>) = queues_ok srv"
  "queues_ok (srv\<lparr>store := st\<rparr>) = queues_ok srv" "queues_ok (srv\<lparr>registry := r\<rparr>) = queues_ok srv"
  "queues_ok (srv\<lparr>sent_log := l\<rparr>) = queues_ok srv"
  by (simp_all add: queues_ok_def)

lemma queues_ok_send [intro!]: "queues_ok srv \<Longrightarrow> queues_ok (send c t p srv)"
  by (auto simp: send_def intro: queues_ok_modify queue_ok_send)

lemma queue_ok_fields [simp]:
  "queue_ok (set_auth t i n s) = queue_ok s" "queue_ok (clear_auth s) = queue_ok s"
  "queue_ok (s\<lparr>pending_read := r\<rparr>) = queue_ok s" "queue_ok (s\<lparr>sess_header := h\<rparr>) = queue_ok s"
  "queue_ok (s\<lparr>sess_body := b\<rparr>) = queue_ok s" "queue_ok TcpSession_new"
  by (simp_all add: queue_ok_def set_auth_def clear_auth_def TcpSession_new_def)

interpretation queue_sessions: session_property queues_ok
  by unfold_locales (auto intro!: queues_ok_modify)

lemmas message_keeps_queues = queue_sessions.message_keeps

lemma queues_ok_offline: "queues_ok srv \<Longrightarrow> queues_ok (online_remove c srv)"
  by (auto simp: online_remove_def case_prod_unfold Let_def intro!: queues_ok_modify split: option.split)

lemma set_tl: "b \<in> set (tl xs) \<Longrightarrow> b \<in> set xs"
  by (cases xs) auto

lemma queue_ok_popped:
  "queue_ok s \<Longrightarrow> queue_ok (s\<lparr>pending_write := False\<rparr>)"
  "queue_ok s \<Longrightarrow> queue_ok (s\<lparr>pending_write := False, outq := tl (outq s)\<rparr>)"
  "queue_ok s \<Longrightarrow> tl (outq s) \<noteq> [] \<Longrightarrow> queue_ok (s\<lparr>outq := tl (outq s), pending_write := True\<rparr>)"
  by (auto simp: queue_ok_def dest: set_tl)

lemma queues_ok_written: "queues_ok srv \<Longrightarrow> queues_ok (on_written c ec srv)"
  by (auto simp: on_written_def Let_def do_write_def queue_ok_popped modify_session_modify
      intro!: queues_ok_offline queues_ok_modify)
    (auto simp: queue_ok_def dest: set_tl)

lemma queues_ok_init: "queues_ok (server_init w)"
  by (simp add: queues_ok_def server_init_def)

lemma queues_ok_accept: "queues_ok srv \<Longrightarrow> queues_ok (on_accept ec srv)"
  unfolding on_accept_def TcpSession_start_def do_read_header_def Let_def
  by (auto intro!: queues_ok_modify) (auto simp: queues_ok_def)

lemma queues_ok_release: "queues_ok srv \<Longrightarrow> queues_ok (release c srv)"
  by (auto simp: release_def queues_ok_def split: option.split)

interpretation queues: server_invariant X base w0 queues_ok for X base w0
proof unfold_locales
  fix srv :: "'a server" and c s os t p srv'
  assume "queues_ok srv" and "handle_message X os base c s t p srv = (Inr (), srv')"
  then show "queues_ok srv'" using wp_apply [OF message_keeps_queues] by blast
qed (auto intro: queues_ok_init queues_ok_accept queues_ok_release queues_ok_written queues_ok_offline
    queues_ok_modify)

section \<open>Properties\<close>

lemma chunk_defined:
  assumes "handles_ok (manager srv) (store srv)"
  shows "wp (handle_file_chunk os s p) (\<lambda>r _. r \<noteq> undefined_behaviour) srv"
proof -
  have opened: "is_open (store srv) h"
    if "get_transfer (manager srv) tid = Some t" "tstate t = ACCEPTED \<or> tstate t = RECEIVING"
      "file_handle t = Some h" for tid t h
    using assms that unfolding handles_ok_def live_state_def by fastforce
  then show ?thesis
    using FileChunk_safe [of p]
    by (auto simp: handle_file_chunk_def wp_simps write_chunk_UB_iff
        split: sum.split exn.split option.split)
qed

text \<open>
  In every reachable state, a transfer that takes chunks has its own open stream: its file
  handle is open, and no other transfer has the same one.
\<close>

theorem receiving_streams_open:
  assumes "reachable X base w0 srv" and "get_transfer (manager srv) tid = Some t"
    and "tstate t = ACCEPTED \<or> tstate t = RECEIVING"
  shows "\<exists>h. file_handle t = Some h \<and> is_open (store srv) h \<and>
    (\<forall>tid' t'. get_transfer (manager srv) tid' = Some t' \<longrightarrow> file_handle t' = Some h \<longrightarrow> tid' = tid)"
proof -
  have "handles_ok (manager srv) (store srv)"
    using transfers.inv_reachable [OF assms(1)] by (simp add: transfers_ok_def)
  with assms(2,3) show ?thesis
    unfolding handles_ok_def live_state_def by metis
qed

text \<open>
  C13: In a reachable state no FILE_CHUNK, however malformed or out of place, makes the server use
  a stream that was closed or read outside the message.
\<close>

theorem chunks_never_undefined:
  assumes "reachable X base w0 srv" and "sessions srv c = Some s"
  shows "fst (handle_message X os base c s FILE_CHUNK p srv) \<noteq> undefined_behaviour"
proof -
  have "handles_ok (manager srv) (store srv)"
    using transfers.inv_reachable [OF assms(1)] by (simp add: transfers_ok_def)
  from chunk_defined [OF this, of os s p] show ?thesis
    by (simp add: handle_message_def wp_def)
qed

text \<open>
  In every reachable state each transfer keeps its id, and its paths are those the file store
  uses for that id and for the file name of the offer, which is taken as the client sent it.
\<close>

theorem transfer_paths_reachable:
  assumes "reachable X base w0 srv" and "get_transfer (manager srv) tid = Some t" and "tid \<noteq> 0"
  shows "transfer_id t = tid \<and> temp_file_path t = get_temp_path base tid (filename t) \<and>
         final_file_path t = get_file_path base tid (filename t)"
  using transfers.inv_reachable [OF assms(1)] assms(2,3)
  by (auto simp: transfers_ok_def tm_wf_def paths_ok_def)

text \<open>
  In every reachable state a write is in progress only when the queue has a front to write,
  and every queued block is one complete frame, so the bytes a peer receives are whole frames.
\<close>

theorem write_queues_hold_frames:
  assumes "reachable X base w0 srv" and "sessions srv c = Some s"
  shows "(pending_write s \<longrightarrow> outq s \<noteq> []) \<and> (\<forall>b \<in> set (outq s). \<exists>t p. b = frame t p)"
  using queues.inv_reachable [OF assms(1)] assms(2) by (auto simp: queues_ok_def queue_ok_def)

end
