(* ===== verification/FsxOnline.thy ===== *)
theory FsxOnline
  imports FsxInvariants
begin

text \<open>
  Who is online: in every reachable state the session manager finds every authenticated session
  under its token, and two sessions never share a token. This rests on what the database
  promises of tokens (locale \<open>auth_backend\<close>).
\<close>

section \<open>The invariant\<close>

definition online_ok :: "('w \<Rightarrow> bool) \<Rightarrow> ('w \<Rightarrow> string set) \<Rightarrow> 'w server \<Rightarrow> bool" where
  "online_ok usable tokens srv \<longleftrightarrow>
     usable (world srv) \<and> distinct (map fst (registry srv)) \<and>
     (\<forall>t c. (t, c) \<in> set (registry srv) \<longrightarrow> t \<in> tokens (world srv) \<and> c < next_conn srv) \<and>
     (\<forall>c s. sessions srv c = Some s \<longrightarrow>
        c < next_conn srv \<and> (is_authenticated s \<longrightarrow> map_of (registry srv) (sess_token s) = Some c))"

lemma online_ok_other [simp]:
  "online_ok u tk (srv\<lparr>manager := m\<rparr>) = online_ok u tk srv"
  "online_ok u tk (srv\<lparr>store := st\<rparr>) = online_ok u tk srv"
  "online_ok u tk (srv\<lparr>sent_log := l\<rparr>) = online_ok u tk srv"
  by (simp_all add: online_ok_def)

lemma online_ok_modify:
  assumes "\<And>s. sess_token (f s) = sess_token s" and "online_ok u tk srv"
  shows "online_ok u tk (modify_session c f srv)"
  using assms by (auto simp: online_ok_def is_authenticated_def split: if_splits)

lemma online_ok_send [intro!]: "online_ok u tk srv \<Longrightarrow> online_ok u tk (send c t p srv)"
  by (auto simp: send_def intro: online_ok_modify)

lemma set_unexpired: "e \<in> set (unexpired objs reg) \<Longrightarrow> e \<in> set reg"
  by (simp add: unexpired_def)

lemma online_ok_unexpired:
  "online_ok u tk srv \<Longrightarrow> online_ok u tk (srv\<lparr>registry := unexpired (sessions srv) (registry srv)\<rparr>)"
  by (auto simp: online_ok_def distinct_unexpired map_of_unexpired dest: set_unexpired)

lemma online_ok_world:
  assumes "online_ok u tk srv" and "u w'" and "tk (world srv) \<subseteq> tk w'"
  shows "online_ok u tk (srv\<lparr>world := w'\<rparr>)"
  using assms by (auto simp: online_ok_def)

lemma online_ok_release: "online_ok u tk srv \<Longrightarrow> online_ok u tk (release c srv)"
  by (auto simp: release_def online_ok_def split: option.split)

lemma online_ok_accept: "online_ok u tk srv \<Longrightarrow> online_ok u tk (on_accept ec srv)"
  by (auto simp: on_accept_def TcpSession_start_def do_read_header_def Let_def online_ok_def
      TcpSession_new_def is_authenticated_def less_Suc_eq split: if_splits)

lemma set_delete: "e \<in> set (AList.delete k m) \<Longrightarrow> e \<in> set m"
  by (simp add: AList.delete_eq)

text \<open>A session that goes offline takes its own entry away, and no other.\<close>

lemma online_ok_offline:
  assumes "online_ok u tk srv"
  shows "online_ok u tk (online_remove c srv)"
proof (cases "\<exists>s. sessions srv c = Some s \<and> sess_token s \<noteq> []")
  case False
  then have "online_remove c srv = srv" by (auto simp: online_remove_def split: option.split)
  with assms show ?thesis by simp
next
  case True
  then obtain s where s: "sessions srv c = Some s" "sess_token s \<noteq> []" by blast
  let ?reg = "remove_session (sess_token s) (unexpired (sessions srv) (registry srv))"
  have off: "online_remove c srv = modify_session c clear_auth (srv\<lparr>registry := ?reg\<rparr>)"
    using s by (simp add: online_remove_def case_prod_unfold Let_def)
  have "map_of ?reg (sess_token s') = Some d"
    if d: "sessions srv d = Some s'" "is_authenticated s'" "d \<noteq> c" for d s'
  proof -
    have "map_of (registry srv) (sess_token s') = Some d" "map_of (registry srv) (sess_token s) = Some c"
      using assms d s by (auto simp: online_ok_def is_authenticated_def)
    with d have "sess_token s' \<noteq> sess_token s" by auto
    with d assms \<open>map_of (registry srv) (sess_token s') = Some d\<close> show ?thesis
      by (simp add: online_ok_def remove_session_def map_of_unexpired)
  qed
  with assms show ?thesis
    unfolding off
    by (auto simp: online_ok_def clear_auth_def is_authenticated_def remove_session_def
        distinct_delete distinct_unexpired dest!: set_delete set_unexpired split: if_splits)
qed

text \<open>A login under a token that is new gives the session an entry, and takes none away.\<close>

lemma online_ok_login:
  assumes "online_ok u tk srv" and "u w'" and "t \<notin> tk (world srv)" and "tk w' = insert t (tk (world srv))"
    and "sessions srv c \<noteq> None"
  shows "online_ok u tk
           (let srv' = modify_session c (set_auth t i n) (send c LOGIN_RESP p (srv\<lparr>world := w'\<rparr>))
            in srv'\<lparr>registry := unexpired (sessions srv') (add_session t c (registry srv))\<rparr>)"
proof -
  have fresh: "map_of (registry srv) t = None"
    using assms(1,3) by (auto simp: online_ok_def map_of_eq_None_iff)
  have other: "sess_token s \<noteq> t" if "sessions srv d = Some s" and "sess_token s \<noteq> []" for d s
    using assms(1) fresh that by (auto simp: online_ok_def is_authenticated_def)
  let ?reg = "add_session t c (registry srv)"
  let ?srv = "(modify_session c (set_auth t i n) (send c LOGIN_RESP p (srv\<lparr>world := w'\<rparr>)))\<lparr>registry := ?reg\<rparr>"
  have "online_ok u tk ?srv"
    using assms other
    by (auto simp: online_ok_def add_session_def distinct_update set_update_iff set_auth_def
        is_authenticated_def split: if_splits)
  from online_ok_unexpired [OF this] show ?thesis by (simp add: Let_def)
qed

section \<open>Handlers\<close>

locale online_server = auth_backend X user_rows usable tokens encodable
  for X :: "'w externals" and user_rows :: "'w \<Rightarrow> UserRow list" and usable :: "'w \<Rightarrow> bool"
    and tokens :: "'w \<Rightarrow> string set" and encodable :: "string \<Rightarrow> bool" +
  fixes w0 :: 'w
  assumes usable_start: "usable w0"
begin

lemma usable_world: "online_ok usable tokens srv \<Longrightarrow> usable (world srv)"
  by (simp add: online_ok_def)

lemma world_unchanged: "srv\<lparr>world := world srv\<rparr> = srv"
  by simp

lemma offer_keeps_online:
  "online_ok usable tokens srv \<Longrightarrow>
     keeps (online_ok usable tokens) (handle_file_offer_req X base c s p) srv"
  by (auto simp: handle_file_offer_req_def wp_simps wp_find_user usable_world
      split: sum.split exn.split option.split)

lemma accept_keeps_online:
  "online_ok usable tokens srv \<Longrightarrow>
     keeps (online_ok usable tokens) (handle_file_accept_req os base c s p) srv"
  by (auto simp: handle_file_accept_req_def wp_simps case_prod_unfold Let_def
      split: sum.split exn.split option.split)

lemma chunk_keeps_online:
  "online_ok usable tokens srv \<Longrightarrow> keeps (online_ok usable tokens) (handle_file_chunk os s p) srv"
  by (auto simp: handle_file_chunk_def wp_simps split: sum.split exn.split option.split)

lemma done_keeps_online:
  "online_ok usable tokens srv \<Longrightarrow> keeps (online_ok usable tokens) (handle_file_done os base c s p) srv"
  by (auto simp: handle_file_done_def wp_simps split: sum.split exn.split option.split)

lemma register_keeps_online:
  assumes "online_ok usable tokens srv"
  shows "keeps (online_ok usable tokens) (handle_register_req X c p) srv"
proof -
  have "online_ok usable tokens (srv\<lparr>world := w'\<rparr>)"
    if "handle_register X req (world srv) = (r, w')" for req r w'
    using register_frame [OF usable_world [OF assms] that] register_tokens [OF usable_world [OF assms] that]
    by (intro online_ok_world [OF assms]) auto
  then have "online_ok usable tokens (srv\<lparr>world := snd (handle_register X req (world srv))\<rparr>)" for req
    by (metis prod.collapse)
  with assms show ?thesis
    by (auto simp: handle_register_req_def wp_simps wp_def [of "handle_register X _"]
        split: sum.split exn.split)
qed

lemma login_keeps_online:
  assumes "online_ok usable tokens srv" and "sessions srv c \<noteq> None"
  shows "keeps (online_ok usable tokens) (handle_login_req X c p) srv"
proof -
  note us = usable_world [OF assms(1)]
  have "wp (handle_login X req) (\<lambda>r w'. usable w' \<and> (case r of
          Inl e \<Rightarrow> tokens w' = tokens (world srv)
        | Inr resp \<Rightarrow>
            if lresp_ok resp
            then lresp_token resp \<notin> tokens (world srv) \<and>
                 tokens w' = insert (lresp_token resp) (tokens (world srv))
            else tokens w' = tokens (world srv))) (world srv)" for req
    using wp_login_tokens [OF us, of req] login_frame [OF us, of req]
    by (auto simp: wp_def split: sum.splits) (metis prod.collapse)+
  then have "wp (handle_login X req) (\<lambda>r w'. case r of
          Inl e \<Rightarrow> online_ok usable tokens (srv\<lparr>world := w'\<rparr>)
        | Inr resp \<Rightarrow>
            if lresp_ok resp
            then \<forall>p. online_ok usable tokens
                   (let srv = modify_session c (set_auth (lresp_token resp) (lresp_user_id resp) (lresp_username resp))
                                (send c LOGIN_RESP p (srv\<lparr>world := w'\<rparr>))
                    in srv\<lparr>registry := unexpired (sessions srv) (add_session (lresp_token resp) c (registry srv))\<rparr>)
            else online_ok usable tokens (srv\<lparr>world := w'\<rparr>)) (world srv)" for req
    by (rule wp_mono)
      (use assms in \<open>auto intro: online_ok_world online_ok_login split: sum.splits if_splits\<close>)
  note login = this
  show ?thesis
  proof (cases "LoginReq_deserialize p")
    case (Inl e)
    with assms(1) show ?thesis
      by (cases e) (auto simp: handle_login_req_def wp_simps)
  next
    case (Inr req)
    then show ?thesis
      by (simp add: handle_login_req_def wp_simps)
        (rule wp_mono [OF login [of req]], auto simp: wp_simps Let_def split: sum.splits exn.splits if_splits)
  qed
qed

lemma message_keeps_online:
  assumes "online_ok usable tokens srv" and "sessions srv c \<noteq> None"
  shows "keeps (online_ok usable tokens) (handle_message X os base c s t p) srv"
  using assms
  by (intro keeps_message offer_keeps_online accept_keeps_online chunk_keeps_online
      done_keeps_online register_keeps_online login_keeps_online online_ok_send online_ok_unexpired)
    simp_all

end

sublocale online_server \<subseteq> online: server_invariant X base w0 "online_ok usable tokens" for base
proof unfold_locales
  show "online_ok usable tokens (server_init w0)"
    using usable_start by (simp add: online_ok_def server_init_def)
next
  fix srv c s os t p srv'
  assume "online_ok usable tokens srv" and "sessions srv c = Some s"
    and "handle_message X os base c s t p srv = (Inr (), srv')"
  then show "online_ok usable tokens srv'" using wp_apply [OF message_keeps_online] by blast
next
  fix srv c s ec
  assume ok: "online_ok usable tokens srv"
  then show "online_ok usable tokens (on_written c ec srv)"
    by (auto simp: on_written_def Let_def do_write_def intro!: online_ok_offline online_ok_modify)
qed (auto intro: online_ok_offline online_ok_accept online_ok_release intro!: online_ok_modify)

context online_server
begin

lemma online_reachable: "reachable X base w0 srv \<Longrightarrow> online_ok usable tokens srv"
  by (rule online.inv_reachable)

end

interpretation ref_online:
  online_server ref_externals pg_users ref_usable "\<lambda>w. set (pg_tokens w)" ref_encodable pg_world_init
  by unfold_locales (simp add: ref_usable_def pg_world_init_def)

section \<open>Properties\<close>

text \<open>
  C7: In every reachable state, over a database that hands out fresh tokens, an authenticated
  session is found under its token, no other session has that token, and its user's name is in
  the online list.
\<close>

theorem authenticated_sessions_online:
  assumes "auth_backend X user_rows usable tokens encodable" and "usable w0" and "reachable X base w0 srv"
    and "sessions srv c = Some s" and "is_authenticated s"
  shows "get_session (sessions srv) (registry srv) (sess_token s) = Some c \<and>
    (\<forall>d s'. sessions srv d = Some s' \<longrightarrow> sess_token s' = sess_token s \<longrightarrow> d = c) \<and>
    sess_username s \<in> set (fst (get_online_usernames (sessions srv) (registry srv)))"
proof -
  have "online_server X user_rows usable tokens encodable w0"
    using assms(1,2) by (simp add: online_server_def online_server_axioms_def)
  then have ok: "online_ok usable tokens srv"
    using assms(3) by (rule online_server.online_reachable)
  then have m: "map_of (registry srv) (sess_token s) = Some c"
    using assms(4,5) by (simp add: online_ok_def)
  moreover have "d = c" if "sessions srv d = Some s'" "sess_token s' = sess_token s" for d s'
  proof -
    have auth: "is_authenticated s'" using that(2) assms(5) by (simp add: is_authenticated_def)
    have "map_of (registry srv) (sess_token s') = Some d"
      using ok that(1) auth unfolding online_ok_def by blast
    with m that(2) show ?thesis by simp
  qed
  moreover have "sess_username s \<in> set (fst (get_online_usernames (sessions srv) (registry srv)))"
    using map_of_SomeD [OF m] assms(4,5)
    by (force simp: fst_get_online online_entries_def)
  ultimately show ?thesis
    using assms(4) unfolding get_session_Some by blast
qed

text \<open>
  C25: A connection that breaks while the server waits for a header goes offline: its token is no
  longer found, the session loses its authentication, and every other session is still found
  under its token.
\<close>

theorem disconnect_goes_offline:
  assumes "sessions srv c = Some s" and "is_authenticated s" and "distinct (map fst (registry srv))"
  shows "\<exists>srv'. run_event X os base (HeaderDone c True bs) srv = (Inr (), srv') \<and>
    get_session (sessions srv') (registry srv') (sess_token s) = None \<and>
    (\<forall>s'. sessions srv' c = Some s' \<longrightarrow> \<not> is_authenticated s') \<and>
    (\<forall>t d. t \<noteq> sess_token s \<longrightarrow> d \<noteq> c \<longrightarrow> get_session (sessions srv) (registry srv) t = Some d \<longrightarrow>
       get_session (sessions srv') (registry srv') t = Some d)"
proof -
  let ?f = "\<lambda>s. s\<lparr>pending_read := NoRead,
      sess_header := header_of_bytes (transferred bs (header_bytes (sess_header s)))\<rparr>"
  let ?srv1 = "modify_session c ?f srv"
  let ?reg = "remove_session (sess_token s) (unexpired (sessions ?srv1) (registry srv))"
  let ?srv2 = "modify_session c clear_auth (?srv1\<lparr>registry := ?reg\<rparr>)"
  have off: "online_remove c ?srv1 = ?srv2"
    using assms(1,2) by (simp add: online_remove_def is_authenticated_def case_prod_unfold Let_def)
  have run: "run_event X os base (HeaderDone c True bs) srv = (Inr (), release c ?srv2)"
    using assms(1) by (simp add: on_header_def sbind_def Let_def off)
  have reg: "registry (release c ?srv2) = ?reg"
    by (simp add: release_def split: option.split)
  have none: "get_session objs ?reg (sess_token s) = None" for objs
    using assms(3) by (simp add: get_session_def remove_session_def)
  have still: "sessions (release c ?srv2) d = sessions srv d" if "d \<noteq> c" for d
    using that by (simp add: release_def split: option.split)
  have kept: "get_session (sessions (release c ?srv2)) ?reg t = Some d"
    if t: "t \<noteq> sess_token s" "d \<noteq> c" "get_session (sessions srv) (registry srv) t = Some d" for t d
  proof -
    from t(3) have d: "map_of (registry srv) t = Some d" "sessions srv d \<noteq> None"
      unfolding get_session_Some by blast+
    have alive: "sessions ?srv1 d \<noteq> None" using d(2) t(2) by simp
    have "map_of ?reg t = map_of (unexpired (sessions ?srv1) (registry srv)) t"
      using t(1) by (simp add: remove_session_def map_of_delete)
    also have "\<dots> = Some d"
      using d(1) alive unfolding map_of_unexpired [OF assms(3)] by (simp only: option.case if_False)
    finally have "map_of ?reg t = Some d" .
    with d(2) still [OF t(2)] show ?thesis unfolding get_session_Some by metis
  qed
  have "\<not> is_authenticated s'" if "sessions (release c ?srv2) c = Some s'" for s'
    using that assms(1)
    by (auto simp: release_def is_authenticated_def clear_auth_def split: if_splits)
  note off = this
  show ?thesis
    by (intro exI conjI allI impI, rule run, unfold reg, rule none) (use off kept in blast)+
qed

theorem disconnect_goes_offline_witness:
  "\<exists>srv'. run_event ref_externals sample_os ''d'' (HeaderDone 0 True []) sample_server = (Inr (), srv') \<and>
     get_session (sessions srv') (registry srv') ''t'' = None"
  using disconnect_goes_offline [of sample_server 0 "sample_session ''t'' ''alice''" ref_externals sample_os
      "''d''" "[]"]
  by (auto simp: sample_server_def sample_session_def is_authenticated_def set_auth_def)

text \<open>
  C26: A frame that announces more than 16 MiB ends the connection without handling a message and
  without touching transfers, files, or the database; unlike every other disconnect it leaves
  the entry of the session in the registry.
\<close>

theorem oversized_frame_closes:
  assumes "sessions srv c = Some s" and "\<not> pending_write s" and "unat len > 16777216"
  shows "\<exists>srv'. run_event X os base (HeaderDone c False (header_bytes (make_header t len))) srv =
      (Inr (), srv') \<and> sessions srv' c = None \<and> registry srv' = registry srv \<and>
      manager srv' = manager srv \<and> store srv' = store srv \<and> world srv' = world srv"
proof -
  have "len > 16 * 1024 * 1024" using assms(3) by (simp add: word_less_nat_alt)
  with assms(1,2) show ?thesis
    by (simp add: on_header_def transferred_def sbind_def Let_def HEADER_SIZE_def release_def)
qed

theorem oversized_frame_closes_witness:
  "\<exists>srv'. run_event ref_externals sample_os ''d''
     (HeaderDone 0 False (header_bytes (make_header FILE_CHUNK 16777217))) sample_server = (Inr (), srv') \<and>
     sessions srv' 0 = None \<and> registry srv' = [(''t'', 0)]"
  using oversized_frame_closes [of sample_server 0 "sample_session ''t'' ''alice''" 16777217 ref_externals
      sample_os "''d''" FILE_CHUNK]
  by (auto simp: sample_server_def sample_session_def set_auth_def TcpSession_new_def)

end
