(* ===== verification/FsxClient.thy ===== *)
theory FsxClient
  imports FsxAuthMessages FsxFileMessages
begin

text \<open>
  The test clients (\<open>client/src/\<close>): the frames they build, the responses they parse, and the
  sending loop of \<open>test_file_transfer.cpp\<close>. A blocking socket is what is still to come in and
  what went out; reading beyond the end of the input throws. \<open>make_frame\<close> is the builder of
  \<open>test_file_transfer.cpp\<close>; the copies of the other programs are in \<open>FsxCopies\<close>.
\<close>

section \<open>Frames\<close>

definition make_frame :: "u8 \<Rightarrow> bytes \<Rightarrow> bytes" where
  "make_frame t payload =
     header_bytes \<lparr>magic_be = htonl MAGIC, hdr_version = VERSION, hdr_type = t,
                   len_be = htonl (word_of_nat (length payload)), reserved_be = htons 0\<rparr> @ payload"

lemma make_frame_eq: "make_frame (msg_code t) payload = frame t payload"
  by (simp add: make_frame_def frame_def make_header_def)

definition register_payload :: "string \<Rightarrow> string \<Rightarrow> string \<Rightarrow> bytes" where
  "register_payload username email password = put_str username @ put_str email @ put_str password"

definition login_payload :: "string \<Rightarrow> string \<Rightarrow> bytes" where
  "login_payload username password = put_str username @ put_str password"

definition make_register_req :: "string \<Rightarrow> string \<Rightarrow> string \<Rightarrow> bytes" where
  "make_register_req username email password = make_frame 10 (register_payload username email password)"

definition make_login_req :: "string \<Rightarrow> string \<Rightarrow> bytes" where
  "make_login_req username password = make_frame 12 (login_payload username password)"

definition file_offer_payload :: "string \<Rightarrow> string \<Rightarrow> u64 \<Rightarrow> u32 \<Rightarrow> bytes" where
  "file_offer_payload receiver_username filename file_size chunk_size =
     put64 0 @ put_str receiver_username @ put_str filename @ put64 file_size @ put32 chunk_size"

definition make_file_offer_req :: "string \<Rightarrow> string \<Rightarrow> u64 \<Rightarrow> u32 \<Rightarrow> bytes" where
  "make_file_offer_req receiver_username filename file_size chunk_size =
     make_frame 30 (file_offer_payload receiver_username filename file_size chunk_size)"

definition file_accept_payload :: "u64 \<Rightarrow> bool \<Rightarrow> bytes" where
  "file_accept_payload transfer_id accept = put64 transfer_id @ [if accept then 1 else 0]"

definition make_file_accept_req :: "u64 \<Rightarrow> bool \<Rightarrow> bytes" where
  "make_file_accept_req transfer_id accept = make_frame 32 (file_accept_payload transfer_id accept)"

definition file_chunk_payload :: "u64 \<Rightarrow> u32 \<Rightarrow> bytes \<Rightarrow> bytes" where
  "file_chunk_payload transfer_id idx data = put64 transfer_id @ put32 idx @ data"

definition make_file_chunk :: "u64 \<Rightarrow> u32 \<Rightarrow> bytes \<Rightarrow> bytes" where
  "make_file_chunk transfer_id idx data =
     make_frame 34 (file_chunk_payload transfer_id idx data)"

definition file_done_payload :: "u64 \<Rightarrow> u32 \<Rightarrow> u64 \<Rightarrow> bytes" where
  "file_done_payload transfer_id total_chunks file_size =
     put64 transfer_id @ put32 total_chunks @ put64 file_size"

definition make_file_done :: "u64 \<Rightarrow> u32 \<Rightarrow> u64 \<Rightarrow> bytes" where
  "make_file_done transfer_id total_chunks file_size =
     make_frame 35 (file_done_payload transfer_id total_chunks file_size)"

text \<open>The server reads what the clients write.\<close>

definition RegisterReq_fits :: "RegisterReq \<Rightarrow> bool" where
  "RegisterReq_fits m \<longleftrightarrow> length (rreq_username m) < 65536 \<and> length (rreq_email m) < 65536 \<and>
     length (rreq_password m) < 65536"

definition LoginReq_fits :: "LoginReq \<Rightarrow> bool" where
  "LoginReq_fits m \<longleftrightarrow> length (lreq_username m) < 65536 \<and> length (lreq_password m) < 65536"

interpretation register_req:
  safe_codec "\<lambda>m. register_payload (rreq_username m) (rreq_email m) (rreq_password m)"
    RegisterReq_deserialize RegisterReq_fits
proof unfold_locales
  fix m assume "RegisterReq_fits m"
  then show "RegisterReq_deserialize
      (register_payload (rreq_username m) (rreq_email m) (rreq_password m)) = Inr m"
    by (cases m)
      (simp add: RegisterReq_fits_def RegisterReq_deserialize_def register_payload_def put_str_def
        codec_simps Let_def)
qed (rule RegisterReq_safe)

interpretation login_req:
  safe_codec "\<lambda>m. login_payload (lreq_username m) (lreq_password m)" LoginReq_deserialize LoginReq_fits
proof unfold_locales
  fix m assume "LoginReq_fits m"
  then show "LoginReq_deserialize (login_payload (lreq_username m) (lreq_password m)) = Inr m"
    by (cases m)
      (simp add: LoginReq_fits_def LoginReq_deserialize_def login_payload_def put_str_def
        codec_simps Let_def)
qed (rule LoginReq_safe)

lemma client_file_payloads:
  "file_offer_payload r n z k = FileOfferReq_serialize
     \<lparr>oreq_client_transfer_id = 0, oreq_receiver_username = r, oreq_filename = n,
      oreq_file_size = z, oreq_chunk_size = k\<rparr>"
  "file_accept_payload i a = FileAcceptReq_serialize \<lparr>areq_transfer_id = i, areq_accept = a\<rparr>"
  "file_chunk_payload i j d =
     FileChunk_serialize \<lparr>chunk_transfer_id = i, chunk_index = j, chunk_data = d\<rparr>"
  "file_done_payload i j z =
     FileDone_serialize \<lparr>done_transfer_id = i, done_total_chunks = j, done_file_size = z\<rparr>"
  by (simp_all add: file_offer_payload_def FileOfferReq_serialize_def file_accept_payload_def
      FileAcceptReq_serialize_def file_chunk_payload_def FileChunk_serialize_def
      file_done_payload_def FileDone_serialize_def)

section \<open>Sockets\<close>

record socket =
  incoming :: bytes
  outgoing :: bytes

definition sock_read :: "nat \<Rightarrow> (socket, bytes) action" where
  "sock_read n s =
     (if n \<le> length (incoming s) then (Inr (take n (incoming s)), s\<lparr>incoming := drop n (incoming s)\<rparr>)
      else (throw ''read: End of file'', s\<lparr>incoming := []\<rparr>))"

definition sock_write :: "bytes \<Rightarrow> (socket, unit) action" where
  "sock_write bs s = (Inr (), s\<lparr>outgoing := outgoing s @ bs\<rparr>)"

definition read_header :: "(socket, MessageHeaderWire) action" where
  "read_header =
     sbind (sock_read 12) (\<lambda>bs. let h = header_of_bytes bs in
     if ntohl (magic_be h) \<noteq> MAGIC then slift (throw ''bad magic'')
     else if hdr_version h \<noteq> VERSION then slift (throw ''bad version'')
     else sreturn h)"

definition read_payload :: "u32 \<Rightarrow> (socket, bytes) action" where
  "read_payload len = (if len > 0 then sock_read (unat len) else sreturn [])"

lemma read_header_frame:
  "incoming s = frame t p @ rest \<Longrightarrow>
     read_header s = (Inr (make_header t (word_of_nat (length p))), s\<lparr>incoming := p @ rest\<rparr>)"
  by (simp add: read_header_def sbind_def sock_read_def frame_def Let_def make_header_def)

lemma read_payload_frame:
  assumes "incoming s = p @ rest" and "length p < 2 ^ 32"
  shows "read_payload (word_of_nat (length p)) s = (Inr p, s\<lparr>incoming := rest\<rparr>)"
proof -
  have "unat (word_of_nat (length p) :: u32) = length p"
    using assms(2) by (simp add: unat_of_nat take_bit_eq_mod)
  with assms show ?thesis
    by (auto simp: read_payload_def sock_read_def word_gt_0 unat_eq_0 [symmetric])
qed

section \<open>Logging in (\<open>test_file_transfer.cpp\<close>)\<close>

definition do_login :: "string \<Rightarrow> string \<Rightarrow> (socket, bool) action" where
  "do_login username password =
     sbind (sock_write (make_login_req username password)) (\<lambda>_.
     sbind read_header (\<lambda>h.
     if hdr_type h \<noteq> 13 then sreturn False
     else sbind (read_payload (ntohl (len_be h))) (\<lambda>payload.
       if length payload < 1 then sreturn False
       else slift (rbind (get8 payload 0) (\<lambda>b. Inr (b \<noteq> 0))))))"

section \<open>Printing the response (\<open>test_auth.cpp\<close>, \<open>test_persistent.cpp\<close>)\<close>

text \<open>What \<open>read_response\<close> prints.\<close>

datatype printed =
    ErrorLine string
  | RegisterLine bool string
  | LoginLine bool string string
  | NoLine

definition parse_register_resp :: "bytes \<Rightarrow> printed result" where
  "parse_register_resp payload =
     (if length payload < 3 then Inr (ErrorLine ''ERROR: REGISTER_RESP too short'') else
      rbind (get8 payload 0) (\<lambda>b. let ok = (b \<noteq> 0) in
      rbind (get16 payload 1) (\<lambda>msg_len.
      rbind (get_str payload 3 (unat msg_len)) (\<lambda>msg.
      Inr (RegisterLine ok msg)))))"

text \<open>The token part, shared by both programs: the token and the position behind it.\<close>

definition parse_token :: "bytes \<Rightarrow> bool \<Rightarrow> (string \<times> nat) result" where
  "parse_token payload ok =
     (let pos = 1 in
      if ok \<and> pos + 2 \<le> length payload then
        rbind (get16 payload pos) (\<lambda>token_len. let pos = pos + 2 in
        if pos + unat token_len \<le> length payload
        then rbind (get_str payload pos (unat token_len)) (\<lambda>token. Inr (token, pos + unat token_len))
        else Inr ([], pos))
      else Inr ([], pos))"

definition parse_login_resp :: "bytes \<Rightarrow> printed result" where
  "parse_login_resp payload =
     (if length payload < 3 then Inr (ErrorLine ''ERROR: LOGIN_RESP too short'') else
      rbind (get8 payload 0) (\<lambda>b. let ok = (b \<noteq> 0) in
      rbind (parse_token payload ok) (\<lambda>(token, pos).
      if pos + 2 \<le> length payload then
        rbind (get16 payload pos) (\<lambda>msg_len. let pos = pos + 2 in
        if pos + unat msg_len \<le> length payload then
          rbind (get_str payload pos (unat msg_len)) (\<lambda>msg.
          Inr (LoginLine ok (if ok then take 16 token else []) msg))
        else Inr NoLine)
      else Inr NoLine)))"

definition read_response :: "u8 \<Rightarrow> (socket, printed) action" where
  "read_response expected_type =
     sbind (sock_read 12) (\<lambda>bs. let h = header_of_bytes bs in
     if ntohl (magic_be h) \<noteq> MAGIC then sreturn (ErrorLine ''ERROR: bad magic'')
     else if hdr_version h \<noteq> VERSION then sreturn (ErrorLine ''ERROR: bad version'')
     else if hdr_type h \<noteq> expected_type then
       sreturn (ErrorLine (''ERROR: unexpected type (got '' @ dec_string (unat (hdr_type h)) @
         '', expected '' @ dec_string (unat expected_type) @ '')''))
     else let len = ntohl (len_be h) in
       if len > 1024 then sreturn (ErrorLine ''ERROR: payload too large'')
       else sbind (read_payload len) (\<lambda>payload.
         if expected_type = 11 then slift (parse_register_resp payload)
         else if expected_type = 13 then slift (parse_login_resp payload)
         else sreturn NoLine))"

definition read_login_response :: "(socket, bool) action" where
  "read_login_response =
     sbind (sock_read 12) (\<lambda>bs. let h = header_of_bytes bs in
     if ntohl (magic_be h) \<noteq> MAGIC then sreturn False
     else if hdr_version h \<noteq> VERSION then sreturn False
     else if hdr_type h \<noteq> 13 then sreturn False
     else let len = ntohl (len_be h) in
       if len > 1024 then sreturn False
       else sbind (read_payload len) (\<lambda>payload.
         if length payload < 3 then sreturn False
         else slift (rbind (get8 payload 0) (\<lambda>b.
           rbind (parse_token payload (b \<noteq> 0)) (\<lambda>_. Inr (b \<noteq> 0))))))"

section \<open>Sending a file (\<open>do_send\<close>)\<close>

definition DEFAULT_CHUNK_SIZE :: nat where "DEFAULT_CHUNK_SIZE = 256 * 1024"

text \<open>
  The loop reads the file in blocks of \<open>DEFAULT_CHUNK_SIZE\<close>, the last one shorter, until
  \<open>file_size\<close> bytes were sent or the file ends early: \<open>unread\<close> is what the stream still
  holds, which may be less or more than the size that was asked for earlier.
\<close>

function chunk_loop :: "u64 \<Rightarrow> nat \<Rightarrow> bytes \<Rightarrow> u32 \<Rightarrow> nat \<Rightarrow> bytes list \<times> u32 \<times> nat" where
  "chunk_loop tid fsize unread idx total_sent =
     (if total_sent < fsize then
        let remaining = fsize - total_sent;
            to_read = (if remaining < DEFAULT_CHUNK_SIZE then remaining else DEFAULT_CHUNK_SIZE);
            data = take to_read unread;
            bytes_read = length data
        in if bytes_read = 0 then ([], idx, total_sent)
           else let sent = make_file_chunk tid idx data;
                    total_sent = total_sent + bytes_read;
                    idx = idx + 1
                in if bytes_read < to_read then ([sent], idx, total_sent)
                   else let (frames, i, n) = chunk_loop tid fsize (drop to_read unread) idx total_sent
                        in (sent # frames, i, n)
      else ([], idx, total_sent))"
  by pat_completeness auto
termination by (relation "measure (\<lambda>(tid, fsize, unread, idx, total_sent). fsize - total_sent)") auto

declare chunk_loop.simps [simp del]

definition total_chunks_of :: "nat \<Rightarrow> u32 \<Rightarrow> u32" where
  "total_chunks_of fsize chunk_idx =
     (if fsize > 0 then
        let total_chunks = word_of_nat
              (((fsize + DEFAULT_CHUNK_SIZE - 1) mod 2 ^ 64) div DEFAULT_CHUNK_SIZE)
        in if chunk_idx = 0 \<and> fsize > 0 then 1
           else if chunk_idx > total_chunks then chunk_idx
           else total_chunks
      else 0)"

text \<open>The text behind a 16-bit length at \<open>pos\<close>, or nothing when it does not fit.\<close>

definition optional_text :: "bytes \<Rightarrow> nat \<Rightarrow> string result" where
  "optional_text payload pos =
     (if length payload \<ge> pos + 2 then
        rbind (get16 payload pos) (\<lambda>len.
        if pos + 2 + unat len \<le> length payload then get_str payload (pos + 2) (unat len) else Inr [])
      else Inr [])"

record client_file =
  cf_exists :: bool
  cf_size :: nat
  cf_name :: string
  cf_opens :: bool
  cf_contents :: bytes

text \<open>One response of an expected type: its payload.\<close>

definition expect_frame :: "u8 \<Rightarrow> string \<Rightarrow> (socket, bytes) action" where
  "expect_frame t name =
     sbind read_header (\<lambda>h.
     if hdr_type h \<noteq> t
     then slift (throw (''Expected '' @ name @ '', got type '' @ dec_string (unat (hdr_type h))))
     else read_payload (ntohl (len_be h)))"

text \<open>The saved path on success.\<close>

definition do_send :: "string \<Rightarrow> string \<Rightarrow> client_file \<Rightarrow> (socket, string) action" where
  "do_send receiver_username filepath f =
     (if \<not> cf_exists f then slift (throw (''File not found: '' @ filepath))
      else if \<not> cf_opens f then slift (throw (''Failed to open file: '' @ filepath))
      else
        sbind (sock_write (make_file_offer_req receiver_username (cf_name f) (word_of_nat (cf_size f))
                 (word_of_nat DEFAULT_CHUNK_SIZE))) (\<lambda>_.
        sbind (expect_frame 31 ''FILE_OFFER_RESP'') (\<lambda>resp.
        if length resp < 9 then slift (throw ''FILE_OFFER_RESP too short'') else
        sbind (slift (get8 resp 0)) (\<lambda>status.
        sbind (slift (get64 resp 1)) (\<lambda>tid.
        if status \<noteq> 0 then
          sbind (slift (optional_text resp 9)) (\<lambda>reason. slift (throw (''FILE_OFFER failed: '' @ reason)))
        else
        sbind (expect_frame 33 ''FILE_ACCEPT_RESP'') (\<lambda>acc.
        if length acc < 1 then slift (throw ''FILE_ACCEPT_RESP too short'') else
        sbind (slift (get8 acc 0)) (\<lambda>accepted.
        if accepted \<noteq> 0 then
          sbind (slift (optional_text acc 1)) (\<lambda>reason. slift (throw (''Receiver rejected: '' @ reason)))
        else
        let (frames, chunk_idx, total_sent) = chunk_loop tid (cf_size f) (cf_contents f) 0 0 in
        sbind (sock_write (concat frames)) (\<lambda>_.
        sbind (sock_write (make_file_done tid (total_chunks_of (cf_size f) chunk_idx)
                 (word_of_nat (cf_size f)))) (\<lambda>_.
        sbind (expect_frame 36 ''FILE_RESULT'') (\<lambda>result.
        if length result < 9 then slift (throw ''FILE_RESULT too short'') else
        sbind (slift (get8 result 8)) (\<lambda>failed.
        sbind (slift (optional_text result 9)) (\<lambda>text.
        if failed = 0 then sreturn text
        else slift (throw (''FILE_RESULT failed: '' @ text))))))))))))))"

definition do_recv :: "u64 \<Rightarrow> (socket, unit) action" where
  "do_recv tid =
     sbind (sock_write (make_file_accept_req tid True)) (\<lambda>_.
     sbind (expect_frame 33 ''FILE_ACCEPT_RESP'') (\<lambda>acc.
     if length acc < 1 then slift (throw ''FILE_ACCEPT_RESP too short'') else
     sbind (slift (get8 acc 0)) (\<lambda>accepted.
     if accepted \<noteq> 0 then
       sbind (slift (optional_text acc 1)) (\<lambda>reason. slift (throw (''Transfer rejected: '' @ reason)))
     else sreturn ())))"

section \<open>The sending loop cuts the file into blocks\<close>

text \<open>The reference: blocks of \<open>n\<close> bytes, the last one shorter.\<close>

function blocks :: "nat \<Rightarrow> bytes \<Rightarrow> bytes list" where
  "blocks n xs = (if n = 0 \<or> xs = [] then [] else take n xs # blocks n (drop n xs))"
  by pat_completeness auto
termination by (relation "measure (\<lambda>(n, xs). length xs)") auto

declare blocks.simps [simp del]

lemma blocks_Nil [simp]: "blocks n [] = []"
  by (subst blocks.simps) simp

lemma blocks_step: "0 < n \<Longrightarrow> xs \<noteq> [] \<Longrightarrow> blocks n xs = take n xs # blocks n (drop n xs)"
  by (subst blocks.simps) simp

lemma blocks_induct [consumes 1, case_names Nil step]:
  assumes "0 < n" and "P []" and "\<And>xs. xs \<noteq> [] \<Longrightarrow> P (drop n xs) \<Longrightarrow> P xs"
  shows "P xs"
proof (induction xs rule: measure_induct_rule [of length])
  case (less xs)
  with assms show ?case by (cases "xs = []") auto
qed

lemma concat_blocks:
  assumes n: "0 < n"
  shows "concat (blocks n xs) = xs"
  using n
proof (induction xs rule: blocks_induct)
  case (step xs)
  then show ?case by (subst blocks_step [OF n]) simp_all
qed simp

lemma blocks_sizes:
  assumes n: "0 < n"
  shows "\<forall>b \<in> set (blocks n xs). b \<noteq> [] \<and> length b \<le> n"
  using n
proof (induction xs rule: blocks_induct)
  case (step xs)
  with n show ?case by (subst blocks_step [OF n]) simp_all
qed simp

lemma length_blocks:
  assumes n: "0 < n"
  shows "length (blocks n xs) = (length xs + n - 1) div n"
  using n
proof (induction xs rule: blocks_induct)
  case Nil
  with n show ?case by simp
next
  case (step xs)
  have "(length xs + n - 1) div n = Suc ((length xs - n + n - 1) div n)"
  proof (cases "n \<le> length xs")
    case True
    then have "length xs + n - 1 = (length xs - n + n - 1) + n" using n by simp
    then have "(length xs + n - 1) div n = ((length xs - n + n - 1) + n) div n" by (rule arg_cong)
    also have "\<dots> = Suc ((length xs - n + n - 1) div n)" using n by (subst div_add_self2) simp_all
    finally show ?thesis .
  next
    case False
    with step have "length xs + n - 1 = n + (length xs - 1)" "length xs - 1 < n"
      by (auto simp: Suc_le_eq)
    moreover from False have "length xs - n + n - 1 < n" using n by simp
    ultimately show ?thesis using n by (simp only: div_add_self1) simp
  qed
  moreover have "length (blocks n xs) = Suc (length (blocks n (drop n xs)))"
    using step.hyps by (subst blocks_step [OF n]) simp_all
  ultimately show ?case using step.IH by (metis length_drop)
qed

fun chunk_frames :: "u64 \<Rightarrow> u32 \<Rightarrow> bytes list \<Rightarrow> bytes list" where
  "chunk_frames tid idx [] = []"
| "chunk_frames tid idx (b # bs) = make_file_chunk tid idx b # chunk_frames tid (idx + 1) bs"

text \<open>The loop sends all the stream still holds, when that is not more than was asked for.\<close>

lemma chunk_loop_available:
  assumes "length unread \<le> fsize - sent" and "sent \<le> fsize"
  shows "chunk_loop tid fsize unread idx sent =
           (chunk_frames tid idx (blocks DEFAULT_CHUNK_SIZE unread),
            idx + word_of_nat (length (blocks DEFAULT_CHUNK_SIZE unread)), sent + length unread)"
  using assms
proof (induction tid fsize unread idx sent rule: chunk_loop.induct)
  case (1 tid fsize unread idx sent)
  have pos: "0 < DEFAULT_CHUNK_SIZE" by (simp add: DEFAULT_CHUNK_SIZE_def)
  show ?case
  proof (cases "unread = []")
    case True
    with "1.prems" show ?thesis by (simp add: chunk_loop.simps)
  next
    case False
    with "1.prems" have True: "sent < fsize" by (cases unread) auto
    define k where "k = (if fsize - sent < DEFAULT_CHUNK_SIZE then fsize - sent else DEFAULT_CHUNK_SIZE)"
    have k: "0 < k" "k \<le> DEFAULT_CHUNK_SIZE" "k \<le> fsize - sent"
      using True pos by (auto simp: k_def)
    have split: "take k unread = take DEFAULT_CHUNK_SIZE unread"
      "drop k unread = drop DEFAULT_CHUNK_SIZE unread"
      using "1.prems" by (auto simp: k_def)
    have b: "blocks DEFAULT_CHUNK_SIZE unread =
        take k unread # blocks DEFAULT_CHUNK_SIZE (drop k unread)"
      unfolding split using False pos by (intro blocks_step) auto
    show ?thesis
    proof (cases "length unread < k")
      case True
      with False k \<open>sent < fsize\<close> b show ?thesis
        by (subst chunk_loop.simps) (simp add: k_def [symmetric] Let_def)
    next
      case len: False
      have "chunk_loop tid fsize (drop k unread) (idx + 1) (sent + k) =
            (chunk_frames tid (idx + 1) (blocks DEFAULT_CHUNK_SIZE (drop k unread)),
             idx + 1 + word_of_nat (length (blocks DEFAULT_CHUNK_SIZE (drop k unread))), sent + length unread)"
        using "1.IH" [OF True refl k_def refl] len k "1.prems" by simp
      with len False k \<open>sent < fsize\<close> b show ?thesis
        by (subst chunk_loop.simps) (simp add: k_def [symmetric] Let_def add.assoc)
    qed
  qed
qed

lemma chunk_loop_blocks:
  assumes "length unread = fsize - sent" and "sent \<le> fsize"
  shows "chunk_loop tid fsize unread idx sent =
           (chunk_frames tid idx (blocks DEFAULT_CHUNK_SIZE unread),
            idx + word_of_nat (length (blocks DEFAULT_CHUNK_SIZE unread)), fsize)"
  using assms by (simp add: chunk_loop_available)

lemma total_chunks_blocks:
  assumes "length xs < 2 ^ 63" and "length (blocks DEFAULT_CHUNK_SIZE xs) < 2 ^ 32"
  shows "total_chunks_of (length xs) (word_of_nat (length (blocks DEFAULT_CHUNK_SIZE xs))) =
           word_of_nat (length (blocks DEFAULT_CHUNK_SIZE xs))"
proof -
  have pos: "0 < DEFAULT_CHUNK_SIZE" by (simp add: DEFAULT_CHUNK_SIZE_def)
  have m: "(length xs + DEFAULT_CHUNK_SIZE - 1) mod 2 ^ 64 = length xs + DEFAULT_CHUNK_SIZE - 1"
    using assms(1) by (simp add: DEFAULT_CHUNK_SIZE_def)
  have nz: "word_of_nat (length (blocks DEFAULT_CHUNK_SIZE xs)) \<noteq> (0 :: u32)" if "xs \<noteq> []"
  proof -
    have "blocks DEFAULT_CHUNK_SIZE xs \<noteq> []"
      using that pos by (simp add: blocks_step)
    moreover have "unat (word_of_nat (length (blocks DEFAULT_CHUNK_SIZE xs)) :: u32) =
                     length (blocks DEFAULT_CHUNK_SIZE xs)"
      using assms(2) by (simp add: unat_of_nat take_bit_eq_mod)
    ultimately show ?thesis by (metis length_0_conv unsigned_0)
  qed
  have n: "(length xs + DEFAULT_CHUNK_SIZE - 1) mod 2 ^ 64 div DEFAULT_CHUNK_SIZE =
             length (blocks DEFAULT_CHUNK_SIZE xs)"
    unfolding m length_blocks [OF pos] ..
  show ?thesis
  proof (cases "xs = []")
    case False
    with nz n show ?thesis unfolding total_chunks_of_def by (simp only: n Let_def) simp
  qed (simp add: total_chunks_of_def)
qed

section \<open>What the programs print\<close>

lemma put64_small:
  assumes "x < 2 ^ 48"
  shows "put64 x = 0 # 0 # drop 2 (put64 x)"
proof (rule nth_equalityI)
  show "length (put64 x) = length (0 # 0 # drop 2 (put64 x))" by simp
  fix i assume "i < length (put64 x)"
  have z: "ucast (drop_bit 48 x) = (0 :: u8)" "ucast (drop_bit 56 x) = (0 :: u8)"
  proof -
    have "drop_bit 48 x = 0"
      using assms by (simp add: drop_bit_eq_div div_word_less)
    moreover have "drop_bit 56 x = drop_bit 8 (drop_bit 48 x)" by simp
    ultimately show "ucast (drop_bit 48 x) = (0 :: u8)" "ucast (drop_bit 56 x) = (0 :: u8)"
      by (simp_all del: drop_bit_drop_bit)
  qed
  have "put64 x = rev (store_le 8 x)"
    by (simp add: put64_def htobe64_portable_def be64toh_portable_def store_bswap)
  then have "put64 x ! 0 = 0" "put64 x ! 1 = 0"
    using z by (simp_all add: rev_nth nth_store_le)
  then show "put64 x ! i = (0 # 0 # drop 2 (put64 x)) ! i"
    by (cases i; cases "i - 1") (simp_all add: numeral_2_eq_2)
qed

lemma get16_zeros: "get16 (0 # 0 # rest) 0 = Inr 0"
  by (simp add: get16_def ntohs_def bswap_def store_le_def upt_rec)

lemma parse_login_fail:
  assumes "\<not> lresp_ok m" and "length (lresp_msg m) < 65536"
  shows "parse_login_resp (LoginResp_serialize m) = Inr (LoginLine False [] (lresp_msg m))"
  using assms
  by (simp add: parse_login_resp_def LoginResp_serialize_def parse_token_def put_str_def
      codec_simps Let_def)

lemma parse_login_ok:
  assumes "lresp_ok m" and "length (lresp_token m) < 65536"
    and "0 \<le> lresp_user_id m" and "lresp_user_id m < 2 ^ 48"
  shows "parse_login_resp (LoginResp_serialize m) = Inr (LoginLine True (take 16 (lresp_token m)) [])"
proof -
  have "word_of_int (lresp_user_id m) < (2 ^ 48 :: u64)"
    using assms(3,4) by (simp add: word_less_def uint_word_of_int)
  then have "put64 (word_of_int (lresp_user_id m)) = 0 # 0 # drop 2 (put64 (word_of_int (lresp_user_id m)))"
    by (rule put64_small)
  then obtain uid where uid: "put64 (word_of_int (lresp_user_id m)) = 0 # 0 # uid" by blast
  then have "length uid = 6" using length_put(3) [of "word_of_int (lresp_user_id m)"] by simp
  with assms(1,2) show ?thesis
    by (simp add: parse_login_resp_def LoginResp_serialize_def parse_token_def put_str_def uid
        codec_simps get16_zeros Let_def)
      (simp add: get_str_def bytes_string_def)
qed

lemma parse_register:
  "length (rresp_msg m) < 65536 \<Longrightarrow>
     parse_register_resp (RegisterResp_serialize m) = Inr (RegisterLine (rresp_ok m) (rresp_msg m))"
  by (simp add: parse_register_resp_def RegisterResp_serialize_def put_str_def codec_simps Let_def)

lemma do_login_result:
  assumes "incoming s = frame LOGIN_RESP (LoginResp_serialize m) @ rest"
    and "length (LoginResp_serialize m) < 2 ^ 32"
  shows "do_login u p s = (Inr (lresp_ok m),
           s\<lparr>incoming := rest, outgoing := outgoing s @ make_login_req u p\<rparr>)"
proof -
  let ?p = "LoginResp_serialize m" and ?s = "s\<lparr>outgoing := outgoing s @ make_login_req u p\<rparr>"
  have h: "read_header ?s = (Inr (make_header LOGIN_RESP (word_of_nat (length ?p))), ?s\<lparr>incoming := ?p @ rest\<rparr>)"
    using assms(1) by (intro read_header_frame) simp
  have b: "read_payload (word_of_nat (length ?p)) (?s\<lparr>incoming := ?p @ rest\<rparr>) =
             (Inr ?p, ?s\<lparr>incoming := rest\<rparr>)"
    using read_payload_frame [of "?s\<lparr>incoming := ?p @ rest\<rparr>" ?p rest] assms(2) by simp
  have l: "ntohl (len_be (make_header LOGIN_RESP (word_of_nat (length ?p)))) = word_of_nat (length ?p)"
    using make_header_simps(2) by (simp add: payload_len_def)
  have "get8 ?p 0 = Inr (if lresp_ok m then 1 else 0)" "?p \<noteq> []"
    by (simp_all add: LoginResp_serialize_def)
  then show ?thesis
    using h b by (simp add: do_login_def sock_write_def sbind_def l)
qed

section \<open>Properties\<close>

lemma block_count_bound:
  "length data \<le> 2 ^ 50 - 2 ^ 18 \<Longrightarrow> length (blocks DEFAULT_CHUNK_SIZE data) < 2 ^ 32"
  by (subst length_blocks) (simp_all add: DEFAULT_CHUNK_SIZE_def)

text \<open>
  C21: The sending loop of the client cuts the file without loss: the frames it sends carry,
  numbered from 0, the blocks of the file in order; their concatenation is the file; each has
  between 1 and 262144 bytes; and the number of chunks FILE_DONE announces is their number. The
  bound on the size is the point where the 32-bit chunk index would wrap.
\<close>

theorem client_chunks_correct:
  assumes "length data \<le> 2 ^ 50 - 2 ^ 18"
  shows "\<exists>bs. chunk_loop tid (length data) data 0 0 =
      (chunk_frames tid 0 bs, word_of_nat (length bs), length data) \<and> concat bs = data \<and>
    (\<forall>b \<in> set bs. b \<noteq> [] \<and> length b \<le> 262144) \<and> length bs < 2 ^ 32 \<and>
    total_chunks_of (length data) (word_of_nat (length bs)) = word_of_nat (length bs)"
proof (intro exI conjI)
  let ?bs = "blocks DEFAULT_CHUNK_SIZE data"
  have pos: "0 < DEFAULT_CHUNK_SIZE" by (simp add: DEFAULT_CHUNK_SIZE_def)
  show "chunk_loop tid (length data) data 0 0 =
      (chunk_frames tid 0 ?bs, word_of_nat (length ?bs), length data)"
    by (simp add: chunk_loop_blocks)
  show "concat ?bs = data" by (rule concat_blocks [OF pos])
  show "\<forall>b \<in> set ?bs. b \<noteq> [] \<and> length b \<le> 262144"
    using blocks_sizes [OF pos, of data] by (simp add: DEFAULT_CHUNK_SIZE_def)
  show "length ?bs < 2 ^ 32" using assms by (rule block_count_bound)
  with assms show "total_chunks_of (length data) (word_of_nat (length ?bs)) = word_of_nat (length ?bs)"
    by (intro total_chunks_blocks) simp_all
qed

theorem client_chunks_correct_witness:
  "\<exists>bs. chunk_loop 7 3 [1, 2, 3] 0 0 = (chunk_frames 7 0 bs, word_of_nat (length bs), 3) \<and>
     concat bs = [1, 2, 3]"
  using client_chunks_correct [of "[1, 2, 3]" 7] by (auto simp: numeral_3_eq_3)

lemma chunk_loop_take:
  "sent \<le> fsize \<Longrightarrow> chunk_loop tid fsize unread idx sent = chunk_loop tid fsize (take (fsize - sent) unread) idx sent"
proof (induction tid fsize unread idx sent rule: chunk_loop.induct)
  case (1 tid fsize unread idx sent)
  show ?case
  proof (cases "sent < fsize")
    case False
    then show ?thesis by (simp add: chunk_loop.simps)
  next
    case True
    define k where "k = (if fsize - sent < DEFAULT_CHUNK_SIZE then fsize - sent else DEFAULT_CHUNK_SIZE)"
    have k: "k \<le> fsize - sent" by (simp add: k_def)
    have same: "take k (take (fsize - sent) unread) = take k unread"
      "drop k (take (fsize - sent) unread) = take (fsize - (sent + k)) (drop k unread)"
      using k by (simp_all add: min_absorb1 drop_take)
    have IH: "chunk_loop tid fsize (drop k unread) (idx + 1) (sent + k) =
        chunk_loop tid fsize (take (fsize - (sent + k)) (drop k unread)) (idx + 1) (sent + k)"
      if "k \<le> length unread" "length (take k unread) \<noteq> 0"
      using "1.IH" [OF True refl k_def refl refl _ refl refl] that k True by (simp add: min_absorb2)
    have step: "chunk_loop tid fsize u idx sent =
        (if take k u = [] then ([], idx, sent)
         else if length u < k then ([make_file_chunk tid idx (take k u)], idx + 1, sent + length u)
         else case chunk_loop tid fsize (drop k u) (idx + 1) (sent + k) of
                (frames, i, n) \<Rightarrow> (make_file_chunk tid idx (take k u) # frames, i, n))" for u
      using True by (subst chunk_loop.simps) (auto simp: k_def [symmetric] Let_def min_def)
    have len: "length (take (fsize - sent) unread) < k \<longleftrightarrow> length unread < k"
      using k by auto
    show ?thesis
      unfolding step [of unread] step [of "take (fsize - sent) unread"] same len
      using IH k by (auto simp: not_less min_def)
  qed
qed

text \<open>
  C40: The sending loop ends, whatever the file holds by the time it is read: it sends the blocks of
  the first \<open>fsize\<close> bytes of it, or of all of it when it has become shorter (which is not reported
  as an error), so never more frames than an announced size of \<open>fsize\<close> needs.
\<close>

theorem chunk_loop_ends:
  "\<exists>bs. chunk_loop tid fsize data 0 0 = (chunk_frames tid 0 bs, word_of_nat (length bs), min fsize (length data)) \<and>
    concat bs = take fsize data \<and> length bs \<le> (fsize + DEFAULT_CHUNK_SIZE - 1) div DEFAULT_CHUNK_SIZE"
proof (intro exI conjI)
  have pos: "0 < DEFAULT_CHUNK_SIZE" by (simp add: DEFAULT_CHUNK_SIZE_def)
  let ?bs = "blocks DEFAULT_CHUNK_SIZE (take fsize data)"
  show "chunk_loop tid fsize data 0 0 = (chunk_frames tid 0 ?bs, word_of_nat (length ?bs), min fsize (length data))"
    using chunk_loop_take [of 0 fsize tid data 0] by (simp add: chunk_loop_available min.commute)
  show "concat ?bs = take fsize data" by (rule concat_blocks [OF pos])
  show "length ?bs \<le> (fsize + DEFAULT_CHUNK_SIZE - 1) div DEFAULT_CHUNK_SIZE"
    unfolding length_blocks [OF pos] by (intro div_le_mono diff_le_mono) simp
qed

text \<open>
  A file that turns out shorter than its size when it is read is not noticed: the loop sends
  what there is and stops, without an error; FILE_DONE is then sent with the size that was
  announced.
\<close>

theorem short_file_unnoticed:
  assumes "length data < fsize"
  shows "\<exists>bs k. chunk_loop tid fsize data 0 0 = (chunk_frames tid 0 bs, k, length data) \<and>
    concat bs = data"
proof (intro exI conjI)
  show "chunk_loop tid fsize data 0 0 = (chunk_frames tid 0 (blocks DEFAULT_CHUNK_SIZE data),
      word_of_nat (length (blocks DEFAULT_CHUNK_SIZE data)), length data)"
    using assms by (simp add: chunk_loop_available)
  show "concat (blocks DEFAULT_CHUNK_SIZE data) = data"
    by (rule concat_blocks) (simp add: DEFAULT_CHUNK_SIZE_def)
qed

theorem short_file_unnoticed_witness:
  "\<exists>bs k. chunk_loop 7 1000 [1, 2, 3] 0 0 = (chunk_frames 7 0 bs, k, 3) \<and> concat bs = [1, 2, 3]"
  using short_file_unnoticed [of "[1, 2, 3]" 1000 7] by (simp add: numeral_3_eq_3)

text \<open>
  The server reads the register and login requests of the clients as they were meant, when
  each field has fewer than 65536 characters.
\<close>

theorem client_requests_read:
  assumes "RegisterReq_fits r" and "LoginReq_fits l"
  shows "RegisterReq_deserialize (register_payload (rreq_username r) (rreq_email r) (rreq_password r)) = Inr r \<and>
         LoginReq_deserialize (login_payload (lreq_username l) (lreq_password l)) = Inr l"
  using register_req.des_ser [OF assms(1)] login_req.des_ser [OF assms(2)] by simp

theorem client_requests_read_witness:
  "LoginReq_deserialize (login_payload ''a'' ''b'') = Inr \<lparr>lreq_username = ''a'', lreq_password = ''b''\<rparr>"
  using client_requests_read [of "\<lparr>rreq_username = ''a'', rreq_email = ''e'', rreq_password = ''b''\<rparr>"
      "\<lparr>lreq_username = ''a'', lreq_password = ''b''\<rparr>"]
  by (simp add: RegisterReq_fits_def LoginReq_fits_def)

text \<open>
  The login of \<open>test_file_transfer\<close> ends with the answer of the server: it sends the login
  request, takes exactly the response from the stream, and returns its status.
\<close>

theorem client_login_status:
  assumes "incoming s = frame LOGIN_RESP (LoginResp_serialize m) @ rest"
    and "length (LoginResp_serialize m) < 2 ^ 32"
  shows "do_login u p s =
    (Inr (lresp_ok m), s\<lparr>incoming := rest, outgoing := outgoing s @ make_login_req u p\<rparr>)"
  using assms by (rule do_login_result)

theorem client_login_status_witness:
  "fst (do_login ''a'' ''b'' \<lparr>incoming = frame LOGIN_RESP (LoginResp_serialize
     \<lparr>lresp_ok = False, lresp_token = [], lresp_user_id = 0, lresp_username = [], lresp_msg = ''no''\<rparr>) @ [],
     outgoing = []\<rparr>) = Inr False"
  by (subst client_login_status [OF socket.select_convs(1)])
    (simp_all add: LoginResp_serialize_def put_str_def)

text \<open>
  What \<open>test_auth\<close> prints of a login response: of a failure, its message; of a success, the
  first 16 characters of the token and an empty message, because it reads the upper bytes of the
  user id as the length of the message (the format has the user id and name in between).
\<close>

theorem login_response_printed:
  assumes "length (lresp_msg m) < 65536" and "length (lresp_token m) < 65536"
    and "0 \<le> lresp_user_id m" and "lresp_user_id m < 2 ^ 48"
  shows "parse_login_resp (LoginResp_serialize m) = Inr
    (if lresp_ok m then LoginLine True (take 16 (lresp_token m)) [] else LoginLine False [] (lresp_msg m))"
  using parse_login_ok [of m] parse_login_fail [of m] assms by simp

theorem login_response_printed_witness:
  "parse_login_resp (LoginResp_serialize \<lparr>lresp_ok = True, lresp_token = ''abcd'', lresp_user_id = 5,
     lresp_username = ''bob'', lresp_msg = ''login successful''\<rparr>) = Inr (LoginLine True ''abcd'' [])"
  by (subst login_response_printed) simp_all

end
