(* ===== verification/FsxStream.thy ===== *)
theory FsxStream
  imports FsxOnline FsxClient
begin

text \<open>
  What a connection does with a stream of bytes: \<open>deliver\<close> runs the read completions that the
  bytes of one connection trigger, in order. A frame triggers exactly one \<open>handle_message\<close>, with
  its payload; from there, a file the client sends arrives as it was.
\<close>

section \<open>Delivering bytes\<close>

definition next_read :: "'w server \<Rightarrow> nat \<Rightarrow> bytes \<Rightarrow> (event \<times> bytes) option" where
  "next_read srv c bs =
     (case sessions srv c of
        None \<Rightarrow> None
      | Some s \<Rightarrow>
          (case pending_read s of
             NoRead \<Rightarrow> None
           | ReadHeader \<Rightarrow>
               if HEADER_SIZE \<le> length bs
               then Some (HeaderDone c False (take HEADER_SIZE bs), drop HEADER_SIZE bs) else None
           | ReadBody \<Rightarrow>
               let n = length (sess_body s)
               in if 0 < n \<and> n \<le> length bs then Some (BodyDone c False (take n bs), drop n bs) else None))"

lemma next_read_shorter: "next_read srv c bs = Some (ev, rest) \<Longrightarrow> length rest < length bs"
  by (auto simp: next_read_def Let_def HEADER_SIZE_def split: option.splits read_op.splits if_splits)
    (metis diff_less length_greater_0_conv order.strict_trans2)

lemma next_read_enabled: "next_read srv c bs = Some (ev, rest) \<Longrightarrow> enabled srv ev"
  by (auto simp: next_read_def Let_def split: option.splits read_op.splits if_splits)

function deliver ::
  "'w externals \<Rightarrow> os_answers \<Rightarrow> string \<Rightarrow> nat \<Rightarrow> bytes \<Rightarrow> 'w server \<Rightarrow> unit result \<times> 'w server" where
  "deliver X os base c bs srv =
     (case next_read srv c bs of
        None \<Rightarrow> (Inr (), srv)
      | Some (ev, rest) \<Rightarrow>
          (case run_event X os base ev srv of
             (Inl e, srv') \<Rightarrow> (Inl e, srv')
           | (Inr _, srv') \<Rightarrow> deliver X os base c rest srv'))"
  by pat_completeness auto
termination
  by (relation "measure (\<lambda>(X, os, base, c, bs, srv). length bs)") (auto dest: next_read_shorter)

declare deliver.simps [simp del]

lemma deliver_reachable:
  assumes "reachable X base w0 srv" and "deliver X os base c bs srv = (Inr (), srv')"
  shows "reachable X base w0 srv'"
  using assms
proof (induction X os base c bs srv rule: deliver.induct)
  case (1 X os base c bs srv)
  show ?case
  proof (cases "next_read srv c bs")
    case None
    with 1 show ?thesis by (simp add: deliver.simps)
  next
    case (Some er)
    obtain ev rest where er: "er = (ev, rest)" by force
    obtain r srv1 where run: "run_event X os base ev srv = (r, srv1)" by force
    with 1 Some er have r: "r = Inr ()" and d: "deliver X os base c rest srv1 = (Inr (), srv')"
      by (auto simp: deliver.simps [of X os base c bs] split: sum.splits)
    have "enabled srv ev" using next_read_enabled Some er by blast
    then have "server_step X base srv ev srv1"
      using run r by (auto intro: server_step.run)
    with "1.prems"(1) have "reachable X base w0 srv1" by (rule reachable.step)
    with 1 Some er run r d show ?thesis by auto
  qed
qed

section \<open>One frame, one message\<close>

text \<open>The state in which \<open>handle_message\<close> runs: the read loop has stored the frame.\<close>

definition stored_frame :: "MsgType \<Rightarrow> bytes \<Rightarrow> TcpSession \<Rightarrow> TcpSession" where
  "stored_frame t p s =
     s\<lparr>pending_read := NoRead, sess_header := make_header t (word_of_nat (length p)), sess_body := p\<rparr>"

definition message_body ::
  "'w externals \<Rightarrow> os_answers \<Rightarrow> string \<Rightarrow> nat \<Rightarrow> MsgType \<Rightarrow> bytes \<Rightarrow> ('w server, unit) action" where
  "message_body X os base c t p srv =
     (let srv1 = modify_session c (stored_frame t p) srv
      in case sessions srv1 c of
           None \<Rightarrow> (Inr (), srv1)
         | Some s \<Rightarrow> sbind (handle_message X os base c s t p) (\<lambda>_ srv. (Inr (), do_read_header c srv)) srv1)"

lemma release_reading: "release c (do_read_header c srv) = do_read_header c srv"
  by (simp add: release_def do_read_header_def split: option.split)

lemma release_pending:
  "sessions srv c = Some s \<Longrightarrow> pending_read s \<noteq> NoRead \<Longrightarrow> release c srv = srv"
  by (simp add: release_def)

lemma sbind_assoc: "sbind (sbind m f) g s = sbind m (\<lambda>x. sbind (f x) g) s"
  by (simp add: sbind_def split: prod.split sum.split)

lemma release_message:
  "sbind (sbind m (\<lambda>_ srv. (Inr (), do_read_header c srv))) (\<lambda>_ srv. (Inr (), release c srv)) srv =
     sbind m (\<lambda>_ srv. (Inr (), do_read_header c srv)) srv"
  by (simp add: sbind_assoc) (simp add: sbind_def release_reading split: prod.split sum.split)

lemma payload_length_ok:
  assumes "length p \<le> 16777216"
  shows "unat (word_of_nat (length p) :: u32) = length p"
    and "\<not> (word_of_nat (length p) :: u32) > 16 * 1024 * 1024"
proof -
  show u: "unat (word_of_nat (length p) :: u32) = length p"
    using assms by (simp add: unat_of_nat take_bit_eq_mod)
  show "\<not> (word_of_nat (length p) :: u32) > 16 * 1024 * 1024"
    using assms u by (simp add: word_less_nat_alt)
qed

lemma header_transferred:
  "header_of_bytes (transferred (header_bytes h) (header_bytes h')) = h"
  by (simp add: transferred_def)

lemma stored_frame_fold:
  "(\<lambda>s. s\<lparr>pending_read := NoRead, sess_header := make_header t (word_of_nat (length p)), sess_body := p\<rparr>)
     = stored_frame t p"
  by (simp add: stored_frame_def fun_eq_iff)

lemma on_header_ok:
  assumes "sessions srv c = Some s" and "length p \<le> 16777216"
  shows "on_header X os base c False (header_bytes (make_header t (word_of_nat (length p)))) srv =
           do_read_body X os base c (modify_session c (\<lambda>s. s\<lparr>pending_read := NoRead,
             sess_header := make_header t (word_of_nat (length p)),
             sess_body := replicate (length p) 0\<rparr>) srv)"
  using assms payload_length_ok [OF assms(2)]
  by (simp add: on_header_def header_transferred Let_def HEADER_SIZE_def modify_session_modify comp_def)

text \<open>The header of a frame without a payload triggers the message at once.\<close>

lemma run_header_empty:
  assumes "sessions srv c = Some s" and "msg_type_of (msg_code t) = t"
  shows "run_event X os base (HeaderDone c False (header_bytes (make_header t 0))) srv =
           message_body X os base c t [] srv"
proof -
  have h: "on_header X os base c False (header_bytes (make_header t 0)) srv =
             do_read_body X os base c (modify_session c (stored_frame t []) srv)"
    using on_header_ok [OF assms(1), of "[]" X os base t] stored_frame_fold [where t = t and p = "[]"]
    by simp
  have b: "do_read_body X os base c (modify_session c (stored_frame t []) srv) =
          sbind (handle_message X os base c (stored_frame t [] s) t []) (\<lambda>_ srv. (Inr (), do_read_header c srv))
            (modify_session c (stored_frame t []) srv)"
    using assms by (simp add: do_read_body_def) (simp add: stored_frame_def)
  show ?thesis
    using assms(1) release_message [of "handle_message X os base c (stored_frame t [] s) t []" c]
    by (simp add: message_body_def sbind_def [of "on_header X os base c False _"] h b)
      (simp add: sbind_def)
qed

text \<open>Otherwise it starts the read of the payload, whose completion triggers the message.\<close>

definition reading_body :: "MsgType \<Rightarrow> nat \<Rightarrow> TcpSession \<Rightarrow> TcpSession" where
  "reading_body t n s =
     s\<lparr>pending_read := ReadBody, sess_header := make_header t (word_of_nat n), sess_body := replicate n 0\<rparr>"

lemma run_header:
  assumes "sessions srv c = Some s" and "p \<noteq> []" and "length p \<le> 16777216"
  shows "run_event X os base (HeaderDone c False (header_bytes (make_header t (word_of_nat (length p))))) srv =
           (Inr (), modify_session c (reading_body t (length p)) srv)"
proof -
  have f: "(\<lambda>s. s\<lparr>pending_read := NoRead, sess_header := make_header t (word_of_nat (length p)),
              sess_body := replicate (length p) 0, pending_read := ReadBody\<rparr>) = reading_body t (length p)"
    by (simp add: reading_body_def fun_eq_iff)
  have "on_header X os base c False (header_bytes (make_header t (word_of_nat (length p)))) srv =
          (Inr (), modify_session c (reading_body t (length p)) srv)"
    using assms f
    by (simp add: on_header_ok [OF assms(1,3)] do_read_body_def modify_session_modify comp_def)
  moreover have "release c (modify_session c (reading_body t (length p)) srv) =
                   modify_session c (reading_body t (length p)) srv"
    using assms(1) by (intro release_pending) (auto simp: reading_body_def)
  ultimately show ?thesis by (simp add: sbind_def)
qed

lemma run_body:
  assumes "sessions srv c = Some s" and "p \<noteq> []" and "msg_type_of (msg_code t) = t"
  shows "run_event X os base (BodyDone c False p) (modify_session c (reading_body t (length p)) srv) =
           message_body X os base c t p srv"
proof -
  have f: "(\<lambda>s. s\<lparr>pending_read := NoRead, sess_body := transferred p (sess_body s)\<rparr>) \<circ>
             reading_body t (length p) = stored_frame t p"
    by (simp add: reading_body_def stored_frame_def transferred_def fun_eq_iff)
  have "on_body X os base c False p (modify_session c (reading_body t (length p)) srv) =
          sbind (handle_message X os base c (stored_frame t p s) t p) (\<lambda>_ srv. (Inr (), do_read_header c srv))
            (modify_session c (stored_frame t p) srv)"
    using assms by (simp add: on_body_def modify_session_modify f Let_def) (simp add: stored_frame_def)
  then show ?thesis
    using assms(1) release_message [of "handle_message X os base c (stored_frame t p s) t p" c]
    by (simp add: message_body_def sbind_def [of "on_body X os base c False _"]) (simp add: sbind_def)
qed

text \<open>Delivering a frame runs its message, and then the rest of the stream is delivered.\<close>

lemma deliver_frame:
  assumes "sessions srv c = Some s" and "pending_read s = ReadHeader" and "length p \<le> 16777216"
    and "msg_type_of (msg_code t) = t"
  shows "deliver X os base c (frame t p @ rest) srv =
           (case message_body X os base c t p srv of
              (Inl e, srv') \<Rightarrow> (Inl e, srv')
            | (Inr _, srv') \<Rightarrow> deliver X os base c rest srv')"
proof -
  let ?h = "header_bytes (make_header t (word_of_nat (length p)))"
  have n: "next_read srv c (frame t p @ rest) = Some (HeaderDone c False ?h, p @ rest)"
    using assms(1,2) by (simp add: next_read_def frame_def HEADER_SIZE_def)
  show ?thesis
  proof (cases "p = []")
    case True
    with n run_header_empty [OF assms(1,4), of X os base] show ?thesis
      by (subst deliver.simps) simp
  next
    case False
    let ?srv = "modify_session c (reading_body t (length p)) srv"
    have n': "next_read ?srv c (p @ rest) = Some (BodyDone c False p, rest)"
      using assms(1) False by (simp add: next_read_def reading_body_def)
    have "deliver X os base c (frame t p @ rest) srv = deliver X os base c (p @ rest) ?srv"
      using n run_header [OF assms(1) False assms(3)] by (subst deliver.simps) simp
    also have "\<dots> = (case message_body X os base c t p srv of
              (Inl e, srv') \<Rightarrow> (Inl e, srv') | (Inr _, srv') \<Rightarrow> deliver X os base c rest srv')"
      using n' run_body [OF assms(1) False assms(4)] by (subst deliver.simps) simp
    finally show ?thesis .
  qed
qed

section \<open>A stream of frames\<close>

text \<open>No message ends the session it came from.\<close>

lemma alive_send [simp]: "(sessions (send d t p srv) c = None) = (sessions srv c = None)"
  by (simp add: send_def)

interpretation alive: session_property "\<lambda>srv. sessions srv c \<noteq> None" for c
  by unfold_locales auto

lemma message_body_reads_on:
  assumes "sessions srv c = Some s" and "message_body X os base c t p srv = (Inr (), srv')"
  shows "\<exists>s'. sessions srv' c = Some s' \<and> pending_read s' = ReadHeader"
proof -
  let ?srv1 = "modify_session c (stored_frame t p) srv"
  obtain srv2 where h: "handle_message X os base c (stored_frame t p s) t p ?srv1 = (Inr (), srv2)"
    and srv': "srv' = do_read_header c srv2"
    using assms by (auto simp: message_body_def sbind_def split: prod.splits sum.splits)
  have "sessions srv2 c \<noteq> None"
    using wp_apply [OF alive.message_keeps h] assms(1) by simp
  then show ?thesis by (auto simp: srv' do_read_header_def)
qed

fun run_messages ::
  "'w externals \<Rightarrow> os_answers \<Rightarrow> string \<Rightarrow> nat \<Rightarrow> (MsgType \<times> bytes) list \<Rightarrow> ('w server, unit) action" where
  "run_messages X os base c [] srv = (Inr (), srv)"
| "run_messages X os base c ((t, p) # ms) srv =
     sbind (message_body X os base c t p) (\<lambda>_. run_messages X os base c ms) srv"

definition frames :: "(MsgType \<times> bytes) list \<Rightarrow> bytes" where
  "frames ms = concat (map (\<lambda>(t, p). frame t p) ms)"

section \<open>Properties\<close>

text \<open>
  C8: The read loop cuts a stream of bytes exactly at the frames that were written: each frame
  makes the server handle its message, with its payload, once and in order, until one of them
  fails; the connection stays open in between. (Payloads of at most 16 MiB, known types.)
\<close>

theorem frames_handled_in_order:
  assumes "sessions srv c = Some s" and "pending_read s = ReadHeader"
    and "\<forall>(t, p) \<in> set ms. length p \<le> 16777216 \<and> msg_type_of (msg_code t) = t"
  shows "deliver X os base c (frames ms) srv = run_messages X os base c ms srv"
  using assms
proof (induction ms arbitrary: srv s)
  case Nil
  then show ?case by (simp add: frames_def deliver.simps next_read_def HEADER_SIZE_def)
next
  case (Cons m ms)
  obtain t p where m: "m = (t, p)" by force
  with Cons.prems(3) have "length p \<le> 16777216" and "msg_type_of (msg_code t) = t" by auto
  from deliver_frame [OF Cons.prems(1,2) this, of X os base "frames ms"] m
  have d: "deliver X os base c (frames (m # ms)) srv = (case message_body X os base c t p srv of
      (Inl e, srv') \<Rightarrow> (Inl e, srv') | (Inr _, srv') \<Rightarrow> deliver X os base c (frames ms) srv')"
    by (simp add: frames_def)
  show ?case
  proof (cases "message_body X os base c t p srv")
    case (Pair r srv1)
    show ?thesis
    proof (cases r)
      case (Inr u)
      with Pair have "message_body X os base c t p srv = (Inr (), srv1)" by simp
      from message_body_reads_on [OF Cons.prems(1) this]
      obtain s' where "sessions srv1 c = Some s'" "pending_read s' = ReadHeader" by blast
      from Cons.IH [OF this] Cons.prems(3) Inr Pair d m show ?thesis by (simp add: sbind_def)
    qed (use d Pair m in \<open>simp add: sbind_def\<close>)
  qed
qed

theorem frames_handled_in_order_witness:
  "deliver ref_externals sample_os ''d'' 0 (frames [(PING, []), (PING, [1])])
     (on_accept False (server_init pg_world_init)) =
   run_messages ref_externals sample_os ''d'' 0 [(PING, []), (PING, [1])]
     (on_accept False (server_init pg_world_init))"
  using frames_handled_in_order [of "on_accept False (server_init pg_world_init)" 0
      "TcpSession_new\<lparr>pending_read := ReadHeader\<rparr>" "[(PING, []), (PING, [1])]" ref_externals sample_os "''d''"]
  by (simp add: on_accept_def server_init_def TcpSession_start_def do_read_header_def Let_def
      msg_type_of_codes del: msg_code.simps)

end
