(* ===== verification/FsxUpload.thy ===== *)
theory FsxUpload
  imports FsxStream
begin

text \<open>
  A whole transfer: the receiver accepts, the sender's client sends its file, and the server ends
  with the file stored under its final name, equal to the one that was sent.
\<close>

section \<open>A transfer that is receiving\<close>

text \<open>What the disk must do for a transfer to succeed.\<close>

definition disk_ok :: "os_answers \<Rightarrow> bool" where
  "disk_ok os \<longleftrightarrow> (\<forall>n. n \<le> fwrite_takes os n) \<and> (\<forall>n. n \<le> fflush_through os n) \<and> (\<forall>p q. rename_ok os p q) \<and>
     (\<forall>p. fopen_ok os p) \<and> (\<forall>p. \<not> create_directories_throws os p)"

text \<open>The connection \<open>c\<close> of user \<open>uid\<close>, with \<open>q\<close> still to be written to it.\<close>

definition connected :: "nat \<Rightarrow> int \<Rightarrow> bytes list \<Rightarrow> read_op \<Rightarrow> 'w server \<Rightarrow> bool" where
  "connected c uid q r srv \<longleftrightarrow>
     (\<exists>s. sessions srv c = Some s \<and> is_authenticated s \<and> sess_user_id s = uid \<and> outq s = q \<and>
          pending_read s = r)"

text \<open>
  Transfer \<open>tid\<close> of user \<open>uid\<close>: \<open>n\<close> chunks have arrived, and file \<open>f\<close>, which the temporary
  name leads to, holds exactly their bytes \<open>got\<close>; none of them are still in the buffer.
\<close>

definition receiving ::
  "os_answers \<Rightarrow> string \<Rightarrow> u64 \<Rightarrow> string \<Rightarrow> int \<Rightarrow> nat \<Rightarrow> nat \<Rightarrow> bytes \<Rightarrow> u32
    \<Rightarrow> TransferManager \<Rightarrow> stdio \<Rightarrow> bool" where
  "receiving os base tid name uid h f got n tm st \<longleftrightarrow>
     (\<exists>t. get_transfer tm tid = Some t \<and> sender_user_id t = uid \<and> live_state (tstate t) \<and>
          filename t = name \<and> final_file_path t = get_file_path base tid name \<and>
          file_handle t = Some h \<and> expected_chunk_index t = n \<and>
          bytes_received t = word_of_nat (length got)) \<and>
     streams st h = Some (f, length got) \<and> contents st f = got \<and> buffer st h = [] \<and>
     names st (resolve os (c_str (get_temp_path base tid name))) = Some f"

lemma fflush_at_end:
  assumes "streams st h = Some (f, length (contents st f))"
  shows "fflush os h st = (let b = buffer st h; k = fflush_through os (length b) in (Inr (drop k b = []),
    st\<lparr>contents := (contents st)(f := contents st f @ take k b),
       streams := (streams st)(h \<mapsto> (f, length (contents st f) + min k (length b))),
       buffer := (buffer st)(h := drop k b)\<rparr>))"
  using assms by (simp add: fflush_def write_out_def write_at_end Let_def min.commute)

lemma fflush_all:
  assumes "disk_ok os" and "streams st h = Some (f, length (contents st f))"
  shows "fflush os h st = (Inr True,
    st\<lparr>contents := (contents st)(f := contents st f @ buffer st h),
       streams := (streams st)(h \<mapsto> (f, length (contents st f) + length (buffer st h))),
       buffer := (buffer st)(h := [])\<rparr>)"
  using assms fflush_at_end [OF assms(2), of os] by (simp add: disk_ok_def Let_def min_absorb2)

lemma take_min [simp]: "take (min k (length xs)) xs = take k xs"
  by (simp add: min_def)

lemma fwrite_at_end:
  assumes "streams st h = Some (f, length (contents st f))"
  shows "fwrite os h d st = (let n = min (fwrite_takes os (length d)) (length d);
      b = buffer st h @ take n d; k = fwrite_through os (length b)
    in (Inr n, st\<lparr>contents := (contents st)(f := contents st f @ take k b),
                 streams := (streams st)(h \<mapsto> (f, length (contents st f) + min k (length b))),
                 buffer := (buffer st)(h := drop k b)\<rparr>))"
  using assms by (simp add: fwrite_def write_out_def write_at_end Let_def min.commute)

text \<open>
  A stream at the end of its file whose buffer is empty: whatever \<open>fwrite\<close> takes, the file and the
  buffer together hold it, and when all is flushed, the file alone does.
\<close>

lemma write_chunk_all:
  assumes "disk_ok os" and "streams st h = Some (f, length got)" and "contents st f = got" and "buffer st h = []"
    and "d \<noteq> []"
  shows "write_chunk os (Some h) d st = (Inr (int (length d)),
           st\<lparr>contents := (contents st)(f := got @ d), streams := (streams st)(h \<mapsto> (f, length got + length d))\<rparr>)"
proof -
  let ?k = "fwrite_through os (length d)"
  let ?st = "st\<lparr>contents := (contents st)(f := got @ take ?k d),
      streams := (streams st)(h \<mapsto> (f, length got + min ?k (length d))), buffer := (buffer st)(h := drop ?k d)\<rparr>"
  have n: "min (fwrite_takes os (length d)) (length d) = length d"
    using assms(1) by (simp add: disk_ok_def min_absorb2)
  have w: "fwrite os h d st = (Inr (length d), ?st)"
    using fwrite_at_end [of st h f os d] assms(2-4) n by (simp add: Let_def)
  have b: "(buffer st)(h := []) = buffer st" using assms(4) by auto
  have "fflush os h ?st = (Inr True,
      st\<lparr>contents := (contents st)(f := got @ d), streams := (streams st)(h \<mapsto> (f, length got + length d))\<rparr>)"
    by (subst fflush_all [OF assms(1), where f = f]) (simp_all add: b min.commute min_def)
  with w assms(5) show ?thesis by (simp add: write_chunk_def)
qed

lemma receiving_chunk:
  assumes "disk_ok os" and "receiving os base tid name uid h f got n tm st" and "d \<noteq> []"
  shows "receiving os base tid name uid h f (got @ d) (n + 1)
           (snd (mark_chunk_received tid n (length d) tm)) (snd (write_chunk os (Some h) d st))"
proof -
  obtain t where t: "get_transfer tm tid = Some t" "sender_user_id t = uid" "live_state (tstate t)"
    "filename t = name" "final_file_path t = get_file_path base tid name" "file_handle t = Some h"
    "expected_chunk_index t = n" "bytes_received t = word_of_nat (length got)"
    and st: "streams st h = Some (f, length got)" "contents st f = got" "buffer st h = []"
      "names st (resolve os (c_str (get_temp_path base tid name))) = Some f"
    using assms(2) by (auto simp: receiving_def)
  from t(1,3,7) have m: "get_transfer (snd (mark_chunk_received tid n (length d) tm)) tid =
      Some (t\<lparr>expected_chunk_index := n + 1, bytes_received := bytes_received t + word_of_nat (length d),
              tstate := RECEIVING\<rparr>)"
    by (auto simp: snd_mark_chunk live_state_def)
  show ?thesis
    unfolding receiving_def m write_chunk_all [OF assms(1) st(1-3) assms(3)]
    using t(2,4-6,8) st by (simp add: live_state_def)
qed

lemma wp_chunk_received:
  assumes "disk_ok os" and "receiving os base tid name uid h f got n (manager srv) (store srv)"
    and "is_authenticated s" and "sess_user_id s = uid" and "d \<noteq> []"
  shows "handle_file_chunk os s (file_chunk_payload tid n d) srv =
           (Inr (), srv\<lparr>store := snd (write_chunk os (Some h) d (store srv)),
                        manager := snd (mark_chunk_received tid n (length d) (manager srv))\<rparr>)"
proof -
  let ?m = "\<lparr>chunk_transfer_id = tid, chunk_index = n, chunk_data = d\<rparr>"
  have des: "FileChunk_deserialize (file_chunk_payload tid n d) = Inr ?m"
    using FileChunk_roundtrip [of ?m] by (simp add: client_file_payloads)
  obtain t where t: "get_transfer (manager srv) tid = Some t" "sender_user_id t = uid"
    "live_state (tstate t)" "file_handle t = Some h"
    using assms(2) by (auto simp: receiving_def)
  have w: "fst (write_chunk os (Some h) d (store srv)) = Inr (int (length d))"
    using assms write_chunk_all [OF assms(1), of "store srv" h f got d]
    by (simp add: receiving_def)
  show ?thesis
    using assms(3,4) t des w
    by (intro wp_run) (auto simp: handle_file_chunk_def wp_simps live_state_def)
qed

text \<open>A chunk that arrives in order extends the file and is counted.\<close>

lemma message_chunk:
  assumes "disk_ok os" and "receiving os base tid name uid h f got n (manager srv) (store srv)"
    and "connected c uid q ReadHeader srv" and "d \<noteq> []"
  obtains srv' where "message_body X os base c FILE_CHUNK (file_chunk_payload tid n d) srv = (Inr (), srv')"
    and "receiving os base tid name uid h f (got @ d) (n + 1) (manager srv') (store srv')"
    and "connected c uid q ReadHeader srv'"
proof -
  obtain s where s: "sessions srv c = Some s" "is_authenticated s" "sess_user_id s = uid" "outq s = q"
    using assms(3) by (auto simp: connected_def)
  let ?p = "file_chunk_payload tid n d"
  let ?srv1 = "modify_session c (stored_frame FILE_CHUNK ?p) srv"
  let ?srv' = "do_read_header c (?srv1\<lparr>store := snd (write_chunk os (Some h) d (store srv)),
                        manager := snd (mark_chunk_received tid n (length d) (manager srv))\<rparr>)"
  have "handle_file_chunk os (stored_frame FILE_CHUNK ?p s) ?p ?srv1 =
          (Inr (), ?srv1\<lparr>store := snd (write_chunk os (Some h) d (store srv)),
                        manager := snd (mark_chunk_received tid n (length d) (manager srv))\<rparr>)"
    using wp_chunk_received [OF assms(1), of base tid name uid h f got n ?srv1 "stored_frame FILE_CHUNK ?p s" d]
      assms(2,4) s by (simp add: stored_frame_def is_authenticated_def)
  then have "message_body X os base c FILE_CHUNK ?p srv = (Inr (), ?srv')"
    using s(1) by (simp add: message_body_def handle_message_def sbind_def)
  moreover have "receiving os base tid name uid h f (got @ d) (n + 1) (manager ?srv') (store ?srv')"
    using receiving_chunk [OF assms(1,2,4)] by (simp add: do_read_header_def)
  moreover have "connected c uid q ReadHeader ?srv'"
    using s by (simp add: connected_def do_read_header_def stored_frame_def is_authenticated_def)
  ultimately show thesis by (rule that)
qed

section \<open>All chunks\<close>

lemma deliver_chunks:
  assumes "disk_ok os" and "receiving os base tid name uid h f got n (manager srv) (store srv)"
    and "connected c uid q ReadHeader srv"
    and "\<forall>b \<in> set bs. b \<noteq> [] \<and> length b \<le> 16777204"
  obtains srv' where
      "deliver X os base c (concat (chunk_frames tid n bs) @ rest) srv = deliver X os base c rest srv'"
    and "receiving os base tid name uid h f (got @ concat bs) (n + word_of_nat (length bs))
           (manager srv') (store srv')"
    and "connected c uid q ReadHeader srv'"
  using assms
proof (induction bs arbitrary: got n srv thesis)
  case Nil
  then show ?case by simp
next
  case (Cons b bs)
  obtain srv1 where m: "message_body X os base c FILE_CHUNK (file_chunk_payload tid n b) srv = (Inr (), srv1)"
    and r1: "receiving os base tid name uid h f (got @ b) (n + 1) (manager srv1) (store srv1)"
    and c1: "connected c uid q ReadHeader srv1"
    using message_chunk [OF Cons.prems(2,3,4), of b X] Cons.prems(5) by auto
  obtain srv' where d: "deliver X os base c (concat (chunk_frames tid (n + 1) bs) @ rest) srv1 =
      deliver X os base c rest srv'"
    and r': "receiving os base tid name uid h f ((got @ b) @ concat bs) (n + 1 + word_of_nat (length bs))
           (manager srv') (store srv')"
    and c': "connected c uid q ReadHeader srv'"
    using Cons.IH [OF _ Cons.prems(2) r1 c1] Cons.prems(5) by auto
  obtain s where s: "sessions srv c = Some s" "pending_read s = ReadHeader"
    using Cons.prems(4) by (auto simp: connected_def)
  have "length (file_chunk_payload tid n b) \<le> 16777216"
    using Cons.prems(5) by (simp add: file_chunk_payload_def)
  from deliver_frame [OF s this, of FILE_CHUNK X os base "concat (chunk_frames tid (n + 1) bs) @ rest"] m
  have "deliver X os base c (concat (chunk_frames tid n (b # bs)) @ rest) srv =
          deliver X os base c (concat (chunk_frames tid (n + 1) bs) @ rest) srv1"
    using make_frame_eq [of FILE_CHUNK] by (simp add: make_file_chunk_def)
  with d r' c' show ?case by (intro Cons.prems(1)) (simp_all add: add.assoc)
qed

section \<open>FILE_DONE\<close>

text \<open>The transfer is completed, and its final name leads to a file with exactly these bytes.\<close>

definition stored_as ::
  "os_answers \<Rightarrow> string \<Rightarrow> u64 \<Rightarrow> string \<Rightarrow> bytes \<Rightarrow> u32 \<Rightarrow> TransferManager \<Rightarrow> stdio \<Rightarrow> bool" where
  "stored_as os base tid name got n tm st \<longleftrightarrow>
     (\<exists>t f. get_transfer tm tid = Some t \<and> tstate t = COMPLETED \<and> expected_chunk_index t = n \<and>
        bytes_received t = word_of_nat (length got) \<and>
        names st (resolve os (c_str (get_file_path base tid name))) = Some f \<and> contents st f = got)"

text \<open>The handle of a transfer that is done: still recorded, its stream closed.\<close>

definition closed_transfer :: "u64 \<Rightarrow> string \<Rightarrow> int \<Rightarrow> nat \<Rightarrow> TransferManager \<Rightarrow> stdio \<Rightarrow> bool" where
  "closed_transfer tid name uid h tm st \<longleftrightarrow>
     (\<exists>t. get_transfer tm tid = Some t \<and> sender_user_id t = uid \<and> filename t = name \<and>
        file_handle t = Some h) \<and> \<not> is_open st h"

definition result_frame :: "string \<Rightarrow> u64 \<Rightarrow> string \<Rightarrow> bytes" where
  "result_frame base tid name = frame FILE_RESULT (FileResult_serialize
     \<lparr>result_transfer_id = tid, result_ok = True, result_path_or_reason = get_file_path base tid name\<rparr>)"

text \<open>
  FILE_DONE closes the file of a transfer and gives it its final name, in whatever state the
  transfer is: the handler looks at the sender only. Of what is still in the buffer, so much reaches
  the file as \<open>fclose\<close> can write; that the rest is lost makes no difference to the handler.
\<close>

lemma message_done_any:
  assumes "\<And>p q. rename_ok os p q" and "connected c uid q ReadHeader srv"
    and t: "get_transfer (manager srv) tid = Some t" "sender_user_id t = uid" "filename t = name"
      "final_file_path t = get_file_path base tid name" "file_handle t = Some h"
    and st: "streams (store srv) h = Some (f, length (contents (store srv) f))"
      "names (store srv) (resolve os (c_str (get_temp_path base tid name))) = Some f"
  obtains srv' where "message_body X os base c FILE_DONE (file_done_payload tid k z) srv = (Inr (), srv')"
    and "get_transfer (manager srv') tid = Some (t\<lparr>tstate := COMPLETED\<rparr>)"
    and "names (store srv') (resolve os (c_str (get_file_path base tid name))) = Some f"
    and "contents (store srv') f = contents (store srv) f @
      take (fflush_through os (length (buffer (store srv) h))) (buffer (store srv) h)" and "\<not> is_open (store srv') h"
    and "connected c uid (q @ [result_frame base tid name]) ReadHeader srv'"
proof -
  obtain s where s: "sessions srv c = Some s" "is_authenticated s" "sess_user_id s = uid" "outq s = q"
    using assms(2) by (auto simp: connected_def)
  let ?p = "file_done_payload tid k z"
  let ?m = "\<lparr>done_transfer_id = tid, done_total_chunks = k, done_file_size = z\<rparr>"
  have des: "FileDone_deserialize ?p = Inr ?m"
    using FileDone_roundtrip [of ?m] by (simp add: client_file_payloads)
  let ?fin = "finalize_file os base tid name (Some h) (store srv)"
  have ok: "fst ?fin = Inr True"
    and st': "names (snd ?fin) (resolve os (c_str (get_file_path base tid name))) = Some f"
      "contents (snd ?fin) f = contents (store srv) f @
         take (fflush_through os (length (buffer (store srv) h))) (buffer (store srv) h)"
    using st assms(1) fflush_at_end [OF st(1), of os]
    by (simp_all add: finalize_file_def fclose_def rename_file_def Let_def)
  let ?srv1 = "modify_session c (stored_frame FILE_DONE ?p) srv"
  let ?srv2 = "send c FILE_RESULT (FileResult_serialize \<lparr>result_transfer_id = tid, result_ok = True,
                 result_path_or_reason = get_file_path base tid name\<rparr>)
      (?srv1\<lparr>store := snd ?fin,
             manager := modify_transfer tid (\<lambda>s. s\<lparr>tstate := COMPLETED\<rparr>) (manager srv)\<rparr>)"
  have "handle_file_done os base c (stored_frame FILE_DONE ?p s) ?p ?srv1 = (Inr (), ?srv2)"
    using s t des ok
    by (intro wp_run)
      (simp add: handle_file_done_def wp_simps stored_frame_def is_authenticated_def)
  then have "message_body X os base c FILE_DONE ?p srv = (Inr (), do_read_header c ?srv2)"
    using s(1) by (simp add: message_body_def handle_message_def sbind_def)
  moreover have "connected c uid (q @ [result_frame base tid name]) ReadHeader (do_read_header c ?srv2)"
    using s by (simp add: connected_def do_read_header_def stored_frame_def is_authenticated_def result_frame_def)
  ultimately show thesis
    using t(1) st' by (intro that [of "do_read_header c ?srv2"]) (simp_all add: do_read_header_def finalize_file_is_open)
qed

lemma message_done:
  assumes "disk_ok os" and rec: "receiving os base tid name uid h f got n (manager srv) (store srv)"
    and "connected c uid q ReadHeader srv"
  obtains srv' where "message_body X os base c FILE_DONE (file_done_payload tid k z) srv = (Inr (), srv')"
    and "stored_as os base tid name got n (manager srv') (store srv')"
    and "closed_transfer tid name uid h (manager srv') (store srv')"
    and "connected c uid (q @ [result_frame base tid name]) ReadHeader srv'"
proof -
  obtain t where t: "get_transfer (manager srv) tid = Some t" "sender_user_id t = uid"
    "filename t = name" "final_file_path t = get_file_path base tid name" "file_handle t = Some h"
    "expected_chunk_index t = n" "bytes_received t = word_of_nat (length got)"
    and st: "streams (store srv) h = Some (f, length got)"
      "names (store srv) (resolve os (c_str (get_temp_path base tid name))) = Some f" "contents (store srv) f = got"
      "buffer (store srv) h = []"
    using rec by (auto simp: receiving_def)
  have ren: "\<And>p q. rename_ok os p q" using assms(1) by (simp add: disk_ok_def)
  from st(1,3) have tail: "streams (store srv) h = Some (f, length (contents (store srv) f))" by simp
  show thesis
    by (rule message_done_any [OF ren assms(3) t(1-5) tail st(2)])
      (use t(2-7) st(3,4) in \<open>auto simp: stored_as_def closed_transfer_def intro!: that\<close>)
qed

section \<open>Accepting\<close>

definition offered ::
  "string \<Rightarrow> u64 \<Rightarrow> string \<Rightarrow> int \<Rightarrow> int \<Rightarrow> string \<Rightarrow> TransferManager \<Rightarrow> bool" where
  "offered base tid name uid rid token tm \<longleftrightarrow>
     (\<exists>t. get_transfer tm tid = Some t \<and> sender_user_id t = uid \<and> receiver_user_id t = rid \<and>
          sender_token t = token \<and> filename t = name \<and> tstate t = OFFERED \<and>
          final_file_path t = get_file_path base tid name \<and>
          expected_chunk_index t = 0 \<and> bytes_received t = 0)"

abbreviation accept_frame :: bytes where
  "accept_frame \<equiv> frame FILE_ACCEPT_RESP (FileAcceptResp_serialize accept_ok)"

lemma fopen_wb_empty:
  assumes "fopen_wb os path st = (Some h, st')"
  obtains f where "streams st' h = Some (f, 0)" and "contents st' f = []" and "buffer st' h = []"
    and "names st' (resolve os path) = Some f"
  using assms by (auto simp: fopen_wb_def Let_def split: if_splits option.splits)

lemma open_receiving:
  assumes "disk_ok os"
  obtains h f st' where "open_for_write os base tid name st = (Some h, st')"
    and "streams st' h = Some (f, 0)" and "contents st' f = []" and "buffer st' h = []"
    and "names st' (resolve os (c_str (get_temp_path base tid name))) = Some f"
proof -
  have "\<exists>h st'. open_for_write os base tid name st = (Some h, st')"
    using assms by (simp add: open_for_write_def ensure_directory_def fopen_wb_def disk_ok_def Let_def
        split: prod.split)
  then obtain h st' where o: "open_for_write os base tid name st = (Some h, st')" by blast
  then have "fopen_wb os (c_str (get_temp_path base tid name)) st = (Some h, st')"
    using assms by (simp add: open_for_write_def ensure_directory_def disk_ok_def Let_def)
  with o fopen_wb_empty that show thesis by metis
qed

lemma message_accept:
  assumes "disk_ok os" and "offered base tid name uid rid token (manager srv)"
    and "connected c uid' q ReadHeader srv" and "connected d rid q' ReadHeader srv" and "c \<noteq> d"
    and "token \<noteq> []" and "get_session (sessions srv) (registry srv) token = Some c"
  obtains srv' h f where
      "message_body X os base d FILE_ACCEPT_REQ (file_accept_payload tid True) srv = (Inr (), srv')"
    and "receiving os base tid name uid h f [] 0 (manager srv') (store srv')"
    and "connected c uid' (q @ [accept_frame]) ReadHeader srv'"
    and "connected d rid (q' @ [accept_frame]) ReadHeader srv'"
    and "next_transfer_id (manager srv') = next_transfer_id (manager srv)"
proof -
  obtain s where s: "sessions srv c = Some s" "is_authenticated s" "sess_user_id s = uid'" "outq s = q"
    "pending_read s = ReadHeader"
    using assms(3) by (auto simp: connected_def)
  obtain s' where s': "sessions srv d = Some s'" "is_authenticated s'" "sess_user_id s' = rid"
    "outq s' = q'"
    using assms(4) by (auto simp: connected_def)
  obtain t where t: "get_transfer (manager srv) tid = Some t" "sender_user_id t = uid"
    "receiver_user_id t = rid" "sender_token t = token" "filename t = name"
    "final_file_path t = get_file_path base tid name"
    "expected_chunk_index t = 0" "bytes_received t = 0"
    using assms(2) by (auto simp: offered_def)
  obtain h f st' where o: "open_for_write os base tid name (store srv) = (Some h, st')"
    and st': "streams st' h = Some (f, 0)" "contents st' f = []" "buffer st' h = []"
      "names st' (resolve os (c_str (get_temp_path base tid name))) = Some f"
    by (rule open_receiving [OF assms(1)])
  let ?p = "file_accept_payload tid True"
  have des: "FileAcceptReq_deserialize ?p = Inr \<lparr>areq_transfer_id = tid, areq_accept = True\<rparr>"
    using FileAcceptReq_roundtrip by (simp add: client_file_payloads)
  let ?srv1 = "modify_session d (stored_frame FILE_ACCEPT_REQ ?p) srv"
  have g: "get_session (sessions ?srv1) (registry srv) token = Some c"
    using assms(5,7) by (auto simp: get_session_Some)
  let ?tm = "modify_transfer tid ((\<lambda>s. s\<lparr>tstate := ACCEPTED\<rparr>) \<circ> (\<lambda>t. t\<lparr>file_handle := Some h\<rparr>)) (manager srv)"
  let ?srv2 = "send d FILE_ACCEPT_RESP (FileAcceptResp_serialize accept_ok)
      (send c FILE_ACCEPT_RESP (FileAcceptResp_serialize accept_ok) (?srv1\<lparr>store := st', manager := ?tm\<rparr>))"
  have "handle_file_accept_req os base d (stored_frame FILE_ACCEPT_REQ ?p s') ?p ?srv1 = (Inr (), ?srv2)"
    using s' t des o g assms(6)
    by (intro wp_run)
      (simp add: handle_file_accept_req_def wp_simps stored_frame_def is_authenticated_def)
  then have "message_body X os base d FILE_ACCEPT_REQ ?p srv = (Inr (), do_read_header d ?srv2)"
    using s'(1) by (simp add: message_body_def handle_message_def sbind_def)
  moreover have "receiving os base tid name uid h f [] 0 (manager (do_read_header d ?srv2)) (store (do_read_header d ?srv2))"
    using t st' by (simp add: receiving_def do_read_header_def live_state_def)
  moreover have "connected c uid' (q @ [accept_frame]) ReadHeader (do_read_header d ?srv2)"
    using s assms(5) by (simp add: connected_def do_read_header_def is_authenticated_def)
  moreover have "connected d rid (q' @ [accept_frame]) ReadHeader (do_read_header d ?srv2)"
    using s' assms(5) by (simp add: connected_def do_read_header_def stored_frame_def is_authenticated_def)
  moreover have "next_transfer_id (manager (do_read_header d ?srv2)) = next_transfer_id (manager srv)"
    by (simp add: do_read_header_def)
  ultimately show thesis by (rule that)
qed

section \<open>The whole transfer\<close>

text \<open>What the client writes after the receiver accepted.\<close>

definition upload_stream :: "u64 \<Rightarrow> bytes \<Rightarrow> bytes" where
  "upload_stream tid file =
     (let (frames, k, n) = chunk_loop tid (length file) file 0 0
      in concat frames @ make_file_done tid (total_chunks_of (length file) k) (word_of_nat (length file)))"

lemma upload_stream_blocks:
  "upload_stream tid file =
     concat (chunk_frames tid 0 (blocks DEFAULT_CHUNK_SIZE file)) @
     make_file_done tid (total_chunks_of (length file) (word_of_nat (length (blocks DEFAULT_CHUNK_SIZE file))))
       (word_of_nat (length file))"
  by (simp add: upload_stream_def chunk_loop_blocks)

lemma deliver_done:
  assumes "disk_ok os" and "receiving os base tid name uid h f got n (manager srv) (store srv)"
    and "connected c uid q ReadHeader srv"
  obtains srv' where "deliver X os base c (make_file_done tid k z) srv = (Inr (), srv')"
    and "stored_as os base tid name got n (manager srv') (store srv')"
    and "closed_transfer tid name uid h (manager srv') (store srv')"
    and "connected c uid (q @ [result_frame base tid name]) ReadHeader srv'"
proof -
  obtain srv' where m: "message_body X os base c FILE_DONE (file_done_payload tid k z) srv = (Inr (), srv')"
    and s': "stored_as os base tid name got n (manager srv') (store srv')"
    and cl: "closed_transfer tid name uid h (manager srv') (store srv')"
    and c': "connected c uid (q @ [result_frame base tid name]) ReadHeader srv'"
    using message_done [OF assms] by metis
  obtain s where s: "sessions srv c = Some s" "pending_read s = ReadHeader"
    using assms(3) by (auto simp: connected_def)
  have len: "length (file_done_payload tid k z) \<le> 16777216" by (simp add: file_done_payload_def)
  have "make_file_done tid k z = frame FILE_DONE (file_done_payload tid k z)"
    using make_frame_eq [of FILE_DONE] by (simp add: make_file_done_def)
  then have "deliver X os base c (make_file_done tid k z) srv = deliver X os base c [] srv'"
    using deliver_frame [OF s len, of FILE_DONE X os base "[]"] m by simp
  also have "\<dots> = (Inr (), srv')"
    using c' by (subst deliver.simps) (auto simp: next_read_def connected_def HEADER_SIZE_def)
  finally show thesis using s' cl c' by (rule that)
qed

lemma upload_stored:
  assumes "disk_ok os" and "receiving os base tid name uid h f [] 0 (manager srv) (store srv)"
    and "connected c uid q ReadHeader srv"
  obtains srv' where "deliver X os base c (upload_stream tid file) srv = (Inr (), srv')"
    and "stored_as os base tid name file (word_of_nat (length (blocks DEFAULT_CHUNK_SIZE file)))
           (manager srv') (store srv')"
    and "connected c uid (q @ [result_frame base tid name]) ReadHeader srv'"
proof -
  let ?bs = "blocks DEFAULT_CHUNK_SIZE file"
  let ?k = "word_of_nat (length ?bs)"
  let ?rest = "make_file_done tid (total_chunks_of (length file) ?k) (word_of_nat (length file))"
  have pos: "0 < DEFAULT_CHUNK_SIZE" by (simp add: DEFAULT_CHUNK_SIZE_def)
  have "\<forall>b \<in> set ?bs. b \<noteq> [] \<and> length b \<le> 16777204"
    using blocks_sizes [where n = DEFAULT_CHUNK_SIZE and xs = "file", OF pos] by (auto simp: DEFAULT_CHUNK_SIZE_def)
  then obtain srv1 where d1: "deliver X os base c (upload_stream tid file) srv = deliver X os base c ?rest srv1"
      and r1: "receiving os base tid name uid h f file ?k (manager srv1) (store srv1)"
      and c1: "connected c uid q ReadHeader srv1"
    by (rule deliver_chunks [OF assms, of ?bs X ?rest])
      (simp add: upload_stream_blocks concat_blocks [OF pos])
  show thesis
    using deliver_done [OF assms(1) r1 c1] d1 that by metis
qed

lemma deliver_accept:
  assumes "disk_ok os" and "offered base tid name uid rid token (manager srv)"
    and "connected c uid' q ReadHeader srv" and "connected d rid q' ReadHeader srv" and "c \<noteq> d"
    and "token \<noteq> []" and "get_session (sessions srv) (registry srv) token = Some c"
  obtains srv' h f where
      "deliver X os base d (make_file_accept_req tid True) srv = (Inr (), srv')"
    and "receiving os base tid name uid h f [] 0 (manager srv') (store srv')"
    and "connected c uid' (q @ [accept_frame]) ReadHeader srv'"
    and "connected d rid (q' @ [accept_frame]) ReadHeader srv'"
    and "next_transfer_id (manager srv') = next_transfer_id (manager srv)"
proof -
  obtain srv' h f where
      m: "message_body X os base d FILE_ACCEPT_REQ (file_accept_payload tid True) srv = (Inr (), srv')"
    and r: "receiving os base tid name uid h f [] 0 (manager srv') (store srv')"
    and c: "connected c uid' (q @ [accept_frame]) ReadHeader srv'"
    and d: "connected d rid (q' @ [accept_frame]) ReadHeader srv'"
    and n: "next_transfer_id (manager srv') = next_transfer_id (manager srv)"
    by (rule message_accept [OF assms])
  obtain s where s: "sessions srv d = Some s" "pending_read s = ReadHeader"
    using assms(4) by (auto simp: connected_def)
  have len: "length (file_accept_payload tid True) \<le> 16777216" by (simp add: file_accept_payload_def)
  have "make_file_accept_req tid True = frame FILE_ACCEPT_REQ (file_accept_payload tid True)"
    using make_frame_eq [of FILE_ACCEPT_REQ] by (simp add: make_file_accept_req_def)
  then have "deliver X os base d (make_file_accept_req tid True) srv = deliver X os base d [] srv'"
    using deliver_frame [OF s len, of FILE_ACCEPT_REQ X os base "[]"] m by simp
  also have "\<dots> = (Inr (), srv')"
    using d by (subst deliver.simps) (auto simp: next_read_def connected_def HEADER_SIZE_def)
  finally show thesis using r c d n by (rule that)
qed

section \<open>The client's side\<close>

lemma expect_frame_ok:
  assumes "incoming s = frame t p @ rest" and "length p < 2 ^ 32"
  shows "expect_frame (msg_code t) name s = (Inr p, s\<lparr>incoming := rest\<rparr>)"
proof -
  have l: "ntohl (len_be (make_header t (word_of_nat (length p)))) = word_of_nat (length p)"
    using make_header_simps(2) by (simp add: payload_len_def)
  have "read_payload (word_of_nat (length p)) (s\<lparr>incoming := p @ rest\<rparr>) = (Inr p, s\<lparr>incoming := rest\<rparr>)"
    using read_payload_frame [of "s\<lparr>incoming := p @ rest\<rparr>" p rest] assms(2) by simp
  then show ?thesis
    using read_header_frame [OF assms(1)] by (simp add: expect_frame_def sbind_def l)
qed

text \<open>
  Given the answers of a server that grants everything, the sender's client writes the offer, then
  the chunks and FILE_DONE of the file, and returns the path the server stored it under, having
  read exactly the three answers.
\<close>

lemma do_send_granted:
  assumes "cf_exists file" and "cf_opens file" and "cf_size file = length (cf_contents file)"
    and "length (get_file_path base tid name) < 65536"
    and "incoming s = frame FILE_OFFER_RESP (FileOfferResp_serialize
           \<lparr>oresp_ok = True, oresp_transfer_id = tid, oresp_reason = []\<rparr>) @
         accept_frame @ result_frame base tid name @ rest"
  shows "do_send receiver path file s = (Inr (get_file_path base tid name),
    s\<lparr>incoming := rest,
      outgoing := outgoing s @
        make_file_offer_req receiver (cf_name file) (word_of_nat (length (cf_contents file)))
          (word_of_nat DEFAULT_CHUNK_SIZE) @
        upload_stream tid (cf_contents file)\<rparr>)"
proof -
  let ?r1 = "FileOfferResp_serialize \<lparr>oresp_ok = True, oresp_transfer_id = tid, oresp_reason = []\<rparr>"
  let ?r2 = "FileAcceptResp_serialize accept_ok"
  let ?r3 = "FileResult_serialize \<lparr>result_transfer_id = tid, result_ok = True,
               result_path_or_reason = get_file_path base tid name\<rparr>"
  have len: "length ?r1 < 2 ^ 32" "length ?r2 < 2 ^ 32" "length ?r3 < 2 ^ 32"
    using assms(4)
    by (simp_all add: FileOfferResp_serialize_def FileAcceptResp_serialize_def accept_ok_def
        FileResult_serialize_def)
  have e1: "expect_frame 31 n s' = (Inr ?r1, s'\<lparr>incoming := r\<rparr>)"
    if "incoming s' = frame FILE_OFFER_RESP ?r1 @ r" for s' n r
    using expect_frame_ok [OF that len(1)] by simp
  have e2: "expect_frame 33 n s' = (Inr ?r2, s'\<lparr>incoming := r\<rparr>)"
    if "incoming s' = frame FILE_ACCEPT_RESP ?r2 @ r" for s' n r
    using expect_frame_ok [OF that len(2)] by simp
  have e3: "expect_frame 36 n s' = (Inr ?r3, s'\<lparr>incoming := r\<rparr>)"
    if "incoming s' = frame FILE_RESULT ?r3 @ r" for s' n r
    using expect_frame_ok [OF that len(3)] by simp
  have v1: "\<not> length ?r1 < 9" "get8 ?r1 0 = Inr 0" "get64 ?r1 1 = Inr tid"
    by (simp_all add: FileOfferResp_serialize_def codec_simps)
  have v2: "\<not> length ?r2 < 1" "get8 ?r2 0 = Inr 0"
    by (simp_all add: FileAcceptResp_serialize_def accept_ok_def codec_simps)
  have v3: "\<not> length ?r3 < 9" "get8 ?r3 8 = Inr 0" "optional_text ?r3 9 = Inr (get_file_path base tid name)"
    using assms(4) by (simp_all add: FileResult_serialize_def optional_text_def codec_simps put_str_def)
  obtain frames k n where loop:
      "chunk_loop tid (length (cf_contents file)) (cf_contents file) 0 0 = (frames, k, n)"
    by (cases "chunk_loop tid (length (cf_contents file)) (cf_contents file) 0 0")
  have up: "upload_stream tid (cf_contents file) = concat frames @
      make_file_done tid (total_chunks_of (length (cf_contents file)) k) (word_of_nat (length (cf_contents file)))"
    by (simp add: upload_stream_def loop)
  have inc: "incoming s = frame FILE_OFFER_RESP ?r1 @ accept_frame @ frame FILE_RESULT ?r3 @ rest"
    using assms(5) by (simp add: result_frame_def)
  show ?thesis
    using assms(1-3) v1 v2 v3 inc
    by (simp add: do_send_def sock_write_def sbind_def e1 e2 e3 loop up)
qed

end
