(* ===== verification/FsxMisuse.thy ===== *)
theory FsxMisuse
  imports FsxUpload
begin

text \<open>
  What the handlers do with messages that come out of order or twice: the code checks the
  parties of a transfer, but neither the state of the transfer nor the sizes it was told.
\<close>

section \<open>FILE_DONE\<close>

text \<open>
  FILE_DONE completes a transfer with whatever has arrived: the number of chunks and the size
  it carries are ignored, and so is the size of the offer.
\<close>

theorem file_done_ignores_sizes:
  assumes "disk_ok os" and "receiving os base tid name uid h f got n (manager srv) (store srv)"
    and "connected c uid q ReadHeader srv"
  shows "\<exists>srv'. deliver X os base c (make_file_done tid k z) srv = (Inr (), srv') \<and>
    stored_as os base tid name got n (manager srv') (store srv') \<and>
    connected c uid (q @ [result_frame base tid name]) ReadHeader srv'"
  by (rule deliver_done [OF assms]) blast

text \<open>
  C30: A second FILE_DONE for the same transfer makes the server close a stream that is closed
  already: the handle stays recorded in the transfer, and the state COMPLETED is not checked.
\<close>

theorem second_file_done_undefined:
  assumes "disk_ok os" and "receiving os base tid name uid h f got n (manager srv) (store srv)"
    and "connected c uid q ReadHeader srv"
  shows "fst (deliver X os base c (make_file_done tid k z @ make_file_done tid k' z') srv) = undefined_behaviour"
proof -
  let ?p = "file_done_payload tid k z" and ?p' = "file_done_payload tid k' z'"
  obtain srv1 where m: "message_body X os base c FILE_DONE ?p srv = (Inr (), srv1)"
    and cl: "closed_transfer tid name uid h (manager srv1) (store srv1)"
    and c1: "connected c uid (q @ [result_frame base tid name]) ReadHeader srv1"
    using message_done [OF assms] by metis
  have fr: "make_file_done tid i y = frame FILE_DONE (file_done_payload tid i y)" for i y
    using make_frame_eq [of FILE_DONE] by (simp add: make_file_done_def)
  have len: "length (file_done_payload tid i y) \<le> 16777216" for i y by (simp add: file_done_payload_def)
  obtain s where s: "sessions srv c = Some s" "pending_read s = ReadHeader"
    using assms(3) by (auto simp: connected_def)
  obtain s1 where s1: "sessions srv1 c = Some s1" "pending_read s1 = ReadHeader" "is_authenticated s1"
    "sess_user_id s1 = uid"
    using c1 by (auto simp: connected_def)
  let ?m = "\<lparr>done_transfer_id = tid, done_total_chunks = k', done_file_size = z'\<rparr>"
  have des: "FileDone_deserialize ?p' = Inr ?m"
    using FileDone_roundtrip [of ?m] by (simp add: client_file_payloads)
  let ?srv1 = "modify_session c (stored_frame FILE_DONE ?p') srv1"
  have UB: "fst (finalize_file os base tid name (Some h) (store srv1)) = undefined_behaviour"
    using cl by (simp add: finalize_file_UB_iff closed_transfer_def)
  have "wp (handle_file_done os base c (stored_frame FILE_DONE ?p' s1) ?p')
          (\<lambda>r _. r = undefined_behaviour) ?srv1"
    using cl s1 des UB
    by (auto simp: handle_file_done_def wp_simps stored_frame_def is_authenticated_def closed_transfer_def)
  then have "fst (message_body X os base c FILE_DONE ?p' srv1) = undefined_behaviour"
    using s1(1) by (simp add: message_body_def handle_message_def wp_def sbind_def case_prod_unfold)
  then show ?thesis
    using deliver_frame [OF s len, of FILE_DONE X os base k z "frame FILE_DONE ?p'"] m
      deliver_frame [OF s1(1,2) len, of FILE_DONE X os base k' z' "[]"]
    by (simp add: fr case_prod_unfold)
qed

section \<open>FILE_ACCEPT_REQ\<close>

text \<open>
  C31: The receiver can accept a transfer in any state, also one that is receiving, completed or
  failed: it goes back to ACCEPTED with a new, empty temporary file, while the counters of
  chunks and bytes stay as they were.
\<close>

theorem accept_ignores_state:
  assumes "disk_ok os" and "is_authenticated s" and "get_transfer (manager srv) tid = Some t"
    and "receiver_user_id t = sess_user_id s"
  shows "\<exists>srv' h f. handle_message X os base c s FILE_ACCEPT_REQ (file_accept_payload tid True) srv = (Inr (), srv') \<and>
    get_transfer (manager srv') tid = Some (t\<lparr>file_handle := Some h, tstate := ACCEPTED\<rparr>) \<and>
    streams (store srv') h = Some (f, 0) \<and> contents (store srv') f = [] \<and>
    names (store srv') (resolve os (c_str (get_temp_path base tid (filename t)))) = Some f"
proof -
  obtain h f st' where o: "open_for_write os base tid (filename t) (store srv) = (Some h, st')"
    and st': "streams st' h = Some (f, 0)" "contents st' f = []" "buffer st' h = []"
      "names st' (resolve os (c_str (get_temp_path base tid (filename t)))) = Some f"
    by (rule open_receiving [OF assms(1)])
  have des: "FileAcceptReq_deserialize (file_accept_payload tid True) =
      Inr \<lparr>areq_transfer_id = tid, areq_accept = True\<rparr>"
    using FileAcceptReq_roundtrip by (simp add: client_file_payloads)
  have "wp (handle_message X os base c s FILE_ACCEPT_REQ (file_accept_payload tid True))
    (\<lambda>r srv'. r = Inr () \<and>
      get_transfer (manager srv') tid = Some (t\<lparr>file_handle := Some h, tstate := ACCEPTED\<rparr>) \<and>
      store srv' = st') srv"
    using assms(2-4) o des
    by (simp add: handle_message_def handle_file_accept_req_def wp_simps split: option.split)
  with st' show ?thesis unfolding wp_def by (metis prod.collapse)
qed

section \<open>FILE_CHUNK\<close>

text \<open>
  A chunk whose index is not the expected one is written to the file all the same; only the
  counters stay as they were.
\<close>

theorem unexpected_chunk_written:
  assumes "disk_ok os" and "receiving os base tid name uid h f got n (manager srv) (store srv)"
    and "is_authenticated s" and "sess_user_id s = uid" and "d \<noteq> []" and "i \<noteq> n"
  shows "\<exists>srv'. handle_message X os base c s FILE_CHUNK (file_chunk_payload tid i d) srv = (Inr (), srv') \<and>
    manager srv' = manager srv \<and> contents (store srv') f = got @ d"
proof -
  let ?m = "\<lparr>chunk_transfer_id = tid, chunk_index = i, chunk_data = d\<rparr>"
  have des: "FileChunk_deserialize (file_chunk_payload tid i d) = Inr ?m"
    using FileChunk_roundtrip [of ?m] by (simp add: client_file_payloads)
  obtain t where t: "get_transfer (manager srv) tid = Some t" "sender_user_id t = uid"
    "live_state (tstate t)" "file_handle t = Some h" "expected_chunk_index t = n"
    and st: "streams (store srv) h = Some (f, length got)" "contents (store srv) f = got"
      "buffer (store srv) h = []"
    using assms(2) by (auto simp: receiving_def)
  note w = write_chunk_all [OF assms(1) st assms(5)]
  have "snd (mark_chunk_received tid i (length d) (manager srv)) = manager srv"
    using t assms(6) by (simp add: snd_mark_chunk)
  then have "wp (handle_message X os base c s FILE_CHUNK (file_chunk_payload tid i d))
    (\<lambda>r srv'. r = Inr () \<and> manager srv' = manager srv \<and> contents (store srv') f = got @ d) srv"
    using assms(3,4) t des
    by (auto simp: handle_message_def handle_file_chunk_def wp_simps live_state_def w)
  then show ?thesis unfolding wp_def by (metis prod.collapse)
qed

text \<open>
  A chunk without data fails the transfer: the file store answers -1 for an empty write, as
  it does for an error of the disk.
\<close>

theorem empty_chunk_fails_transfer:
  assumes "receiving os base tid name uid h f got n (manager srv) (store srv)"
    and "is_authenticated s" and "sess_user_id s = uid"
  shows "\<exists>srv' t. handle_message X os base c s FILE_CHUNK (file_chunk_payload tid i []) srv = (Inr (), srv') \<and>
    get_transfer (manager srv') tid = Some t \<and> tstate t = FAILED \<and> store srv' = store srv"
proof -
  let ?m = "\<lparr>chunk_transfer_id = tid, chunk_index = i, chunk_data = []\<rparr>"
  have des: "FileChunk_deserialize (file_chunk_payload tid i []) = Inr ?m"
    using FileChunk_roundtrip [of ?m] by (simp add: client_file_payloads)
  obtain t where t: "get_transfer (manager srv) tid = Some t" "sender_user_id t = uid"
    "live_state (tstate t)" "file_handle t = Some h"
    using assms(1) by (auto simp: receiving_def)
  have "wp (handle_message X os base c s FILE_CHUNK (file_chunk_payload tid i []))
    (\<lambda>r srv'. r = Inr () \<and> get_transfer (manager srv') tid = Some (t\<lparr>tstate := FAILED\<rparr>) \<and>
      store srv' = store srv) srv"
    using assms(2,3) t des
    by (auto simp: handle_message_def handle_file_chunk_def wp_simps live_state_def write_chunk_def)
  then show ?thesis unfolding wp_def by (metis prod.collapse TransferSession.select_convs(12)
      TransferSession.update_convs(12) TransferSession.surjective)
qed

end
