(* ===== verification/FsxIsolation.thy ===== *)
theory FsxIsolation
  imports FsxMisuse
begin

text \<open>
  Isolation of transfers: as long as file names have no separator, each transfer has its own
  files, and a message that does not concern a transfer leaves its state, its stream and its
  files alone. The path of a file must determine its transfer, also after the operating system
  resolved it (\<open>separates\<close>).
\<close>

section \<open>Names and owners\<close>

definition plain_name :: "string \<Rightarrow> bool" where
  "plain_name n \<longleftrightarrow> CHR ''/'' \<notin> set n \<and> CHR 0x00 \<notin> set n"

definition separates :: "(string \<Rightarrow> string) \<Rightarrow> string \<Rightarrow> bool" where
  "separates res base \<longleftrightarrow>
     (\<forall>tid n tid' n'. plain_name n \<longrightarrow> plain_name n' \<longrightarrow>
        res (c_str (get_file_path base tid n)) = res (c_str (get_file_path base tid' n')) \<longrightarrow> tid = tid')"

lemma plain_part: "plain_name n \<Longrightarrow> plain_name (n @ ''.part'')"
  by (simp add: plain_name_def)

lemma c_str_file_path:
  "CHR 0x00 \<notin> set base \<Longrightarrow> plain_name n \<Longrightarrow> c_str (get_file_path base tid n) = get_file_path base tid n"
  using not_in_dec_string [of "CHR 0x00" "unat tid"] is_digit_not(5)
  by (intro c_str_id) (auto simp: get_file_path_def plain_name_def)

text \<open>A file system without links separates the transfers of a base path.\<close>

lemma separates_id: "CHR 0x00 \<notin> set base \<Longrightarrow> separates (\<lambda>p. p) base"
  by (simp add: separates_def c_str_file_path get_file_path_inject)

text \<open>
  Every file has an owner (\<open>own\<close>), the transfer in whose directory its names are; a transfer's
  stream is open on a file of its own.
\<close>

definition names_owned :: "(string \<Rightarrow> string) \<Rightarrow> string \<Rightarrow> (nat \<Rightarrow> u64) \<Rightarrow> stdio \<Rightarrow> bool" where
  "names_owned res base own st \<longleftrightarrow>
     (\<forall>p f. names st p = Some f \<longrightarrow>
        (\<exists>n. plain_name n \<and> p = res (c_str (get_file_path base (own f) n))))"

definition streams_owned :: "(nat \<Rightarrow> u64) \<Rightarrow> TransferManager \<Rightarrow> stdio \<Rightarrow> bool" where
  "streams_owned own tm st \<longleftrightarrow>
     (\<forall>tid t h f off. get_transfer tm tid = Some t \<longrightarrow> file_handle t = Some h \<longrightarrow>
        streams st h = Some (f, off) \<longrightarrow> own f = tid)"

definition plain_names :: "TransferManager \<Rightarrow> bool" where
  "plain_names tm \<longleftrightarrow> (\<forall>tid t. get_transfer tm tid = Some t \<longrightarrow> plain_name (filename t))"

text \<open>
  What the owner \<open>tid\<close> has is the same in \<open>st'\<close> as it was in \<open>st\<close>; a stream that is closed is not
  opened again.
\<close>

definition kept :: "(nat \<Rightarrow> u64) \<Rightarrow> u64 \<Rightarrow> stdio \<Rightarrow> stdio \<Rightarrow> bool" where
  "kept own tid st st' \<longleftrightarrow>
     (\<forall>p f. names st p = Some f \<longrightarrow> own f = tid \<longrightarrow> names st' p = Some f) \<and>
     (\<forall>h f off. streams st h = Some (f, off) \<longrightarrow> own f = tid \<longrightarrow>
        streams st' h = Some (f, off) \<and> buffer st' h = buffer st h) \<and>
     (\<forall>f. own f = tid \<longrightarrow> f < next_file st \<longrightarrow> contents st' f = contents st f) \<and>
     next_stream st \<le> next_stream st' \<and> (\<forall>h < next_stream st. streams st h = None \<longrightarrow> streams st' h = None)"

lemma kept_refl [simp]: "kept own tid st st"
  by (simp add: kept_def)

lemma names_owned_at:
  assumes "names_owned res base own st" and "separates res base" and "plain_name n"
    and "names st (res (c_str (get_file_path base tid n))) = Some f"
  shows "own f = tid"
  using assms unfolding names_owned_def separates_def by metis

section \<open>The file store\<close>

lemma opened_state:
  assumes "open_for_write os base tid name st = (Some h, st')"
  shows "h = next_stream st" and
    "st' = (let p = resolve os (c_str (get_temp_path base tid name)) in
       case names st p of
         Some f \<Rightarrow> st\<lparr>contents := (contents st)(f := []), streams := (streams st)(next_stream st \<mapsto> (f, 0)),
             next_stream := next_stream st + 1, buffer := (buffer st)(next_stream st := [])\<rparr>
       | None \<Rightarrow> st\<lparr>names := (names st)(p \<mapsto> next_file st), contents := (contents st)(next_file st := []),
             next_file := next_file st + 1, streams := (streams st)(next_stream st \<mapsto> (next_file st, 0)),
             next_stream := next_stream st + 1, buffer := (buffer st)(next_stream st := [])\<rparr>)"
  using assms unfolding open_for_write_def fopen_wb_def Let_def
  by (auto split: option.splits if_splits)

lemma open_owned:
  assumes o: "open_for_write os base tid name st = (Some h, st')" and res: "resolve os = res"
    and sep: "separates res base" and own: "names_owned res base own st" and wf: "stdio_wf st"
    and name: "plain_name name"
  obtains own' f where "\<forall>f < next_file st. own' f = own f" and "names_owned res base own' st'"
    and "streams st' = (streams st)(h \<mapsto> (f, 0))" and "own' f = tid"
    and "\<forall>tid'. tid' \<noteq> tid \<longrightarrow> kept own tid' st st'" and "next_file st \<le> next_file st'"
proof -
  let ?p = "res (c_str (get_temp_path base tid name))"
  have p: "?p = res (c_str (get_file_path base tid (name @ ''.part'')))" by (simp add: get_temp_path_eq)
  note h = opened_state(1) [OF o]
  have fresh: "streams st h = None"
    using wf h by (cases "streams st h") (auto simp: stdio_wf_def)
  show thesis
  proof (cases "names st ?p")
    case None
    then have st': "st' = st\<lparr>names := (names st)(?p \<mapsto> next_file st), contents := (contents st)(next_file st := []),
        next_file := next_file st + 1, streams := (streams st)(h \<mapsto> (next_file st, 0)), next_stream := h + 1,
        buffer := (buffer st)(h := [])\<rparr>"
      using opened_state(2) [OF o] res h by (simp add: Let_def)
    let ?own = "own(next_file st := tid)"
    show thesis
    proof (rule that)
      show "\<forall>f < next_file st. ?own f = own f" by simp
      show "names_owned res base ?own st'"
        unfolding names_owned_def
      proof (intro allI impI)
        fix q f assume q: "names st' q = Some f"
        show "\<exists>n. plain_name n \<and> q = res (c_str (get_file_path base (?own f) n))"
        proof (cases "q = ?p")
          case True
          with q p plain_part [OF name] show ?thesis by (auto simp: st')
        next
          case False
          with q have "names st q = Some f" by (simp add: st')
          moreover from this have "f \<noteq> next_file st" using wf by (auto simp: stdio_wf_def)
          ultimately show ?thesis using own by (auto simp: names_owned_def)
        qed
      qed
      show "streams st' = (streams st)(h \<mapsto> (next_file st, 0))" by (simp add: st')
      show "?own (next_file st) = tid" by simp
      show "\<forall>tid'. tid' \<noteq> tid \<longrightarrow> kept own tid' st st'"
        using fresh None h unfolding kept_def st' by auto
      show "next_file st \<le> next_file st'" by (simp add: st')
    qed
  next
    case (Some f)
    then have st': "st' = st\<lparr>contents := (contents st)(f := []),
        streams := (streams st)(h \<mapsto> (f, 0)), next_stream := h + 1, buffer := (buffer st)(h := [])\<rparr>"
      using opened_state(2) [OF o] res h by (simp add: Let_def)
    have f: "own f = tid"
      using names_owned_at [OF own sep plain_part [OF name]] Some p by simp
    show thesis
    proof (rule that)
      show "names_owned res base own st'" using own by (simp add: names_owned_def st')
      show "streams st' = (streams st)(h \<mapsto> (f, 0))" by (simp add: st')
      show "\<forall>tid'. tid' \<noteq> tid \<longrightarrow> kept own tid' st st'"
        using fresh f h unfolding kept_def st' by auto
    qed (use f st' in simp_all)
  qed
qed

lemma write_chunk_names [simp]:
  "names (snd (write_chunk os fp d st)) = names st" "next_file (snd (write_chunk os fp d st)) = next_file st"
  using touches_write_chunk by (cases fp; simp add: snd_write_chunk touches_def)+

text \<open>A call on the stream of one owner keeps what the others have.\<close>

lemma touches_kept:
  assumes "touches h st st'" and "\<And>f off. streams st h = Some (f, off) \<Longrightarrow> own f = tid" and "tid' \<noteq> tid"
  shows "kept own tid' st st'"
proof -
  have "g \<noteq> h" if "streams st g = Some (f, off)" "own f = tid'" for g f off
    using assms(2,3) that by metis
  moreover have "streams st h \<noteq> Some (f, off)" if "own f = tid'" for f off
    using assms(2,3) that by metis
  moreover have "streams st g = None \<longrightarrow> streams st' g = None" for g
    using touches_is_open [OF assms(1), of g] by (auto simp: is_open_def)
  ultimately show ?thesis using assms(1) unfolding kept_def touches_def by simp
qed

lemma touches_streams_owned: "touches h st st' \<Longrightarrow> streams_owned own tm st \<Longrightarrow> streams_owned own tm st'"
  using touches_stream [of h st st'] unfolding streams_owned_def by metis

lemma write_owned:
  assumes "names_owned res base own st" and "streams_owned own tm st"
    and "get_transfer tm tid = Some t"
  shows "names_owned res base own (snd (write_chunk os (file_handle t) d st))"
    and "streams_owned own tm (snd (write_chunk os (file_handle t) d st))"
    and "tid' \<noteq> tid \<Longrightarrow> kept own tid' st (snd (write_chunk os (file_handle t) d st))"
proof -
  show "names_owned res base own (snd (write_chunk os (file_handle t) d st))"
    using assms(1) by (simp add: names_owned_def)
  show "streams_owned own tm (snd (write_chunk os (file_handle t) d st))"
    using touches_streams_owned [OF touches_write_chunk assms(2)] assms(2)
    by (cases "file_handle t") (simp_all add: snd_write_chunk)
  show "kept own tid' st (snd (write_chunk os (file_handle t) d st))" if other: "tid' \<noteq> tid"
  proof (cases "file_handle t")
    case (Some h)
    with assms(2,3) have "streams st h = Some (f, off) \<Longrightarrow> own f = tid" for f off
      unfolding streams_owned_def by blast
    from touches_kept [OF touches_write_chunk this other] Some show ?thesis by simp
  qed (simp add: snd_write_chunk)
qed

lemma finalize_owned:
  assumes names: "names_owned res base own st" and streams: "streams_owned own tm st"
    and t: "get_transfer tm tid = Some t" and res: "resolve os = res"
    and sep: "separates res base" and name: "plain_name (filename t)"
  defines "st' \<equiv> snd (finalize_file os base tid (filename t) (file_handle t) st)"
  shows "names_owned res base own st'" and "streams_owned own tm st'"
    and "next_file st' = next_file st" and "tid' \<noteq> tid \<Longrightarrow> kept own tid' st st'"
proof -
  let ?temp = "res (c_str (get_temp_path base tid (filename t)))"
    and ?final = "res (c_str (get_file_path base tid (filename t)))"
  have owner: "own f = tid" if "names st p = Some f" and "p = ?temp \<or> p = ?final" for p f
    using names_owned_at [OF names sep plain_part [OF name]] names_owned_at [OF names sep name] that
    by (auto simp: get_temp_path_eq)
  have moved: "names st' p = names st p \<or> p = ?temp \<or> (p = ?final \<and> names st' p = names st ?temp)" for p
    by (cases "file_handle t")
      (auto simp: st'_def snd_finalize_file [of _ _ _ _ None] finalize_names rename_file_def res split: option.split)
  have gone: "p = ?temp \<Longrightarrow> names st' p = names st p \<or> names st' p = None" for p
    by (cases "file_handle t")
      (auto simp: st'_def snd_finalize_file [of _ _ _ _ None] finalize_names rename_file_def res split: option.split)
  have closed: "streams st' h = streams st h \<or> (file_handle t = Some h \<and> streams st' h = None)" for h
    by (cases "file_handle t") (auto simp: st'_def snd_finalize_file [of _ _ _ _ None] finalize_streams)
  have rest: "file_handle t \<noteq> Some h \<Longrightarrow> buffer st' h = buffer st h"
    "(\<And>h off. file_handle t = Some h \<Longrightarrow> streams st h \<noteq> Some (f, off)) \<Longrightarrow> contents st' f = contents st f" for h f
    by (cases "file_handle t"; auto simp: st'_def snd_finalize_file [of _ _ _ _ None] finalize_others)+
  show "next_file st' = next_file st"
    by (cases "file_handle t") (simp_all add: st'_def snd_finalize_file [of _ _ _ _ None] finalize_others)
  show "streams_owned own tm st'"
    using streams closed unfolding streams_owned_def by (metis option.distinct(1))
  show "names_owned res base own st'"
    unfolding names_owned_def
  proof (intro allI impI)
    fix p f assume p: "names st' p = Some f"
    show "\<exists>n. plain_name n \<and> p = res (c_str (get_file_path base (own f) n))"
    proof (cases "names st p = Some f")
      case True
      with names show ?thesis by (simp add: names_owned_def)
    next
      case False
      with p moved [of p] gone [of p] have "p = ?final" "names st ?temp = Some f" by auto
      with owner [of ?temp f] name show ?thesis by auto
    qed
  qed
  show "kept own tid' st st'" if other: "tid' \<noteq> tid"
    unfolding kept_def
  proof (intro conjI allI impI)
    fix p f assume p: "names st p = Some f" "own f = tid'"
    with owner [of p f] other have "p \<noteq> ?temp" "p \<noteq> ?final" by auto
    with p moved [of p] show "names st' p = Some f" by simp
  next
    fix h f off assume h: "streams st h = Some (f, off)" "own f = tid'"
    with streams t other have "file_handle t \<noteq> Some h" by (auto simp: streams_owned_def)
    with h closed [of h] rest(1) [of h] show "streams st' h = Some (f, off)" and "buffer st' h = buffer st h" by simp_all
  next
    fix f assume "own f = tid'"
    with streams t other show "contents st' f = contents st f"
      by (intro rest(2)) (auto simp: streams_owned_def)
  next
    show "next_stream st \<le> next_stream st'" by (simp add: st'_def)
  next
    fix h assume "streams st h = None"
    then show "streams st' h = None" using closed [of h] by auto
  qed
qed

section \<open>Messages\<close>

text \<open>
  What a message may change: of the transfers there were before, only those in \<open>D\<close>, with their
  files; new transfers and new files may appear.
\<close>

definition owned :: "(string \<Rightarrow> string) \<Rightarrow> string \<Rightarrow> (nat \<Rightarrow> u64) \<Rightarrow> TransferManager \<Rightarrow> stdio \<Rightarrow> bool" where
  "owned res base own tm st \<longleftrightarrow>
     ids_fresh tm \<and> plain_names tm \<and> names_owned res base own st \<and> streams_owned own tm st"

definition changes ::
  "(string \<Rightarrow> string) \<Rightarrow> string \<Rightarrow> (nat \<Rightarrow> u64) \<Rightarrow> u64 set \<Rightarrow> TransferManager \<Rightarrow> stdio
    \<Rightarrow> TransferManager \<Rightarrow> stdio \<Rightarrow> bool" where
  "changes res base own D tm st tm' st' \<longleftrightarrow>
     (\<exists>own'. (\<forall>f < next_file st. own' f = own f) \<and> next_file st \<le> next_file st' \<and> owned res base own' tm' st' \<and>
        (\<forall>tid t. get_transfer tm tid = Some t \<longrightarrow> tid \<notin> D \<longrightarrow>
           get_transfer tm' tid = Some t \<and> kept own tid st st'))"

lemma changes_refl: "owned res base own tm st \<Longrightarrow> changes res base own D tm st tm st"
  unfolding changes_def by (intro exI [of _ own]) simp

lemma owned_modify:
  assumes "owned res base own tm st" and "\<And>t. filename (f t) = filename t" and "\<And>t. file_handle (f t) = file_handle t"
  shows "owned res base own (modify_transfer tid f tm) st"
  using assms
  by (auto simp: owned_def ids_fresh_modify plain_names_def streams_owned_def split: if_splits; blast)

lemma changes_modify:
  assumes "changes res base own D tm st tm' st'" and "tid \<in> D"
    and "\<And>t. filename (f t) = filename t" and "\<And>t. file_handle (f t) = file_handle t"
  shows "changes res base own D tm st (modify_transfer tid f tm') st'"
  using assms(1,2) owned_modify [OF _ assms(3,4)] unfolding changes_def by (auto; metis)

lemma changes_mark:
  assumes "changes res base own D tm st tm' st'" and "tid \<in> D"
  shows "changes res base own D tm st (snd (mark_chunk_received tid i n tm')) st'"
  using assms by (simp add: snd_mark_chunk changes_modify)

lemma changes_create:
  assumes "owned res base own tm st" and "plain_name name" and "next_transfer_id tm \<noteq> - 1"
    and "\<And>t. filename (g t) = filename t" and "\<And>t. file_handle (g t) = file_handle t"
  shows "changes res base own D tm st
    (modify_transfer (next_transfer_id tm) g (snd (create_transfer a b c d e name h i tm))) st"
proof -
  have "ids_fresh (snd (create_transfer a b c d e name h i tm))"
    using assms(1,3) by (simp add: owned_def ids_fresh_create)
  with assms(1,2) have "owned res base own (snd (create_transfer a b c d e name h i tm)) st"
    by (auto simp: owned_def plain_names_def streams_owned_def split: if_splits)
  from owned_modify [OF this assms(4,5)] assms(1) show ?thesis
    unfolding changes_def owned_def ids_fresh_def by (intro exI [of _ own]) auto
qed

lemma changes_open:
  assumes own: "owned res base own tm st" and o: "open_for_write os base tid (filename t) st = (Some h, st')"
    and t: "get_transfer tm tid = Some t" and res: "resolve os = res" and sep: "separates res base"
    and wf: "stdio_wf st" and handles: "handles_ok tm st" and D: "tid \<in> D"
    and f: "\<And>t. filename (f t) = filename t" "\<And>t. file_handle (f t) = Some h"
  shows "changes res base own D tm st (modify_transfer tid f tm) st'"
proof -
  have names: "names_owned res base own st" and name: "plain_name (filename t)"
    using own t by (auto simp: owned_def plain_names_def)
  obtain own' g where 1: "\<forall>f < next_file st. own' f = own f" "names_owned res base own' st'"
    "streams st' = (streams st)(h \<mapsto> (g, 0))" "own' g = tid"
    "\<forall>tid'. tid' \<noteq> tid \<longrightarrow> kept own tid' st st'" "next_file st \<le> next_file st'"
    by (rule open_owned [OF o res sep names wf name])
  have h: "h = next_stream st" using opened_state(1) [OF o] .
  have "streams_owned own' (modify_transfer tid f tm) st'"
    unfolding streams_owned_def
  proof (intro allI impI)
    fix tid' u k x off
    assume u: "get_transfer (modify_transfer tid f tm) tid' = Some u" "file_handle u = Some k"
      "streams st' k = Some (x, off)"
    show "own' x = tid'"
    proof (cases "tid' = tid")
      case True
      with u f 1(3,4) t show ?thesis by auto
    next
      case False
      with u have u': "get_transfer tm tid' = Some u" by simp
      with u handles h have "k \<noteq> h" by (auto simp: handles_ok_def)
      with u(3) 1(3) have x: "streams st k = Some (x, off)" by simp
      with u(2) u' own have "own x = tid'" by (auto simp: owned_def streams_owned_def)
      moreover have "x < next_file st" using x wf by (auto simp: stdio_wf_def)
      ultimately show ?thesis using 1(1) by simp
    qed
  qed
  with own 1 f D show ?thesis
    unfolding changes_def
    by (intro exI [of _ own']) (auto simp: owned_def ids_fresh_modify plain_names_def split: if_splits)
qed

lemma changes_write:
  assumes "owned res base own tm st" and "get_transfer tm tid = Some t" and "tid \<in> D"
  shows "changes res base own D tm st tm (snd (write_chunk os (file_handle t) d st))"
proof -
  have "names_owned res base own st" "streams_owned own tm st" using assms(1) by (simp_all add: owned_def)
  note w = write_owned [OF this assms(2), where os = os and d = d]
  have "kept own tid' st (snd (write_chunk os (file_handle t) d st))" if "tid' \<notin> D" for tid'
    using that assms(3) by (intro w(3)) auto
  with w(1,2) assms show ?thesis
    unfolding changes_def by (intro exI [of _ own]) (auto simp: owned_def)
qed

lemma changes_finalize:
  assumes own: "owned res base own tm st" and t: "get_transfer tm tid = Some t" and "tid \<in> D"
    and res: "resolve os = res" "separates res base"
  shows "changes res base own D tm st tm (snd (finalize_file os base tid (filename t) (file_handle t) st))"
proof -
  have "names_owned res base own st" "streams_owned own tm st" "plain_name (filename t)"
    using own t by (auto simp: owned_def plain_names_def)
  note w = finalize_owned [OF this(1,2) t res this(3)]
  have "kept own tid' st (snd (finalize_file os base tid (filename t) (file_handle t) st))"
    if "tid' \<notin> D" for tid'
    using that assms(3) by (intro w(4)) auto
  with w(1-3) assms show ?thesis
    unfolding changes_def by (intro exI [of _ own]) (auto simp: owned_def)
qed

text \<open>
  A message concerns a transfer when it comes from the party that may act on it: chunks and
  FILE_DONE from the sender, FILE_ACCEPT_REQ from the receiver.
\<close>

definition concerns :: "TransferManager \<Rightarrow> TcpSession \<Rightarrow> MsgType \<Rightarrow> bytes \<Rightarrow> u64 \<Rightarrow> bool" where
  "concerns tm s t p tid \<longleftrightarrow> is_authenticated s \<and>
     (case get_transfer tm tid of
        None \<Rightarrow> False
      | Some tr \<Rightarrow>
          if t = FILE_CHUNK then sender_user_id tr = sess_user_id s \<and>
            (case FileChunk_deserialize p of Inr m \<Rightarrow> chunk_transfer_id m = tid | Inl _ \<Rightarrow> False)
          else if t = FILE_DONE then sender_user_id tr = sess_user_id s \<and>
            (case FileDone_deserialize p of Inr m \<Rightarrow> done_transfer_id m = tid | Inl _ \<Rightarrow> False)
          else if t = FILE_ACCEPT_REQ then receiver_user_id tr = sess_user_id s \<and>
            (case FileAcceptReq_deserialize p of Inr m \<Rightarrow> areq_transfer_id m = tid | Inl _ \<Rightarrow> False)
          else False)"

definition plain_offer :: "MsgType \<Rightarrow> bytes \<Rightarrow> bool" where
  "plain_offer t p \<longleftrightarrow> (t = FILE_OFFER_REQ \<longrightarrow>
     (case FileOfferReq_deserialize p of Inr m \<Rightarrow> plain_name (oreq_filename m) | Inl _ \<Rightarrow> True))"

abbreviation srv_changes ::
  "(string \<Rightarrow> string) \<Rightarrow> string \<Rightarrow> (nat \<Rightarrow> u64) \<Rightarrow> u64 set \<Rightarrow> 'w server \<Rightarrow> 'w server \<Rightarrow> bool" where
  "srv_changes res base own D srv srv' \<equiv>
     changes res base own D (manager srv) (store srv) (manager srv') (store srv')"

abbreviation srv_owned :: "(string \<Rightarrow> string) \<Rightarrow> string \<Rightarrow> (nat \<Rightarrow> u64) \<Rightarrow> 'w server \<Rightarrow> bool" where
  "srv_owned res base own srv \<equiv> owned res base own (manager srv) (store srv)"

lemma offer_changes:
  assumes "srv_owned res base own srv" and "plain_offer FILE_OFFER_REQ p" and "next_transfer_id (manager srv) \<noteq> - 1"
  shows "keeps (srv_changes res base own D srv) (handle_file_offer_req X base c s p) srv"
  using assms
  by (auto simp: handle_file_offer_req_def plain_offer_def wp_simps wp_def [of "get_user_by_username X _"]
      split: sum.splits exn.splits option.split intro!: changes_refl changes_create)
    (auto simp: owned_def ids_fresh_def)

lemma accept_changes:
  assumes own: "srv_owned res base own srv" and res: "resolve os = res" and sep: "separates res base"
    and wf: "stdio_wf (store srv)" and handles: "handles_ok (manager srv) (store srv)"
  shows "keeps (srv_changes res base own {tid. concerns (manager srv) s FILE_ACCEPT_REQ p tid} srv)
    (handle_file_accept_req os base c s p) srv"
proof -
  let ?open = "\<lambda>tid name. open_for_write os base tid name (store srv)"
  have opened: "changes res base own D (manager srv) (store srv) (modify_transfer tid
                  ((\<lambda>s. s\<lparr>tstate := ACCEPTED\<rparr>) \<circ> (\<lambda>t. t\<lparr>file_handle := Some h\<rparr>)) (manager srv))
                  (snd (?open tid (filename t)))"
    if "fst (?open tid (filename t)) = Some h" and "get_transfer (manager srv) tid = Some t" and "tid \<in> D"
    for tid t h D
  proof (rule changes_open [OF own _ that(2) res sep wf handles that(3)])
    show "?open tid (filename t) = (Some h, snd (?open tid (filename t)))"
      using that(1) by (simp add: prod_eq_iff)
  qed simp_all
  have nopen: "snd (?open tid name) = store srv" if "fst (?open tid name) = None" for tid name
    using open_for_write_fails [of os base tid name "store srv"] that by (simp add: prod_eq_iff)
  note same = changes_refl [OF own]
  show ?thesis
    using opened nopen
    by (auto simp: handle_file_accept_req_def wp_simps case_prod_unfold Let_def concerns_def same
        split: sum.split exn.split option.split intro!: changes_modify [OF same])
qed

lemma chunk_changes:
  assumes own: "srv_owned res base own srv"
  shows "keeps (srv_changes res base own {tid. concerns (manager srv) s FILE_CHUNK p tid} srv)
    (handle_file_chunk os s p) srv"
  using own
  by (auto simp: handle_file_chunk_def wp_simps concerns_def split: sum.split exn.split option.split
      intro!: changes_refl changes_modify changes_mark changes_write)

lemma done_changes:
  assumes "srv_owned res base own srv" and "resolve os = res" and "separates res base"
  shows "keeps (srv_changes res base own {tid. concerns (manager srv) s FILE_DONE p tid} srv)
    (handle_file_done os base c s p) srv"
  using assms finalize_file_no_throw [of os base]
  by (auto simp: handle_file_done_def wp_simps concerns_def split: sum.split exn.split option.split
      intro!: changes_refl changes_modify changes_finalize)

lemma message_changes:
  assumes own: "srv_owned res base own srv" and res: "resolve os = res" "separates res base"
    and ok: "transfers_ok base srv" and m: "plain_offer t p" "next_transfer_id (manager srv) \<noteq> - 1"
  shows "keeps (srv_changes res base own {tid. concerns (manager srv) s t p tid} srv)
    (handle_message X os base c s t p) srv"
proof -
  note same = changes_refl [OF own]
  have auth: "keeps (srv_changes res base own D srv) (handle_register_req X c p) srv"
    "keeps (srv_changes res base own D srv) (handle_login_req X c p) srv" for D
    using same
    by (auto simp: handle_register_req_def handle_login_req_def wp_simps Let_def
        wp_def [of "handle_register X _"] wp_def [of "handle_login X _"] split: sum.split exn.split)
  show ?thesis
    using m(1) accept_changes [OF own res] chunk_changes [OF own] done_changes [OF own res]
      offer_changes [OF own _ m(2)] auth ok same
    by (simp add: handle_message_def wp_simps transfers_ok_def) blast
qed

section \<open>Runs\<close>

text \<open>The message an event hands to \<open>handle_message\<close>, with the session that received it.\<close>

fun message_of :: "'w server \<Rightarrow> event \<Rightarrow> (TcpSession \<times> MsgType \<times> bytes) option" where
  "message_of srv (HeaderDone c ec bs) =
     (case sessions srv c of
        None \<Rightarrow> None
      | Some s \<Rightarrow>
          let h = header_of_bytes bs
          in if \<not> ec \<and> length bs = HEADER_SIZE \<and> validate_header h = Inr () \<and> payload_len h = 0
             then Some (s, msg_type_of (hdr_type h), []) else None)"
| "message_of srv (BodyDone c ec bs) =
     (case sessions srv c of
        None \<Rightarrow> None
      | Some s \<Rightarrow>
          if \<not> ec \<and> length bs = length (sess_body s)
          then Some (s, msg_type_of (hdr_type (sess_header s)), bs) else None)"
| "message_of srv ev = None"

text \<open>
  Runs in which paths resolve by \<open>res\<close>, offers have plain names, ids are not exhausted, and no
  message concerns a transfer in \<open>D\<close>.
\<close>

inductive apart_run ::
  "'w externals \<Rightarrow> string \<Rightarrow> (string \<Rightarrow> string) \<Rightarrow> u64 set \<Rightarrow> 'w server \<Rightarrow> 'w server \<Rightarrow> bool"
  for X :: "'w externals" and base :: string and res :: "string \<Rightarrow> string" and D :: "u64 set" where
  stop: "apart_run X base res D srv srv"
| step: "apart_run X base res D srv srv1 \<Longrightarrow> enabled srv1 ev \<Longrightarrow>
    run_event X os base ev srv1 = (Inr (), srv2) \<Longrightarrow> resolve os = res \<Longrightarrow>
    next_transfer_id (manager srv1) \<noteq> - 1 \<Longrightarrow>
    (\<And>s t p. message_of srv1 ev = Some (s, t, p) \<Longrightarrow>
       plain_offer t p \<and> (\<forall>tid \<in> D. \<not> concerns (manager srv1) s t p tid)) \<Longrightarrow>
    apart_run X base res D srv srv2"

lemma apart_run_reachable:
  "apart_run X base res D srv srv' \<Longrightarrow> reachable X base w0 srv \<Longrightarrow> reachable X base w0 srv'"
  by (induction rule: apart_run.induct) (auto intro: reachable.step server_step.run)

definition same_files :: "'w server \<Rightarrow> 'w server \<Rightarrow> bool" where
  "same_files srv srv' \<longleftrightarrow>
     manager srv' = manager srv \<and> store srv' = store srv \<and> world srv' = world srv"

lemma same_files_simps [simp]:
  "same_files srv srv" "same_files (modify_session c f srv) srv' = same_files srv srv'"
  "same_files srv (modify_session c f srv') = same_files srv srv'"
  "same_files srv (do_read_header c srv') = same_files srv srv'"
  by (simp_all add: same_files_def do_read_header_def)

lemma same_files_offline [simp]: "same_files srv (online_remove c srv') = same_files srv srv'"
  by (auto simp: same_files_def online_remove_def case_prod_unfold Let_def split: option.split)

lemma same_files_release [simp]: "same_files srv (release c srv') = same_files srv srv'"
  by (auto simp: same_files_def release_def split: option.split)

lemma same_files_written [simp]: "same_files srv (on_written c ec srv') = same_files srv srv'"
  by (simp add: on_written_def Let_def do_write_def)

lemma same_files_accept [simp]: "same_files srv (on_accept ec srv') = same_files srv srv'"
  by (simp add: on_accept_def Let_def TcpSession_start_def) (simp add: same_files_def)

lemma concerns_same:
  "is_authenticated s' = is_authenticated s \<Longrightarrow> sess_user_id s' = sess_user_id s \<Longrightarrow>
     concerns tm s' t p tid = concerns tm s t p tid"
  by (simp only: concerns_def)

lemma is_authenticated_read [simp]:
  "is_authenticated (s\<lparr>pending_read := r\<rparr>) = is_authenticated s"
  "is_authenticated (s\<lparr>sess_header := h\<rparr>) = is_authenticated s"
  "is_authenticated (s\<lparr>sess_body := b\<rparr>) = is_authenticated s"
  by (simp_all add: is_authenticated_def)

lemma dispatch_handled:
  assumes "sbind (handle_message X os base c s t p) (\<lambda>_ srv. (Inr (), do_read_header c srv)) srv = (Inr (), srv')"
  obtains srv2 where "handle_message X os base c s t p srv = (Inr (), srv2)" and "same_files srv2 srv'"
  using assms by (auto simp: sbind_def split: prod.splits sum.splits)

text \<open>
  An event without a message leaves transfers and files as they were; the others run the handler of
  their message on them.
\<close>

definition handled :: "'w externals \<Rightarrow> os_answers \<Rightarrow> string \<Rightarrow> event \<Rightarrow> 'w server \<Rightarrow> 'w server \<Rightarrow> bool" where
  "handled X os base ev srv srv' \<longleftrightarrow> message_of srv ev = None \<and> same_files srv srv' \<or>
     (\<exists>c s s0 t p srv1 srv2. message_of srv ev = Some (s0, t, p) \<and> is_authenticated s = is_authenticated s0 \<and>
        sess_user_id s = sess_user_id s0 \<and> same_files srv srv1 \<and>
        handle_message X os base c s t p srv1 = (Inr (), srv2) \<and> same_files srv2 srv')"

lemma header_handled:
  assumes "on_header X os base c ec bs srv = (Inr (), srv')"
  shows "handled X os base (HeaderDone c ec bs) srv srv'"
proof (cases "\<exists>s. sessions srv c = Some s \<and> \<not> ec \<and> length bs = HEADER_SIZE \<and>
    validate_header (header_of_bytes bs) = Inr () \<and> payload_len (header_of_bytes bs) = 0")
  case False
  with assms show ?thesis
    by (auto simp: on_header_def Let_def do_read_body_def handled_def transferred_def
        unat_eq_0 [symmetric] HEADER_SIZE_def split: option.splits if_splits sum.splits exn.splits)
next
  case True
  then obtain s where s: "sessions srv c = Some s" and m: "\<not> ec" "length bs = HEADER_SIZE"
    "validate_header (header_of_bytes bs) = Inr ()" "payload_len (header_of_bytes bs) = 0" by blast
  let ?s = "s\<lparr>pending_read := NoRead, sess_header := header_of_bytes bs, sess_body := []\<rparr>"
  let ?srv = "modify_session c (\<lambda>s. s\<lparr>sess_body := []\<rparr>) (modify_session c (\<lambda>s. s\<lparr>pending_read := NoRead,
      sess_header := header_of_bytes (transferred bs (header_bytes (sess_header s)))\<rparr>) srv)"
  have "sbind (handle_message X os base c ?s (msg_type_of (hdr_type (header_of_bytes bs))) [])
      (\<lambda>_ srv. (Inr (), do_read_header c srv)) ?srv = (Inr (), srv')"
    using assms s m by (simp add: on_header_def Let_def do_read_body_def transferred_def HEADER_SIZE_def)
  then obtain srv2 where "handle_message X os base c ?s (msg_type_of (hdr_type (header_of_bytes bs))) [] ?srv
      = (Inr (), srv2)" "same_files srv2 srv'" by (rule dispatch_handled)
  moreover have "message_of srv (HeaderDone c ec bs) = Some (s, msg_type_of (hdr_type (header_of_bytes bs)), [])"
    using s m by (simp add: Let_def)
  moreover have "same_files srv ?srv" "is_authenticated ?s = is_authenticated s" "sess_user_id ?s = sess_user_id s"
    by simp_all
  ultimately show ?thesis unfolding handled_def by blast
qed

lemma body_handled:
  assumes "on_body X os base c ec bs srv = (Inr (), srv')" and "enabled srv (BodyDone c ec bs)"
  shows "handled X os base (BodyDone c ec bs) srv srv'"
proof (cases "\<exists>s. sessions srv c = Some s \<and> \<not> ec \<and> length bs = length (sess_body s)")
  case False
  with assms show ?thesis
    by (auto simp: on_body_def Let_def handled_def transferred_def split: option.splits if_splits)
next
  case True
  then obtain s where s: "sessions srv c = Some s" and m: "\<not> ec" "length bs = length (sess_body s)" by blast
  let ?s = "s\<lparr>pending_read := NoRead, sess_body := bs\<rparr>" and ?t = "msg_type_of (hdr_type (sess_header s))"
  let ?srv = "modify_session c (\<lambda>s. s\<lparr>pending_read := NoRead, sess_body := transferred bs (sess_body s)\<rparr>) srv"
  have "sbind (handle_message X os base c ?s ?t bs) (\<lambda>_ srv. (Inr (), do_read_header c srv)) ?srv = (Inr (), srv')"
    using assms s m by (simp add: on_body_def Let_def transferred_def)
  then obtain srv2 where "handle_message X os base c ?s ?t bs ?srv = (Inr (), srv2)" "same_files srv2 srv'"
    by (rule dispatch_handled)
  moreover have "message_of srv (BodyDone c ec bs) = Some (s, ?t, bs)" using s m by simp
  moreover have "same_files srv ?srv" "is_authenticated ?s = is_authenticated s" "sess_user_id ?s = sess_user_id s"
    by simp_all
  ultimately show ?thesis unfolding handled_def by blast
qed

lemma handled_released:
  assumes "sbind m (\<lambda>_ srv. (Inr (), release c srv)) srv = (Inr (), srv')"
    and "\<And>srv1. m srv = (Inr (), srv1) \<Longrightarrow> handled X os base ev srv srv1"
  shows "handled X os base ev srv srv'"
proof -
  obtain r srv1 where m: "m srv = (r, srv1)" by force
  with assms(1) have "r = Inr ()" "srv' = release c srv1" by (auto simp: sbind_def split: sum.splits)
  with assms(2) m show ?thesis by (simp add: handled_def)
qed

lemma event_handled:
  "enabled srv ev \<Longrightarrow> run_event X os base ev srv = (Inr (), srv') \<Longrightarrow> handled X os base ev srv srv'"
  by (cases ev)
    (simp add: handled_def, auto simp del: enabled.simps intro: handled_released header_handled body_handled,
     simp add: handled_def)

lemma changes_mono: "changes res base own D tm st tm' st' \<Longrightarrow> D \<subseteq> D' \<Longrightarrow> changes res base own D' tm st tm' st'"
  unfolding changes_def by (elim exE conjE, rule exI, intro conjI, assumption+, blast)

lemma apart_step:
  assumes ok: "transfers_ok base srv" and own: "srv_owned res base own srv" and sep: "separates res base"
    and en: "enabled srv ev" and run: "run_event X os base ev srv = (Inr (), srv')" and res: "resolve os = res"
    and ids: "next_transfer_id (manager srv) \<noteq> - 1"
    and m: "\<And>s t p. message_of srv ev = Some (s, t, p) \<Longrightarrow>
      plain_offer t p \<and> (\<forall>tid \<in> D. \<not> concerns (manager srv) s t p tid)"
  shows "srv_changes res base own (- D) srv srv'"
  using event_handled [OF en run] unfolding handled_def
proof (elim disjE exE conjE)
  assume "same_files srv srv'"
  then show ?thesis using changes_refl [OF own] by (simp add: same_files_def)
next
  fix c s s0 t p srv1 srv2
  assume 1: "message_of srv ev = Some (s0, t, p)" "is_authenticated s = is_authenticated s0"
    "sess_user_id s = sess_user_id s0" "same_files srv srv1"
    "handle_message X os base c s t p srv1 = (Inr (), srv2)" "same_files srv2 srv'"
  have "transfers_ok base srv1" "srv_owned res base own srv1" "next_transfer_id (manager srv1) \<noteq> - 1"
    using ok own ids 1(4) by (simp_all add: same_files_def transfers_ok_def)
  from wp_apply [OF message_changes [OF this(2) res sep this(1) _ this(3)] 1(5)] m [OF 1(1)]
  have "srv_changes res base own {tid. concerns (manager srv1) s t p tid} srv1 srv2" by simp
  moreover have "{tid. concerns (manager srv1) s t p tid} \<subseteq> - D"
    using m [OF 1(1)] concerns_same [OF 1(2,3)] 1(4) by (auto simp: same_files_def)
  ultimately show ?thesis using 1(4,6) changes_mono by (simp add: same_files_def)
qed

lemma kept_trans:
  assumes "kept own tid st st1" and "kept own1 tid st1 st2" and "stdio_wf st"
    and "\<forall>f < next_file st. own1 f = own f" and "next_file st \<le> next_file st1"
  shows "kept own tid st st2"
  unfolding kept_def
proof (intro conjI allI impI)
  fix p f assume f: "names st p = Some f" "own f = tid"
  with assms(3,4) have "own1 f = tid" by (auto simp: stdio_wf_def)
  with f assms(1,2) show "names st2 p = Some f" by (simp add: kept_def)
next
  fix h f off assume f: "streams st h = Some (f, off)" "own f = tid"
  with assms(3,4) have "own1 f = tid" by (auto simp: stdio_wf_def)
  with f assms(1,2) show "streams st2 h = Some (f, off)" and "buffer st2 h = buffer st h"
    by (simp_all add: kept_def)
next
  fix f assume "own f = tid" "f < next_file st"
  with assms show "contents st2 f = contents st f" by (simp add: kept_def)
next
  show "next_stream st \<le> next_stream st2" using assms(1,2) by (simp add: kept_def)
next
  fix h assume "h < next_stream st" "streams st h = None"
  with assms(1) have "h < next_stream st1" "streams st1 h = None" by (auto simp: kept_def)
  with assms(2) show "streams st2 h = None" by (simp add: kept_def)
qed

lemma changes_trans:
  assumes "changes res base own D tm st tm1 st1" and wf: "stdio_wf st"
    and "\<And>own1. owned res base own1 tm1 st1 \<Longrightarrow> changes res base own1 D tm1 st1 tm2 st2"
  shows "changes res base own D tm st tm2 st2"
proof -
  obtain own1 where 1: "\<forall>f < next_file st. own1 f = own f" "next_file st \<le> next_file st1"
    "owned res base own1 tm1 st1"
    "\<forall>tid t. get_transfer tm tid = Some t \<longrightarrow> tid \<notin> D \<longrightarrow> get_transfer tm1 tid = Some t \<and> kept own tid st st1"
    using assms(1) unfolding changes_def by blast
  obtain own2 where 2: "\<forall>f < next_file st1. own2 f = own1 f" "next_file st1 \<le> next_file st2"
    "owned res base own2 tm2 st2"
    "\<forall>tid t. get_transfer tm1 tid = Some t \<longrightarrow> tid \<notin> D \<longrightarrow> get_transfer tm2 tid = Some t \<and> kept own1 tid st1 st2"
    using assms(3) [OF 1(3)] unfolding changes_def by blast
  have "get_transfer tm2 tid = Some t \<and> kept own tid st st2"
    if "get_transfer tm tid = Some t" "tid \<notin> D" for tid t
    using that 1(4) 2(4) kept_trans [OF _ _ wf 1(1,2)] by blast
  with 1 2 show ?thesis unfolding changes_def by (intro exI [of _ own2]) auto
qed

text \<open>
  Over a run that stays apart from \<open>D\<close>, the transfers in \<open>D\<close> do not change.
\<close>

lemma apart_run_changes:
  assumes "apart_run X base res D srv srv'" and "transfers_ok base srv" and "srv_owned res base own srv"
    and sep: "separates res base"
  shows "transfers_ok base srv' \<and> srv_changes res base own (- D) srv srv'"
  using assms(1-3)
proof (induction rule: apart_run.induct)
  case (stop srv)
  then show ?case by (simp add: changes_refl)
next
  case (step srv srv1 ev os srv2)
  then have ok: "transfers_ok base srv1" and c: "srv_changes res base own (- D) srv srv1" by simp_all
  have "transfers_ok base srv2"
    using transfers.inv_step [OF ok server_step.run [OF step.hyps(2,3)]] .
  moreover have "srv_changes res base own (- D) srv srv2"
    using step.prems(1) apart_step [OF ok _ sep step.hyps(2,3,4,5,6)]
    by (intro changes_trans [OF c]) (auto simp: transfers_ok_def)
  ultimately show ?case by simp
qed

lemma owned_init: "owned res base own TransferManager_init stdio_init"
  by (simp add: owned_def ids_fresh_init plain_names_def names_owned_def streams_owned_def stdio_init_def)
    (simp add: TransferManager_init_def get_transfer_def)

text \<open>The conditions hold at the start and on every run in which all offers have plain names.\<close>

lemma plain_runs_own:
  assumes "apart_run X base res {} (server_init w0) srv" and "separates res base"
  shows "transfers_ok base srv \<and> (\<exists>own. srv_owned res base own srv)"
proof -
  have "transfers_ok base (server_init w0)" by (rule transfers.inv_reachable [OF reachable.start])
  moreover have "srv_owned res base (\<lambda>_. 0) (server_init w0)" by (simp add: server_init_def owned_init)
  ultimately show ?thesis
    using apart_run_changes [OF assms(1) _ _ assms(2)] unfolding changes_def by blast
qed

section \<open>Properties\<close>

text \<open>
  C6: Transfers are isolated. Where every file belongs to one transfer (which holds at the start
  and as long as offered names have no separator, lemma \<open>plain_runs_own\<close>), a run in which no message comes from the party
  that may act on a transfer, whatever else happens, leaves its state, the stream it writes to
  (with what is still in its buffer), its names in the store and the contents of its files as they were.
\<close>

theorem transfer_isolated:
  assumes "separates res base" and "transfers_ok base srv" and "owned res base own (manager srv) (store srv)"
    and "apart_run X base res {tid} srv srv'" and "get_transfer (manager srv) tid = Some t"
  shows "get_transfer (manager srv') tid = Some t \<and>
    (\<forall>n f. plain_name n \<longrightarrow> names (store srv) (res (c_str (get_file_path base tid n))) = Some f \<longrightarrow>
       names (store srv') (res (c_str (get_file_path base tid n))) = Some f \<and>
       contents (store srv') f = contents (store srv) f) \<and>
    (\<forall>h f off. file_handle t = Some h \<longrightarrow> streams (store srv) h = Some (f, off) \<longrightarrow>
       streams (store srv') h = Some (f, off) \<and> buffer (store srv') h = buffer (store srv) h \<and>
       contents (store srv') f = contents (store srv) f)"
proof -
  have k: "get_transfer (manager srv') tid = Some t" "kept own tid (store srv) (store srv')"
    using apart_run_changes [OF assms(4,2,3,1)] assms(5) unfolding changes_def by auto
  have wf: "stdio_wf (store srv)" and names: "names_owned res base own (store srv)"
    and streams: "streams_owned own (manager srv) (store srv)"
    using assms(2,3) by (simp_all add: transfers_ok_def owned_def)
  have "own f = tid \<and> f < next_file (store srv)"
    if "plain_name n" "names (store srv) (res (c_str (get_file_path base tid n))) = Some f" for n f
    using names_owned_at [OF names assms(1) that] wf that(2) by (auto simp: stdio_wf_def)
  moreover have "own f = tid \<and> f < next_file (store srv)"
    if "file_handle t = Some h" "streams (store srv) h = Some (f, off)" for h f off
    using that streams assms(5) wf unfolding streams_owned_def stdio_wf_def by (intro conjI) blast+
  ultimately show ?thesis using k unfolding kept_def by blast
qed

text \<open>A server with a transfer that is receiving, and a third user about to send a chunk for it.\<close>

definition intruder_chunk :: bytes where
  "intruder_chunk = FileChunk_serialize \<lparr>chunk_transfer_id = 7, chunk_index = 0, chunk_data = [9]\<rparr>"

definition guarded_transfer :: TransferSession where
  "guarded_transfer = sample_transfer\<lparr>temp_file_path := get_temp_path ''d'' 7 ''a.txt'',
     final_file_path := get_file_path ''d'' 7 ''a.txt''\<rparr>"

definition intruder_session :: TcpSession where
  "intruder_session = (set_auth ''u'' 5 ''eve'' TcpSession_new)\<lparr>pending_read := ReadBody,
     sess_header := make_header FILE_CHUNK 13, sess_body := replicate 13 0\<rparr>"

definition guarded_server :: "pg_world server" where
  "guarded_server =
     \<lparr>world = pg_world_init, manager = \<lparr>next_transfer_id = 8, transfers = [(7, guarded_transfer)]\<rparr>,
      store = snd (open_for_write sample_os ''d'' 7 ''a.txt'' stdio_init), registry = [(''u'', 0)],
      sessions = [0 \<mapsto> intruder_session], next_conn = 1, sent_log = []\<rparr>"

lemma guarded_store:
  "store guarded_server = \<lparr>names = [get_temp_path ''d'' 7 ''a.txt'' \<mapsto> 0], contents = (\<lambda>_. []), next_file = 1,
     streams = [0 \<mapsto> (0, 0)], next_stream = 1, buffer = (\<lambda>_. [])\<rparr>"
  using c_str_file_path [of "''d''" "''a.txt.part''" 7]
  by (simp add: guarded_server_def open_for_write_def fopen_wb_def sample_os_def ensure_directory_def Let_def
      stdio_init_def get_temp_path_eq plain_name_def fun_eq_iff)

lemma guarded_ok:
  "transfers_ok ''d'' guarded_server" "owned (\<lambda>p. p) ''d'' (\<lambda>_. 7) (manager guarded_server) (store guarded_server)"
proof -
  have get: "get_transfer (manager guarded_server) tid = (if tid = 7 then Some guarded_transfer else None)" for tid
    by (simp add: guarded_server_def get_transfer_def)
  note fields = get guarded_store guarded_transfer_def sample_transfer_def
  show "transfers_ok ''d'' guarded_server"
    by (simp add: transfers_ok_def tm_wf_def stdio_wf_def handles_ok_def paths_ok_def is_open_def fields)
      (simp add: guarded_server_def)
  have "plain_name ''a.txt.part''" by (simp add: plain_name_def)
  moreover from this have "get_temp_path ''d'' 7 ''a.txt'' = c_str (get_file_path ''d'' 7 ''a.txt.part'')"
    using c_str_file_path [of "''d''" "''a.txt.part''" 7] by (simp add: get_temp_path_eq)
  ultimately show "owned (\<lambda>p. p) ''d'' (\<lambda>_. 7) (manager guarded_server) (store guarded_server)"
    by (auto simp: owned_def ids_fresh_def plain_names_def names_owned_def streams_owned_def fields)
      (simp_all add: guarded_server_def plain_name_def)
qed

lemma intruder_message:
  "handle_message ref_externals sample_os ''d'' 0 (intruder_session\<lparr>pending_read := NoRead, sess_body := intruder_chunk\<rparr>)
     FILE_CHUNK intruder_chunk srv = (Inr (), srv)"
  if "get_transfer (manager srv) 7 = Some guarded_transfer"
  using that FileChunk_roundtrip [of "\<lparr>chunk_transfer_id = 7, chunk_index = 0, chunk_data = [9]\<rparr>"]
  by (intro wp_run) (simp add: handle_message_def handle_file_chunk_def wp_simps intruder_chunk_def intruder_session_def
      set_auth_def is_authenticated_def TcpSession_new_def guarded_transfer_def sample_transfer_def)

lemma intruder_session_simps [simp]:
  "sessions guarded_server 0 = Some intruder_session" "pending_read intruder_session = ReadBody"
  "length (sess_body intruder_session) = 13" "length intruder_chunk = 13"
  "hdr_type (sess_header intruder_session) = msg_code FILE_CHUNK"
  "is_authenticated intruder_session" "sess_user_id intruder_session = 5"
  by (simp_all add: guarded_server_def intruder_session_def set_auth_def TcpSession_new_def make_header_def
      is_authenticated_def) (simp add: intruder_chunk_def FileChunk_serialize_def)

lemma guarded_run:
  obtains srv where "apart_run ref_externals ''d'' (\<lambda>p. p) {7} guarded_server srv"
    and "run_event ref_externals sample_os ''d'' (BodyDone 0 False intruder_chunk) guarded_server = (Inr (), srv)"
proof -
  have get: "get_transfer (manager guarded_server) 7 = Some guarded_transfer"
    by (simp add: guarded_server_def get_transfer_def)
  let ?srv1 = "modify_session 0 (\<lambda>s. s\<lparr>pending_read := NoRead, sess_body := transferred intruder_chunk (sess_body s)\<rparr>)
    guarded_server"
  have "run_event ref_externals sample_os ''d'' (BodyDone 0 False intruder_chunk) guarded_server =
      (Inr (), release 0 (do_read_header 0 ?srv1))"
    using intruder_message [of ?srv1] get
    by (simp add: on_body_def Let_def transferred_def sbind_def)
  moreover from apart_run.step [OF apart_run.stop _ this]
  have "apart_run ref_externals ''d'' (\<lambda>p. p) {7} guarded_server (release 0 (do_read_header 0 ?srv1))"
    using get by (auto simp: sample_os_def guarded_server_def plain_offer_def concerns_def guarded_transfer_def
        sample_transfer_def)
  ultimately show thesis using that by blast
qed

theorem transfer_isolated_witness:
  "\<exists>srv. apart_run ref_externals ''d'' (\<lambda>p. p) {7} guarded_server srv \<and>
     get_transfer (manager srv) 7 = Some guarded_transfer \<and> contents (store srv) 0 = contents (store guarded_server) 0"
proof -
  obtain srv where run: "apart_run ref_externals ''d'' (\<lambda>p. p) {7} guarded_server srv"
    by (rule guarded_run)
  have t: "get_transfer (manager guarded_server) 7 = Some guarded_transfer"
    by (simp add: guarded_server_def get_transfer_def)
  from transfer_isolated [OF separates_id guarded_ok run t] run show ?thesis
    by (auto simp: guarded_store guarded_transfer_def sample_transfer_def)
qed

text \<open>
  C29: Without that restriction transfers are not isolated. The receiver of one transfer, by
  accepting it, empties the file of another transfer that is receiving, when the name it was
  offered leads out of its directory to the temporary file of the other one; the other transfer
  keeps its state and its counters.
\<close>

theorem foreign_accept_truncates:
  assumes "disk_ok os" and "receiving os base tid name uid h f got n (manager srv) (store srv)"
    and "is_authenticated s" and "get_transfer (manager srv) tid' = Some t'" and "tid' \<noteq> tid"
    and "receiver_user_id t' = sess_user_id s"
    and "resolve os (c_str (get_temp_path base tid' (filename t'))) = resolve os (c_str (get_temp_path base tid name))"
  shows "\<exists>srv'. handle_message X os base c s FILE_ACCEPT_REQ (file_accept_payload tid' True) srv = (Inr (), srv') \<and>
    get_transfer (manager srv') tid = get_transfer (manager srv) tid \<and> contents (store srv') f = []"
proof -
  obtain h' f' st' where o: "open_for_write os base tid' (filename t') (store srv) = (Some h', st')"
    by (rule open_receiving [OF assms(1)])
  have c: "contents st' f = []"
    using opened_state(2) [OF o] assms(2,7) by (simp add: receiving_def Let_def)
  have des: "FileAcceptReq_deserialize (file_accept_payload tid' True) =
      Inr \<lparr>areq_transfer_id = tid', areq_accept = True\<rparr>"
    using FileAcceptReq_roundtrip by (simp add: client_file_payloads)
  have "wp (handle_message X os base c s FILE_ACCEPT_REQ (file_accept_payload tid' True))
    (\<lambda>r srv'. r = Inr () \<and> get_transfer (manager srv') tid = get_transfer (manager srv) tid \<and> store srv' = st') srv"
    using assms(3-6) o des
    by (simp add: handle_message_def handle_file_accept_req_def wp_simps split: option.split)
  with c show ?thesis unfolding wp_def by (metis prod.collapse)
qed

text \<open>Paths as a file system without links resolves them: \<open>..\<close> leaves a directory.\<close>

fun path_parts :: "string \<Rightarrow> string \<Rightarrow> string list" where
  "path_parts part [] = [rev part]"
| "path_parts part (c # cs) =
     (if c = CHR ''/'' then rev part # path_parts [] cs else path_parts (c # part) cs)"

fun walk :: "string list \<Rightarrow> string list \<Rightarrow> string list" where
  "walk dir [] = dir"
| "walk dir (p # ps) =
     (if p = ''..'' then walk (tl dir) ps else if p = ''.'' \<or> p = [] then walk dir ps else walk (p # dir) ps)"

definition walked :: "string \<Rightarrow> string" where
  "walked p = concat (map (\<lambda>d. CHR ''/'' # d) (rev (walk [] (path_parts [] p))))"

definition walking_os :: os_answers where
  "walking_os = sample_os\<lparr>resolve := walked\<rparr>"

text \<open>Transfer 7 is receiving; transfer 8 was offered to eve under a name that leads to its file.\<close>

definition crossed_transfer :: TransferSession where
  "crossed_transfer = sample_transfer\<lparr>transfer_id := 8, receiver_user_id := 5, filename := ''../7/a.txt'',
     tstate := OFFERED, file_handle := None\<rparr>"

definition crossed_server :: "pg_world server" where
  "crossed_server = guarded_server\<lparr>
     manager := \<lparr>next_transfer_id = 9, transfers = [(7, guarded_transfer\<lparr>bytes_received := 2\<rparr>), (8, crossed_transfer)]\<rparr>,
     store := \<lparr>names = [walked (get_temp_path ''d'' 7 ''a.txt'') \<mapsto> 0], contents = (\<lambda>_. [1, 2]), next_file = 1,
       streams = [0 \<mapsto> (0, 2)], next_stream = 1, buffer = (\<lambda>_. [])\<rparr>\<rparr>"

lemma crossed_paths:
  "walked (c_str (get_temp_path ''d'' 8 ''../7/a.txt'')) = walked (c_str (get_temp_path ''d'' 7 ''a.txt''))"
  "c_str (get_temp_path ''d'' 7 ''a.txt'') = get_temp_path ''d'' 7 ''a.txt''"
  by code_simp+

theorem foreign_accept_truncates_witness:
  "contents (store crossed_server) 0 = [1, 2] \<and>
   (\<exists>srv'. handle_message ref_externals walking_os ''d'' 0 intruder_session FILE_ACCEPT_REQ
       (file_accept_payload 8 True) crossed_server = (Inr (), srv') \<and> contents (store srv') 0 = [])"
proof -
  have rec: "receiving walking_os ''d'' 7 ''a.txt'' 1 0 0 [1, 2] 0 (manager crossed_server) (store crossed_server)"
    by (simp add: receiving_def crossed_server_def get_transfer_def guarded_transfer_def sample_transfer_def
        live_state_def walking_os_def crossed_paths)
  have disk: "disk_ok walking_os" by (simp add: disk_ok_def walking_os_def sample_os_def)
  have t': "get_transfer (manager crossed_server) 8 = Some crossed_transfer"
    by (simp add: crossed_server_def get_transfer_def)
  have "contents (store crossed_server) 0 = [1, 2]" by (simp add: crossed_server_def)
  moreover have "resolve walking_os (c_str (get_temp_path ''d'' 8 (filename crossed_transfer))) =
      resolve walking_os (c_str (get_temp_path ''d'' 7 ''a.txt''))"
    using crossed_paths(1) by (simp add: walking_os_def crossed_transfer_def)
  ultimately show ?thesis
    using foreign_accept_truncates [OF disk rec _ t', of intruder_session ref_externals 0]
    by (auto simp: crossed_transfer_def sample_transfer_def)
qed

end
