(* ===== verification/FsxQueue.thy ===== *)
theory FsxQueue
  imports FsxInvariants
begin

text \<open>
  The write queue of a session as a first-in first-out queue: over any run of the server, what
  reaches the socket of a connection and what is still queued for it is what was queued before,
  followed by what was sent in between. A queue that is not empty is being written, and empties
  when its writes succeed; after a write that failed nothing is written any more.
\<close>

section \<open>Runs\<close>

text \<open>What an event puts on the socket of connection \<open>c\<close>: a write that succeeded, its frame.\<close>

fun wire :: "nat \<Rightarrow> 'w server \<Rightarrow> event \<Rightarrow> bytes list" where
  "wire c srv (WriteDone d ec) =
     (if d = c \<and> \<not> ec then (case sessions srv c of Some s \<Rightarrow> take 1 (outq s) | None \<Rightarrow> []) else [])"
| "wire c srv (AcceptDone ec) = []"
| "wire c srv (HeaderDone d ec bs) = []"
| "wire c srv (BodyDone d ec bs) = []"

inductive server_run ::
  "'w externals \<Rightarrow> string \<Rightarrow> nat \<Rightarrow> 'w server \<Rightarrow> event list \<Rightarrow> bytes list \<Rightarrow> 'w server \<Rightarrow> bool"
  for X :: "'w externals" and base :: string and c :: nat where
  stop: "server_run X base c srv [] [] srv"
| step: "server_step X base srv ev srv1 \<Longrightarrow> server_run X base c srv1 evs w srv2 \<Longrightarrow>
           server_run X base c srv (ev # evs) (wire c srv ev @ w) srv2"


section \<open>What connections there are\<close>

text \<open>Connections are numbered in the order in which they were accepted; no number is used twice.\<close>

definition known :: "nat \<Rightarrow> 'w server \<Rightarrow> bool" where
  "known c srv \<longleftrightarrow> c < next_conn srv"

definition gone :: "nat \<Rightarrow> 'w server \<Rightarrow> bool" where
  "gone c srv \<longleftrightarrow> c < next_conn srv \<and> sessions srv c = None"

definition conns_ok :: "'w server \<Rightarrow> bool" where
  "conns_ok srv \<longleftrightarrow> (\<forall>c s. sessions srv c = Some s \<longrightarrow> c < next_conn srv)"

text \<open>The frames of the messages that were given to \<open>send\<close> for connection \<open>c\<close>, among \<open>ms\<close>.\<close>

definition sent_to :: "nat \<Rightarrow> (nat \<times> MsgType \<times> bytes) list \<Rightarrow> bytes list" where
  "sent_to c ms = map (\<lambda>(d, t, p). frame t p) (filter (\<lambda>(d, t, p). d = c) ms)"

lemma sent_to_simps [simp]:
  "sent_to c [] = []" "sent_to c (ms @ ns) = sent_to c ms @ sent_to c ns"
  "sent_to c [(d, t, p)] = (if d = c then [frame t p] else [])"
  by (simp_all add: sent_to_def)

text \<open>
  The queue of connection \<open>c\<close> is \<open>q\<close>, followed by what was sent to it since the history was \<open>l\<close>.
\<close>

definition appended ::
  "nat \<Rightarrow> bytes list \<Rightarrow> (nat \<times> MsgType \<times> bytes) list \<Rightarrow> 'w server \<Rightarrow> bool" where
  "appended c q l srv \<longleftrightarrow> c < next_conn srv \<and>
     (\<exists>ms. sent_log srv = l @ ms \<and> (\<forall>s. sessions srv c = Some s \<longrightarrow> outq s = q @ sent_to c ms))"

text \<open>A queue that is not empty is being written.\<close>

definition progressing :: "nat \<Rightarrow> 'w server \<Rightarrow> bool" where
  "progressing c srv \<longleftrightarrow> (\<forall>s. sessions srv c = Some s \<longrightarrow> outq s \<noteq> [] \<longrightarrow> pending_write s)"

text \<open>The queue of connection \<open>c\<close> is stuck: there is something to write, and no write.\<close>

definition stalled :: "nat \<Rightarrow> 'w server \<Rightarrow> bool" where
  "stalled c srv \<longleftrightarrow>
     c < next_conn srv \<and> (\<forall>s. sessions srv c = Some s \<longrightarrow> outq s \<noteq> [] \<and> \<not> pending_write s)"

lemmas queue_defs = gone_def conns_ok_def appended_def progressing_def stalled_def

lemma next_conn_offline [simp]: "next_conn (online_remove c srv) = next_conn srv"
  by (simp add: online_remove_def case_prod_unfold Let_def split: option.split)

lemma next_conn_release [simp]: "next_conn (release c srv) = next_conn srv"
  by (simp add: release_def split: option.split)

lemma next_conn_written [simp]: "next_conn (on_written c ec srv) = next_conn srv"
  by (simp add: on_written_def Let_def)

lemma sent_log_kept [simp]:
  "sent_log (online_remove c srv) = sent_log srv" "sent_log (release c srv) = sent_log srv"
  "sent_log (on_written c ec srv) = sent_log srv" "sent_log (on_accept False srv) = sent_log srv"
  by (simp_all add: online_remove_def release_def on_written_def on_accept_def TcpSession_start_def
      do_read_header_def case_prod_unfold Let_def split: option.split)

lemma sessions_release:
  "sessions (release d srv) c =
     (case sessions srv c of
        None \<Rightarrow> None
      | Some s \<Rightarrow> if c = d \<and> pending_read s = NoRead \<and> \<not> pending_write s then None else Some s)"
  by (auto simp: release_def split: option.split)

lemma sessions_offline:
  "sessions (online_remove d srv) c =
     (case sessions srv c of
        None \<Rightarrow> None
      | Some s \<Rightarrow> Some (if c = d \<and> is_authenticated s then clear_auth s else s))"
  by (auto simp: online_remove_def is_authenticated_def case_prod_unfold Let_def split: option.split)

lemma sessions_accept:
  "sessions (on_accept False srv) c =
     (if c = next_conn srv then Some (TcpSession_new\<lparr>pending_read := ReadHeader\<rparr>) else sessions srv c)"
  by (simp add: on_accept_def TcpSession_start_def do_read_header_def Let_def)

lemma next_conn_accept [simp]: "next_conn (on_accept False srv) = next_conn srv + 1"
  by (simp add: on_accept_def TcpSession_start_def do_read_header_def Let_def)

lemma clear_auth_fields [simp]:
  "outq (clear_auth s) = outq s" "pending_write (clear_auth s) = pending_write s"
  "pending_read (clear_auth s) = pending_read s"
  by (simp_all add: clear_auth_def)

lemma set_auth_fields [simp]:
  "outq (set_auth t i n s) = outq s" "pending_write (set_auth t i n s) = pending_write s"
  "pending_read (set_auth t i n s) = pending_read s"
  by (simp_all add: set_auth_def)

text \<open>The completion of a write.\<close>

lemma sessions_written:
  "sessions (on_written d ec srv) c =
     (case sessions srv c of
        None \<Rightarrow> None
      | Some s \<Rightarrow> Some (
          if c \<noteq> d then s
          else if ec then (if is_authenticated s then clear_auth (s\<lparr>pending_write := False\<rparr>)
                           else s\<lparr>pending_write := False\<rparr>)
          else s\<lparr>outq := tl (outq s), pending_write := (tl (outq s) \<noteq> [])\<rparr>))"
  by (auto simp: on_written_def sessions_offline do_write_def is_authenticated_def Let_def
      split: option.split)

interpretation known: session_property "known c" for c
  by unfold_locales (auto simp: known_def)

interpretation gone: session_property "gone c" for c
  by unfold_locales (auto simp: queue_defs)

interpretation conns: session_property conns_ok
  by unfold_locales (auto simp: queue_defs split: if_splits)

interpretation appended: session_property "appended c q l" for c q l
proof unfold_locales
  fix srv :: "'a server" and d t p
  assume "appended c q l srv"
  then obtain ms where ms: "c < next_conn srv" "sent_log srv = l @ ms"
      "\<forall>s. sessions srv c = Some s \<longrightarrow> outq s = q @ sent_to c ms"
    by (auto simp: appended_def)
  then show "appended c q l (send d t p srv)"
    unfolding appended_def by (intro conjI exI [of _ "ms @ [(d, t, p)]"]) (auto split: if_splits)
qed (auto simp: queue_defs split: if_splits)

interpretation progressing: session_property "progressing c" for c
  by unfold_locales (auto simp: queue_defs split: if_splits)

interpretation stalled: session_property "stalled c" for c
  by unfold_locales (auto simp: queue_defs split: if_splits)

lemmas session_steps = sessions_release sessions_offline sessions_accept sessions_written

interpretation known_stable: server_stable X base "known c" for X base c
proof unfold_locales
  fix srv :: "'a server" and d s os t p srv'
  assume "known c srv" and "handle_message X os base d s t p srv = (Inr (), srv')"
  then show "known c srv'" using wp_apply [OF known.message_keeps] by blast
qed (auto simp: known_def)

interpretation gone_stable: server_stable X base "gone c" for X base c
proof unfold_locales
  fix srv :: "'a server" and d s os t p srv'
  assume "gone c srv" and "handle_message X os base d s t p srv = (Inr (), srv')"
  then show "gone c srv'" using wp_apply [OF gone.message_keeps] by blast
qed (auto simp: gone_def session_steps)

interpretation conns_inv: server_invariant X base w0 conns_ok for X base w0
proof unfold_locales
  fix srv :: "'a server" and d s os t p srv'
  assume "conns_ok srv" and "handle_message X os base d s t p srv = (Inr (), srv')"
  then show "conns_ok srv'" using wp_apply [OF conns.message_keeps] by blast
qed (auto simp: conns_ok_def session_steps server_init_def less_Suc_eq split: if_splits option.splits)

interpretation appended_stable: read_stable X base "appended c q l" for X base c q l
proof unfold_locales
  fix srv :: "'a server" and d s os t p srv'
  assume "appended c q l srv" and "handle_message X os base d s t p srv = (Inr (), srv')"
  then show "appended c q l srv'" using wp_apply [OF appended.message_keeps] by blast
qed (auto simp: appended_def session_steps split: if_splits option.splits)

interpretation progressing_stable: read_stable X base "progressing c" for X base c
proof unfold_locales
  fix srv :: "'a server" and d s os t p srv'
  assume "progressing c srv" and "handle_message X os base d s t p srv = (Inr (), srv')"
  then show "progressing c srv'" using wp_apply [OF progressing.message_keeps] by blast
qed (auto simp: progressing_def session_steps TcpSession_new_def split: if_splits option.splits)

interpretation stalled_stable: server_stable X base "stalled c" for X base c
proof unfold_locales
  fix srv :: "'a server" and d s os t p srv'
  assume "stalled c srv" and "handle_message X os base d s t p srv = (Inr (), srv')"
  then show "stalled c srv'" using wp_apply [OF stalled.message_keeps] by blast
qed (auto simp: stalled_def session_steps split: if_splits option.splits)

section \<open>One step\<close>

lemma step_gone:
  "gone c srv \<Longrightarrow> server_step X base srv ev srv' \<Longrightarrow> gone c srv'"
  by (rule gone_stable.inv_step)

lemma step_fifo:
  assumes step: "server_step X base srv ev srv1" and known: "c < next_conn srv"
    and s1: "sessions srv1 c = Some s1" and queues: "queues_ok srv"
  shows "\<exists>s ms. sessions srv c = Some s \<and> sent_log srv1 = sent_log srv @ ms \<and>
    outq s @ sent_to c ms = wire c srv ev @ outq s1"
proof -
  have "sessions srv c \<noteq> None"
    using step_gone [OF _ step, of c] known s1 by (auto simp: gone_def)
  then obtain s where s: "sessions srv c = Some s" by blast
  obtain os where en: "enabled srv ev" and run: "run_event X os base ev srv = (Inr (), srv1)"
    using step by (rule server_step_cases)
  show ?thesis
  proof (cases "\<exists>d ec. ev = WriteDone d ec")
    case True
    then obtain d ec where ev: "ev = WriteDone d ec" by blast
    have "outq s \<noteq> []" if "d = c"
      using en ev s queues that by (auto simp: queues_ok_def queue_ok_def)
    with s s1 run ev show ?thesis
      by (cases "outq s") (auto simp: session_steps split: if_splits)
  next
    case False
    then have "wire c srv ev = []" by (cases ev) auto
    moreover have "appended c (outq s) (sent_log srv) srv" using s known by (simp add: appended_def)
    from appended_stable.inv_event [OF this run] False s1
    obtain ms where "sent_log srv1 = sent_log srv @ ms" "outq s1 = outq s @ sent_to c ms"
      by (auto simp: appended_def)
    ultimately show ?thesis using s by auto
  qed
qed


section \<open>Over a run\<close>

lemma run_known: "server_run X base c srv evs w srv' \<Longrightarrow> known d srv \<Longrightarrow> known d srv'"
  by (induction rule: server_run.induct) (auto intro: known_stable.inv_step)

lemma run_gone: "server_run X base c srv evs w srv' \<Longrightarrow> gone d srv \<Longrightarrow> gone d srv'"
  by (induction rule: server_run.induct) (auto intro: step_gone)

lemma run_reachable: "server_run X base c srv evs w srv' \<Longrightarrow> reachable X base w0 srv \<Longrightarrow> reachable X base w0 srv'"
  by (induction rule: server_run.induct) (auto intro: reachable.step)

lemma run_fifo:
  assumes "server_run X base c srv evs w srv'" and "queues_ok srv" and "known c srv"
    and "sessions srv' c = Some s'"
  shows "\<exists>s ms. sessions srv c = Some s \<and> sent_log srv' = sent_log srv @ ms \<and>
    outq s @ sent_to c ms = w @ outq s'"
  using assms
proof (induction arbitrary: s' rule: server_run.induct)
  case (stop srv)
  then show ?case by auto
next
  case (step srv ev srv1 evs w srv2)
  have "queues_ok srv1" using queues.inv_step step by blast
  moreover have "known c srv1" using known_stable.inv_step step by blast
  ultimately obtain s1 ms1 where s1: "sessions srv1 c = Some s1" "sent_log srv2 = sent_log srv1 @ ms1"
      "outq s1 @ sent_to c ms1 = w @ outq s'"
    using step.IH step.prems by blast
  obtain s ms where s: "sessions srv c = Some s" "sent_log srv1 = sent_log srv @ ms"
      "outq s @ sent_to c ms = wire c srv ev @ outq s1"
    using step_fifo [OF step.hyps(1) _ s1(1)] step.prems by (auto simp: known_def)
  have "outq s @ sent_to c (ms @ ms1) = (wire c srv ev @ w) @ outq s'"
    using s(3) s1(3) by (metis append.assoc sent_to_simps(2))
  with s(1,2) s1(2) show ?case by (intro exI [of _ s] exI [of _ "ms @ ms1"]) simp
qed

text \<open>Nothing is written of a queue that is stuck.\<close>

lemma run_stalled: "server_run X base c srv evs w srv' \<Longrightarrow> stalled c srv \<Longrightarrow> w = [] \<and> stalled c srv'"
proof (induction rule: server_run.induct)
  case (step srv ev srv1 evs w srv2)
  have "wire c srv ev = []"
    using step.hyps(1) step.prems
    by (cases ev) (auto simp: stalled_def elim!: server_step_cases split: option.splits)
  with step stalled_stable.inv_step show ?case by force
qed simp

text \<open>Unless a write of the connection failed, its queue is being written.\<close>

lemma step_progressing:
  assumes "server_step X base srv ev srv'" and "progressing c srv" and "ev \<noteq> WriteDone c True"
  shows "progressing c srv'"
proof -
  obtain os where run: "run_event X os base ev srv = (Inr (), srv')"
    using assms(1) by (rule server_step_cases)
  show ?thesis
  proof (cases "\<exists>d ec. ev = WriteDone d ec")
    case True
    with run assms(2,3) show ?thesis
      by (auto simp: progressing_def session_steps split: option.splits if_splits)
  next
    case False
    with progressing_stable.inv_event [OF assms(2) run] show ?thesis by blast
  qed
qed

lemma run_progressing:
  "server_run X base c srv evs w srv' \<Longrightarrow> progressing d srv \<Longrightarrow> WriteDone d True \<notin> set evs \<Longrightarrow>
     progressing d srv'"
  by (induction rule: server_run.induct) (auto intro: step_progressing)

text \<open>A queue that is being written empties when its writes succeed.\<close>

lemma queue_drains:
  assumes "sessions srv c = Some s" and "outq s \<noteq> [] \<longrightarrow> pending_write s"
  shows "\<exists>srv'. server_run X base c srv (replicate (length (outq s)) (WriteDone c False)) (outq s) srv' \<and>
    (\<forall>s'. sessions srv' c = Some s' \<longrightarrow> outq s' = [])"
  using assms
proof (induction "outq s" arbitrary: srv s)
  case Nil
  then show ?case using server_run.stop [of X base c srv] by force
next
  case (Cons f q)
  let ?srv1 = "release c (on_written c False srv)"
  let ?s1 = "s\<lparr>outq := q, pending_write := (q \<noteq> [])\<rparr>"
  have f: "outq s = f # q" "pending_write s" using Cons.hyps(2) Cons.prems(2) by auto
  have step: "server_step X base srv (WriteDone c False) ?srv1"
    using Cons.prems(1) f by (intro server_step.run) simp_all
  have wire: "wire c srv (WriteDone c False) = [f]" using Cons.prems(1) f by simp
  show ?case
  proof (cases "sessions ?srv1 c")
    case None
    then have "q = []" using Cons.prems(1) f by (auto simp: session_steps split: if_splits)
    with server_run.step [OF step server_run.stop [of X base c]] wire f None show ?thesis by force
  next
    case (Some s1)
    then have s1: "s1 = ?s1" using Cons.prems(1) f by (auto simp: session_steps split: if_splits)
    obtain srv' where "server_run X base c ?srv1 (replicate (length q) (WriteDone c False)) q srv'"
      and "\<forall>s'. sessions srv' c = Some s' \<longrightarrow> outq s' = []"
      using Cons.hyps(1) [of s1 ?srv1] Some s1 by auto
    with server_run.step [OF step] wire f show ?thesis by force
  qed
qed

section \<open>Properties\<close>

text \<open>
  C10: Every connection has a first-in first-out stream of frames: over any run of the server, what
  was queued at the beginning, followed by one frame for each message that was given to \<open>send\<close> for
  this connection in between, in the order of the calls, is what the run wrote to the socket
  followed by what is still queued. Nothing is lost, doubled, invented or overtaken.
\<close>

theorem write_queue_fifo:
  assumes "reachable X base w0 srv" and "server_run X base c srv evs w srv'"
    and "sessions srv c = Some s" and "sessions srv' c = Some s'"
  shows "\<exists>ms. sent_log srv' = sent_log srv @ ms \<and>
    outq s @ [frame t p. (d, t, p) \<leftarrow> ms, d = c] = w @ outq s'"
proof -
  have "queues_ok srv" and "known c srv"
    using queues.inv_reachable [OF assms(1)] conns_inv.inv_reachable [OF assms(1)] assms(3)
    by (auto simp: conns_ok_def known_def)
  moreover have "[frame t p. (d, t, p) \<leftarrow> ms, d = c] = sent_to c ms" for ms
    by (induction ms) (auto simp: sent_to_def)
  ultimately show ?thesis using run_fifo [OF assms(2) _ _ assms(4)] assms(3) by auto
qed

text \<open>
  C17: What is queued gets written: as long as no write of the connection failed since it was
  accepted, the completions of its pending writes, if they succeed, write every queued frame, in
  order, and leave the queue empty.
\<close>

theorem queued_frames_get_written:
  assumes "server_run X base c (server_init w0) evs w srv" and "WriteDone c True \<notin> set evs"
    and "sessions srv c = Some s"
  shows "\<exists>srv'. server_run X base c srv (replicate (length (outq s)) (WriteDone c False)) (outq s) srv' \<and>
    (\<forall>s'. sessions srv' c = Some s' \<longrightarrow> outq s' = [])"
proof (rule queue_drains [OF assms(3)])
  have "progressing c (server_init w0)" by (simp add: progressing_def server_init_def)
  from run_progressing [OF assms(1) this assms(2)] assms(3)
  show "outq s \<noteq> [] \<longrightarrow> pending_write s" by (simp add: progressing_def)
qed

text \<open>
  C28: After a failed write the connection is mute: its reading goes on as before, but whatever
  happens afterwards, no frame is written to it any more, because the frame that failed stays at
  the front of the queue.
\<close>

theorem failed_write_silences:
  assumes "reachable X base w0 srv" and "server_step X base srv (WriteDone c True) srv1"
    and "server_run X base c srv1 evs w srv'"
  shows "w = [] \<and> (\<forall>s s1. sessions srv c = Some s \<longrightarrow> sessions srv1 c = Some s1 \<longrightarrow>
    pending_read s1 = pending_read s \<and> outq s1 = outq s \<and> outq s1 \<noteq> [])"
proof -
  obtain s where s: "sessions srv c = Some s" "pending_write s"
    and srv1: "srv1 = release c (on_written c True srv)"
    using assms(2) by (auto elim!: server_step_cases split: option.splits)
  have "outq s \<noteq> []"
    using queues.inv_reachable [OF assms(1)] s by (auto simp: queues_ok_def queue_ok_def)
  moreover have "c < next_conn srv"
    using conns_inv.inv_reachable [OF assms(1)] s(1) by (auto simp: conns_ok_def)
  ultimately have st: "stalled c srv1"
    using s by (auto simp: srv1 stalled_def session_steps)
  have "pending_read s1 = pending_read s \<and> outq s1 = outq s \<and> outq s1 \<noteq> []"
    if "sessions srv1 c = Some s1" for s1
    using that s \<open>outq s \<noteq> []\<close> by (auto simp: srv1 session_steps split: if_splits)
  with run_stalled [OF assms(3) st] s(1) show ?thesis by (metis option.inject)
qed

text \<open>A connection that was accepted and sent a PING.\<close>

definition pinged :: "pg_world server" where
  "pinged = snd (run_event ref_externals sample_os ''d''
     (HeaderDone 0 False (header_bytes (make_header PING 0))) (on_accept False (server_init pg_world_init)))"

lemma ping_session:
  "sessions (on_accept False (server_init pg_world_init)) 0 = Some (TcpSession_new\<lparr>pending_read := ReadHeader\<rparr>)"
  by (simp add: sessions_accept) (simp add: server_init_def)

lemma ping_run:
  "run_event ref_externals sample_os ''d''
     (HeaderDone 0 False (header_bytes (make_header PING 0))) (on_accept False (server_init pg_world_init)) =
   (Inr (), pinged)"
  "\<exists>s. sessions pinged 0 = Some s \<and> outq s = [frame PONG (string_bytes ''pong'')] \<and> pending_write s \<and>
     pending_read s = ReadHeader"
  by (simp_all add: pinged_def on_header_def ping_session Let_def transferred_def HEADER_SIZE_def do_read_body_def
      handle_message_def reply_def sbind_def modify_session_modify release_def do_read_header_def comp_def
      TcpSession_new_def)

lemma ping_steps:
  "server_step ref_externals ''d'' (server_init pg_world_init) (AcceptDone False)
     (on_accept False (server_init pg_world_init))"
  "server_step ref_externals ''d'' (on_accept False (server_init pg_world_init))
     (HeaderDone 0 False (header_bytes (make_header PING 0))) pinged"
  using ping_run(1) by (auto intro!: server_step.run simp: ping_session HEADER_SIZE_def)

lemma ping_server_run:
  "server_run ref_externals ''d'' 0 (server_init pg_world_init)
     [AcceptDone False, HeaderDone 0 False (header_bytes (make_header PING 0))] [] pinged"
  using server_run.step [OF ping_steps(1) server_run.step [OF ping_steps(2) server_run.stop]] by simp

lemma ping_reachable: "reachable ref_externals ''d'' pg_world_init pinged"
  using run_reachable [OF ping_server_run reachable.start] .

theorem queued_frames_get_written_witness:
  "\<exists>srv'. server_run ref_externals ''d'' 0 pinged [WriteDone 0 False]
     [frame PONG (string_bytes ''pong'')] srv'"
proof -
  obtain s where s: "sessions pinged 0 = Some s" "outq s = [frame PONG (string_bytes ''pong'')]"
    using ping_run(2) by blast
  from queued_frames_get_written [OF ping_server_run _ s(1)] s(2) show ?thesis by auto
qed

theorem write_queue_fifo_witness:
  "\<exists>s s' ms. sessions (on_accept False (server_init pg_world_init)) 0 = Some s \<and> sessions pinged 0 = Some s' \<and>
     sent_log pinged = sent_log (on_accept False (server_init pg_world_init)) @ ms \<and>
     outq s @ [frame t p. (d, t, p) \<leftarrow> ms, d = 0] = [] @ outq s' \<and>
     outq s' = [frame PONG (string_bytes ''pong'')]"
proof -
  let ?srv = "on_accept False (server_init pg_world_init)"
  have r: "reachable ref_externals ''d'' pg_world_init ?srv"
    by (rule reachable.step [OF reachable.start ping_steps(1)])
  have run: "server_run ref_externals ''d'' 0 ?srv
      [HeaderDone 0 False (header_bytes (make_header PING 0))] [] pinged"
    using server_run.step [OF ping_steps(2) server_run.stop] by simp
  obtain s' where s': "sessions pinged 0 = Some s'" "outq s' = [frame PONG (string_bytes ''pong'')]"
    using ping_run(2) by blast
  from write_queue_fifo [OF r run ping_session s'(1)] s' ping_session show ?thesis by blast
qed

theorem failed_write_silences_witness:
  "\<exists>srv1. server_step ref_externals ''d'' pinged (WriteDone 0 True) srv1 \<and>
     (\<forall>evs w srv'. server_run ref_externals ''d'' 0 srv1 evs w srv' \<longrightarrow> w = [])"
proof -
  obtain s where "sessions pinged 0 = Some s" "pending_write s"
    using ping_run(2) by blast
  then have "server_step ref_externals ''d'' pinged (WriteDone 0 True) (release 0 (on_written 0 True pinged))"
    by (intro server_step.run) simp_all
  with failed_write_silences [OF ping_reachable this] show ?thesis by blast
qed

end
