(* ===== verification/FsxAnswers.thy ===== *)
theory FsxAnswers
  imports FsxOnline FsxQueue
begin

text \<open>
  Every request is answered exactly once: over a database that keeps its promises, the handler of
  a request returns and queues one frame for the session, the response of the request's type; no
  other queue changes, but that of the session an acceptance is passed on to. And what a second
  login on the same connection does to the online list.
\<close>

section \<open>Requests and responses\<close>

text \<open>The message types with a response; the others are dropped or answered later.\<close>

definition response_type :: "MsgType \<Rightarrow> MsgType option" where
  "response_type t =
     (if t = PING then Some PONG
      else if t = REGISTER_REQ then Some REGISTER_RESP
      else if t = LOGIN_REQ then Some LOGIN_RESP
      else if t = ONLINE_LIST_REQ then Some ONLINE_LIST_RESP
      else if t = FILE_OFFER_REQ then Some FILE_OFFER_RESP
      else if t = FILE_ACCEPT_REQ then Some FILE_ACCEPT_RESP
      else None)"

text \<open>From \<open>srv0\<close> on, the messages \<open>ms\<close> were queued, each behind what its session had, and nothing else.\<close>

definition said :: "(nat \<times> MsgType \<times> bytes) list \<Rightarrow> 'w server \<Rightarrow> 'w server \<Rightarrow> bool" where
  "said ms srv0 srv \<longleftrightarrow>
     (\<forall>d s. sessions srv0 d = Some s \<longrightarrow> (\<exists>s'. sessions srv d = Some s' \<and> outq s' = outq s @ sent_to d ms))"

lemma said_start [simp]: "said [] srv srv"
  by (simp add: said_def)

lemma said_other [simp]:
  "said ms srv0 (srv\<lparr>world := w\<rparr>) = said ms srv0 srv" "said ms srv0 (srv\<lparr>manager := m\<rparr>) = said ms srv0 srv"
  "said ms srv0 (srv\<lparr>store := st\<rparr>) = said ms srv0 srv" "said ms srv0 (srv\<lparr>registry := reg\<rparr>) = said ms srv0 srv"
  by (simp_all add: said_def)

lemma said_auth: "said ms srv0 srv \<Longrightarrow> said ms srv0 (modify_session e (set_auth t i n) srv)"
  unfolding said_def
proof (intro allI impI)
  fix d s
  assume "\<forall>d s. sessions srv0 d = Some s \<longrightarrow>
    (\<exists>s'. sessions srv d = Some s' \<and> outq s' = outq s @ sent_to d ms)" and "sessions srv0 d = Some s"
  then obtain s' where "sessions srv d = Some s'" "outq s' = outq s @ sent_to d ms" by blast
  then show "\<exists>s'. sessions (modify_session e (set_auth t i n) srv) d = Some s' \<and> outq s' = outq s @ sent_to d ms"
    by (cases "d = e") (auto simp: set_auth_def)
qed

lemma said_send: "said ms srv0 srv \<Longrightarrow> said (ms @ [(d, t, p)]) srv0 (send d t p srv)"
  by (fastforce simp: said_def split: if_splits)

text \<open>
  What an acceptance \<open>p\<close> of the user \<open>u\<close> is passed on as: the decision, to the session that the
  token of the offer leads to.
\<close>

definition decision :: "bool \<Rightarrow> FileAcceptResp" where
  "decision yes = (if yes then accept_ok else accept_fail ''Receiver rejected'')"

definition passed_on :: "'w server \<Rightarrow> int \<Rightarrow> bytes \<Rightarrow> (nat \<times> MsgType \<times> bytes) list \<Rightarrow> bool" where
  "passed_on srv u p notes \<longleftrightarrow>
     (\<exists>m tr d. FileAcceptReq_deserialize p = Inr m \<and>
        get_transfer (manager srv) (areq_transfer_id m) = Some tr \<and> receiver_user_id tr = u \<and>
        get_session (sessions srv) (registry srv) (sender_token tr) = Some d \<and>
        notes = [(d, FILE_ACCEPT_RESP, FileAcceptResp_serialize (decision (areq_accept m)))])"

definition answered :: "'w server \<Rightarrow> nat \<Rightarrow> MsgType \<Rightarrow> 'w server \<Rightarrow> bool" where
  "answered srv0 c r srv \<longleftrightarrow> (\<exists>payload. said [(c, r, payload)] srv0 srv)"

lemma answered_send: "said [] srv0 srv \<Longrightarrow> answered srv0 c r (send c r p srv)"
  using said_send [of "[]" srv0 srv c r p] by (auto simp: answered_def)

lemma answered_other [simp]:
  "answered srv0 c r (srv\<lparr>world := w\<rparr>) = answered srv0 c r srv"
  "answered srv0 c r (srv\<lparr>registry := reg\<rparr>) = answered srv0 c r srv"
  by (simp_all add: answered_def)

lemma answered_auth: "answered srv0 c r srv \<Longrightarrow> answered srv0 c r (modify_session d (set_auth t i n) srv)"
  by (auto simp: answered_def intro: said_auth)

section \<open>Registration and login return\<close>

text \<open>
  A stored hash whose hexadecimal digits are missing would make the check read an uninitialised
  variable; the hashes the server writes are not of that kind.
\<close>

definition hashes_readable :: "'w externals \<Rightarrow> UserRow list \<Rightarrow> bool" where
  "hashes_readable X rows \<longleftrightarrow>
     (\<forall>r \<in> set rows. \<forall>p. verify_password_pbkdf2 X p (u_pass_hash r) \<noteq> undefined_behaviour)"

context auth_backend
begin

lemma wp_login_returns:
  assumes "usable w" and "hashes_readable X (user_rows w)"
  shows "wp (handle_login X req) (\<lambda>r _. r \<noteq> undefined_behaviour) w"
proof -
  have "verify_password_pbkdf2 X p (u_pass_hash r) \<noteq> undefined_behaviour"
    if "Some r = List.find P (user_rows w)" for P r p
    using that [symmetric] assms(2) unfolding hashes_readable_def by (metis find_Some_iff nth_mem)
  moreover have "fst (get_user_by_username X n w) = Inr (Some r) \<Longrightarrow>
      Some r = List.find (\<lambda>r. u_username r = c_str n) (user_rows w)" for n r
    using find_user_Inr(2) [OF assms(1)] by (metis prod.collapse)
  ultimately have "verify_password_pbkdf2 X p (u_pass_hash r) \<noteq> undefined_behaviour"
    if "fst (get_user_by_username X n w) = Inr (Some r)" for n r p using that by blast
  then show ?thesis using assms(1) find_user_safe [OF assms(1)]
    by (auto simp: handle_login_def wp_simps wp_find_user intro!: wp_open_session
        split: option.split sum.split exn.split)
qed

lemma wp_register_returns:
  assumes "usable w"
  shows "wp (handle_register X req) (\<lambda>r _. r \<noteq> undefined_behaviour) w"
proof -
  have "fst (sbind (create_user X n e h) (\<lambda>_. sreturn resp) w1) \<noteq> undefined_behaviour"
    if "usable w1" for n e h w1 and resp :: RegisterResp
    using add_user_fails [OF that, of n e h] by (auto simp: sbind_def split: prod.split sum.split)
  moreover have "usable w1" if "hash_password_pbkdf2 X p i w = (r, w1)" for p i r w1
    using hash_frame [OF that] assms by simp
  ultimately have "fst (sbind (hash_password_pbkdf2 X p i) (\<lambda>h. sbind (create_user X n e h) (\<lambda>_. sreturn resp)) w)
      \<noteq> undefined_behaviour" for p i n e and resp :: RegisterResp
    using hash_not_UB [of p i w]
    by (cases "hash_password_pbkdf2 X p i w") (auto simp: sbind_def [of "hash_password_pbkdf2 X p i"] split: sum.split)
  then have "wp (scatch (sbind (hash_password_pbkdf2 X p i) (\<lambda>h. sbind (create_user X n e h) (\<lambda>_. sreturn resp)))
      (\<lambda>what. sreturn (register_fail (f what)))) (\<lambda>r _. r \<noteq> undefined_behaviour) w" for p i n e resp f
    by (auto simp: wp_def scatch_def split: prod.splits sum.splits exn.splits) (metis fst_conv)
  with assms find_user_safe [OF assms] show ?thesis
    by (auto simp: handle_register_def wp_find_user wp_simps(1-3) wp_branches 
        split: option.split sum.split exn.split simp del: wp_scatch)
qed

end

section \<open>The handlers answer\<close>

abbreviation answers :: "nat \<Rightarrow> MsgType \<Rightarrow> ('w server, unit) action \<Rightarrow> 'w server \<Rightarrow> bool" where
  "answers c r m srv \<equiv> wp m (\<lambda>x srv'. x = Inr () \<and> answered srv c r srv') srv"

definition acceptance :: "'w server \<Rightarrow> nat \<Rightarrow> int \<Rightarrow> bytes \<Rightarrow> 'w server \<Rightarrow> bool" where
  "acceptance srv c u p srv' \<longleftrightarrow>
     (\<exists>notes payload. said (notes @ [(c, FILE_ACCEPT_RESP, payload)]) srv srv' \<and>
        (notes = [] \<or> passed_on srv u p notes))"

lemma acceptance_alone:
  assumes "said [] srv srv1"
  shows "acceptance srv c u p (send c FILE_ACCEPT_RESP q srv1)"
  unfolding acceptance_def
  using said_send [OF assms, of c FILE_ACCEPT_RESP q] by (intro exI [of _ "[]"] exI [of _ q]) simp

lemma acceptance_passed_on:
  assumes "said [] srv srv1" and "FileAcceptReq_deserialize p = Inr m"
    and "get_transfer (manager srv) (areq_transfer_id m) = Some tr" and "receiver_user_id tr = u"
    and "get_session (sessions srv) (registry srv) (sender_token tr) = Some d"
    and "resp = decision (areq_accept m)"
  shows "acceptance srv c u p
    (send c FILE_ACCEPT_RESP q (send d FILE_ACCEPT_RESP (FileAcceptResp_serialize resp) srv1))"
  unfolding acceptance_def passed_on_def
  using assms said_send [OF said_send [OF assms(1)], of d FILE_ACCEPT_RESP _ c FILE_ACCEPT_RESP q]
  by (intro exI [of _ "[(d, FILE_ACCEPT_RESP, FileAcceptResp_serialize resp)]"] exI [of _ q]) auto

lemma accept_answers:
  "wp (handle_file_accept_req os base c s p)
     (\<lambda>x srv'. x = Inr () \<and> acceptance srv c (sess_user_id s) p srv') srv"
  using FileAcceptReq_safe [of p]
  by (auto simp: handle_file_accept_req_def wp_simps case_prod_unfold Let_def decision_def
      intro: acceptance_alone acceptance_passed_on split: sum.split exn.split option.split)

context auth_backend
begin

lemma offer_answers:
  assumes "usable (world srv)"
  shows "answers c FILE_OFFER_RESP (handle_file_offer_req X base c s p) srv"
  using assms FileOfferReq_safe [of p] find_user_safe [OF assms]
  by (auto simp: handle_file_offer_req_def wp_simps wp_find_user
      intro!: answered_send split: sum.split exn.split option.split)

lemma register_answers:
  assumes "usable (world srv)"
  shows "answers c REGISTER_RESP (handle_register_req X c p) srv"
  using assms RegisterReq_safe [of p] wp_register_returns [OF assms]
  by (auto simp: handle_register_req_def wp_simps wp_def [of "handle_register X _"]
      intro!: answered_send split: sum.split exn.split)

lemma login_answers:
  assumes "usable (world srv)" and "hashes_readable X (user_rows (world srv))"
  shows "answers c LOGIN_RESP (handle_login_req X c p) srv"
  using assms LoginReq_safe [of p] wp_login_returns [OF assms]
  by (auto simp: handle_login_req_def wp_simps wp_def [of "handle_login X _"] Let_def
      intro!: answered_send answered_auth split: sum.split exn.split)

lemma request_answered:
  assumes "usable (world srv)" and "hashes_readable X (user_rows (world srv))"
    and "response_type t = Some r" and "t \<noteq> FILE_ACCEPT_REQ"
  shows "answers c r (handle_message X os base c s t p) srv"
  using assms offer_answers register_answers login_answers
  by (auto simp: handle_message_def response_type_def wp_simps intro!: answered_send split: if_splits)

end

section \<open>Properties\<close>

text \<open>
  C12: Every request is answered, once: over a database that keeps its promises, whatever its
  payload, a PING, a registration, a login, a request for the online list, an offer and an
  acceptance are handled without an exception or undefined behaviour. Behind what was queued
  before, the session has exactly one frame more, the response of that type, and the queue of
  every other session is what it was; only an acceptance of the receiver is passed on as well, in
  one frame with its decision, before the answer, to the session that made the offer.
\<close>

theorem requests_answered:
  assumes "auth_backend X user_rows usable tokens encodable" and "usable (world srv)"
    and "hashes_readable X (user_rows (world srv))"
    and "sessions srv c = Some s" and "response_type t = Some r"
  shows "\<exists>srv' notes payload. handle_message X os base c s t p srv = (Inr (), srv') \<and>
    (\<forall>d sd. sessions srv d = Some sd \<longrightarrow> (\<exists>sd'. sessions srv' d = Some sd' \<and>
       outq sd' = outq sd @ [frame t' q. (e, t', q) \<leftarrow> notes @ [(c, r, payload)], e = d])) \<and>
    (notes = [] \<or> t = FILE_ACCEPT_REQ \<and> passed_on srv (sess_user_id s) p notes)"
proof -
  have "wp (handle_message X os base c s t p) (\<lambda>x srv'. x = Inr () \<and>
      (\<exists>notes payload. said (notes @ [(c, r, payload)]) srv srv' \<and>
         (notes = [] \<or> t = FILE_ACCEPT_REQ \<and> passed_on srv (sess_user_id s) p notes))) srv"
    (is "wp _ (\<lambda>x srv'. x = Inr () \<and> ?answered srv') srv")
  proof (cases "t = FILE_ACCEPT_REQ")
    case True
    with assms(5) accept_answers [of os base c s p srv] show ?thesis
      by (simp add: handle_message_def response_type_def acceptance_def split: if_splits)
  next
    case False
    from auth_backend.request_answered [OF assms(1-3,5) this, where c = c and os = os and base = base and s = s and p = p] show ?thesis
      by (rule wp_mono) (force simp: answered_def)
  qed
  moreover have "[frame t' q. (e, t', q) \<leftarrow> ms, e = d] = sent_to d ms" for ms d
    by (induction ms) (auto simp: sent_to_def)
  ultimately show ?thesis unfolding wp_def said_def by (metis prod.collapse)
qed

text \<open>Two entries of a list that look the same are both in its image.\<close>

lemma two_in_image:
  assumes "a \<in> set xs" and "b \<in> set xs" and "a \<noteq> b" and "f a = n" and "f b = n"
  shows "2 \<le> count_list (map f xs) n"
  using assms
proof (induction xs)
  case (Cons x xs)
  have one: "1 \<le> count_list (map f xs) n" if "y \<in> set xs" "f y = n" for y
    using that by (metis count_list_0_iff imageI less_one list.set_map not_le)
  from Cons one show ?case by (cases "a = x"; cases "b = x") auto
qed simp

text \<open>
  C32: A second login on a connection that is logged in leaves the entry of the first one: the old
  token still leads to the session, and the online list has the name twice.
\<close>

theorem second_login_listed_twice:
  assumes "sessions srv c = Some s" and "is_authenticated s" and "map_of (registry srv) (sess_token s) = Some c"
    and "distinct (map fst (registry srv))"
    and "LoginReq_deserialize p = Inr req" and "handle_login X req (world srv) = (Inr resp, w')"
    and "lresp_ok resp" and "lresp_token resp \<noteq> []" and "lresp_token resp \<noteq> sess_token s"
  shows "\<exists>srv'. handle_message X os base c s LOGIN_REQ p srv = (Inr (), srv') \<and>
    get_session (sessions srv') (registry srv') (sess_token s) = Some c \<and>
    get_session (sessions srv') (registry srv') (lresp_token resp) = Some c \<and>
    2 \<le> count_list (fst (get_online_usernames (sessions srv') (registry srv'))) (lresp_username resp)"
proof -
  let ?srv = "modify_session c (set_auth (lresp_token resp) (lresp_user_id resp) (lresp_username resp))
      (send c LOGIN_RESP (LoginResp_serialize resp) (srv\<lparr>world := w'\<rparr>))"
  let ?reg = "unexpired (sessions ?srv) (add_session (lresp_token resp) c (registry srv))"
  have l: "wp (handle_login X req) Q (world srv) = Q (Inr resp) w'" for Q
    using assms(6) by (simp add: wp_def)
  have run: "handle_message X os base c s LOGIN_REQ p srv = (Inr (), ?srv\<lparr>registry := ?reg\<rparr>)"
    using assms(5,7) by (intro wp_run) (simp add: handle_message_def handle_login_req_def wp_simps l Let_def)
  obtain s' where s': "sessions ?srv c = Some s'" "is_authenticated s'" "sess_username s' = lresp_username resp"
    using assms(1,8) by (simp add: set_auth_def is_authenticated_def)
  have "distinct (map fst (add_session (lresp_token resp) c (registry srv)))"
    using assms(4) by (simp add: add_session_def distinct_update)
  then have m: "map_of ?reg (sess_token s) = Some c" "map_of ?reg (lresp_token resp) = Some c"
    using assms(1,3,9) by (simp_all add: map_of_unexpired add_session_def)
  have "e \<in> set (online_entries (sessions ?srv) ?reg)" if "e \<in> set ?reg" "snd e = c" for e
    using that s' by (simp add: online_entries_def del: sessions_modify)
  with map_of_SomeD [OF m(1)] map_of_SomeD [OF m(2)]
  have "(sess_token s, c) \<in> set (online_entries (sessions ?srv) ?reg)"
    "(lresp_token resp, c) \<in> set (online_entries (sessions ?srv) ?reg)" by simp_all
  then have "2 \<le> count_list (fst (get_online_usernames (sessions ?srv) ?reg)) (lresp_username resp)"
    unfolding fst_get_online by (rule two_in_image) (use assms(9) s' in \<open>auto simp del: sessions_modify\<close>)
  with run m s'(1) show ?thesis by (auto simp: get_session_Some)
qed

end
