(* ===== verification/FsxScenario.thy ===== *)
theory FsxScenario
  imports FsxMisuse FsxAnswers
begin

text \<open>
  A complete run of the protocol over the byte streams of two connections: both users log in, one
  offers a file to the other, who accepts, and the file is uploaded.
\<close>

section \<open>One request on an idle connection\<close>

lemma deliver_nothing:
  "sessions srv c = Some s \<Longrightarrow> pending_read s = ReadHeader \<Longrightarrow> deliver X os base c [] srv = (Inr (), srv)"
  by (subst deliver.simps) (simp add: next_read_def HEADER_SIZE_def)

lemma deliver_request:
  assumes "sessions srv c = Some s" and "pending_read s = ReadHeader" and "length p \<le> 16777216"
    and "msg_type_of (msg_code t) = t"
    and "handle_message X os base c (stored_frame t p s) t p (modify_session c (stored_frame t p) srv) =
           (Inr (), srv1)"
    and "sessions srv1 c \<noteq> None"
  shows "deliver X os base c (make_frame (msg_code t) p) srv = (Inr (), do_read_header c srv1)"
proof -
  have "message_body X os base c t p srv = (Inr (), do_read_header c srv1)"
    using assms(1,5) by (simp add: message_body_def sbind_def)
  moreover obtain s1 where "sessions srv1 c = Some s1" using assms(6) by blast
  then have "deliver X os base c [] (do_read_header c srv1) = (Inr (), do_read_header c srv1)"
    by (intro deliver_nothing [where s = "s1\<lparr>pending_read := ReadHeader\<rparr>"]) (simp_all add: do_read_header_def)
  ultimately show ?thesis
    using deliver_frame [OF assms(1-4), of X os base "[]"] by (simp add: make_frame_eq)
qed

text \<open>A successful login.\<close>

definition logged_in :: "LoginResp \<Rightarrow> bytes list \<Rightarrow> TcpSession \<Rightarrow> bool" where
  "logged_in resp q s \<longleftrightarrow> sess_token s = lresp_token resp \<and> sess_user_id s = lresp_user_id resp \<and>
     sess_username s = lresp_username resp \<and> outq s = q \<and> pending_read s = ReadHeader"

lemma deliver_login:
  assumes s: "sessions srv c = Some s" "pending_read s = ReadHeader"
    and fits: "length u < 65536" "length p < 65536"
    and login: "handle_login X \<lparr>lreq_username = u, lreq_password = p\<rparr> (world srv) = (Inr resp, w')"
      "lresp_ok resp" "lresp_token resp \<noteq> []"
    and reg: "distinct (map fst (registry srv))"
  obtains srv' s' where "deliver X os base c (make_login_req u p) srv = (Inr (), srv')"
    and "sessions srv' c = Some s'" and "logged_in resp (outq s @ [frame LOGIN_RESP (LoginResp_serialize resp)]) s'"
    and "\<And>d. d \<noteq> c \<Longrightarrow> sessions srv' d = sessions srv d"
    and "world srv' = w'" and "manager srv' = manager srv" and "store srv' = store srv"
    and "distinct (map fst (registry srv'))"
    and "get_session (sessions srv') (registry srv') (lresp_token resp) = Some c"
    and "\<And>t d. t \<noteq> lresp_token resp \<Longrightarrow> get_session (sessions srv) (registry srv) t = Some d \<Longrightarrow>
           get_session (sessions srv') (registry srv') t = Some d"
proof -
  let ?p = "login_payload u p"
  have des: "LoginReq_deserialize ?p = Inr \<lparr>lreq_username = u, lreq_password = p\<rparr>"
    using login_req.des_ser [of "\<lparr>lreq_username = u, lreq_password = p\<rparr>"] fits by (simp add: LoginReq_fits_def)
  let ?srv1 = "send c LOGIN_RESP (LoginResp_serialize resp)
                 (modify_session c (stored_frame LOGIN_REQ ?p) srv\<lparr>world := w'\<rparr>)"
  let ?srv2 = "modify_session c (set_auth (lresp_token resp) (lresp_user_id resp) (lresp_username resp)) ?srv1"
  let ?srv3 = "?srv2\<lparr>registry := unexpired (sessions ?srv2) (add_session (lresp_token resp) c (registry srv))\<rparr>"
  have l: "wp (handle_login X \<lparr>lreq_username = u, lreq_password = p\<rparr>) Q (world srv) = Q (Inr resp) w'" for Q
    using login(1) by (simp add: wp_def)
  have "handle_message X os base c (stored_frame LOGIN_REQ ?p s) LOGIN_REQ ?p
          (modify_session c (stored_frame LOGIN_REQ ?p) srv) = (Inr (), ?srv3)"
    using des login(2) by (intro wp_run) (simp add: handle_message_def handle_login_req_def wp_simps l Let_def)
  then have "deliver X os base c (make_frame (msg_code LOGIN_REQ) ?p) srv = (Inr (), do_read_header c ?srv3)"
    using s fits by (intro deliver_request [OF s]) (simp_all add: login_payload_def)
  then have d: "deliver X os base c (make_login_req u p) srv = (Inr (), do_read_header c ?srv3)"
    by (simp add: make_login_req_def)
  have dist: "distinct (map fst (add_session (lresp_token resp) c (registry srv)))"
    using reg by (simp add: add_session_def distinct_update)
  show thesis
  proof (rule that [OF d])
    show "sessions (do_read_header c ?srv3) c = Some ((set_auth (lresp_token resp) (lresp_user_id resp)
        (lresp_username resp) (session_send LOGIN_RESP (LoginResp_serialize resp) (stored_frame LOGIN_REQ ?p s)))
        \<lparr>pending_read := ReadHeader\<rparr>)"
      using s by (simp add: do_read_header_def)
  qed (use s dist in \<open>auto simp: do_read_header_def logged_in_def set_auth_def stored_frame_def
        distinct_unexpired get_session_Some map_of_unexpired add_session_def\<close>)
qed

text \<open>An offer.\<close>

lemma deliver_offer:
  assumes s: "sessions srv c = Some s" "pending_read s = ReadHeader" "is_authenticated s"
    and fits: "length r < 65536" "length name < 65536"
    and user: "get_user_by_username X r (world srv) = (Inr (Some row), world srv)"
    and tid: "next_transfer_id (manager srv) = tid" "tid \<noteq> 0"
  obtains srv' s' where "deliver X os base c (make_file_offer_req r name z k) srv = (Inr (), srv')"
    and "sessions srv' c = Some s'"
    and "sess_token s' = sess_token s" and "sess_user_id s' = sess_user_id s"
    and "outq s' = outq s @ [frame FILE_OFFER_RESP (FileOfferResp_serialize
           \<lparr>oresp_ok = True, oresp_transfer_id = tid, oresp_reason = []\<rparr>)]"
    and "pending_read s' = ReadHeader"
    and "offered base tid name (sess_user_id s) (u_id row) (sess_token s) (manager srv')"
    and "\<And>d. d \<noteq> c \<Longrightarrow> sessions srv' d = sessions srv d"
    and "registry srv' = registry srv" and "store srv' = store srv"
    and "next_transfer_id (manager srv') = tid + 1"
proof -
  let ?p = "file_offer_payload r name z k"
  let ?req = "\<lparr>oreq_client_transfer_id = 0, oreq_receiver_username = r, oreq_filename = name,
      oreq_file_size = z, oreq_chunk_size = k\<rparr>"
  have des: "FileOfferReq_deserialize ?p = Inr ?req"
    using FileOfferReq_roundtrip [of ?req] fits by (simp add: client_file_payloads FileOfferReq_fits_def)
  let ?tm = "modify_transfer tid (\<lambda>t. t\<lparr>temp_file_path := get_temp_path base tid name,
      final_file_path := get_file_path base tid name\<rparr>)
      (snd (create_transfer (sess_user_id s) (sess_username s) (sess_token s) (u_id row) (u_username row)
              name z (effective_chunk_size k) (manager srv)))"
  let ?srv2 = "send c FILE_OFFER_RESP (FileOfferResp_serialize
           \<lparr>oresp_ok = True, oresp_transfer_id = tid, oresp_reason = []\<rparr>)
      (modify_session c (stored_frame FILE_OFFER_REQ ?p) srv\<lparr>world := world srv, manager := ?tm\<rparr>)"
  have l: "wp (get_user_by_username X r) Q (world srv) = Q (Inr (Some row)) (world srv)" for Q
    using user by (simp add: wp_def)
  have "handle_message X os base c (stored_frame FILE_OFFER_REQ ?p s) FILE_OFFER_REQ ?p
          (modify_session c (stored_frame FILE_OFFER_REQ ?p) srv) = (Inr (), ?srv2)"
    using des s(3) tid
    by (intro wp_run) (simp add: handle_message_def handle_file_offer_req_def wp_simps l
        stored_frame_def is_authenticated_def)
  then have "deliver X os base c (make_frame (msg_code FILE_OFFER_REQ) ?p) srv = (Inr (), do_read_header c ?srv2)"
    using s fits by (intro deliver_request [OF s(1,2)]) (simp_all add: file_offer_payload_def)
  then have d: "deliver X os base c (make_file_offer_req r name z k) srv = (Inr (), do_read_header c ?srv2)"
    by (simp add: make_file_offer_req_def)
  show thesis
  proof (rule that [OF d])
    show "sessions (do_read_header c ?srv2) c = Some ((session_send FILE_OFFER_RESP (FileOfferResp_serialize
           \<lparr>oresp_ok = True, oresp_transfer_id = tid, oresp_reason = []\<rparr>) (stored_frame FILE_OFFER_REQ ?p s))
        \<lparr>pending_read := ReadHeader\<rparr>)"
      using s by (simp add: do_read_header_def)
  qed (use s tid in \<open>auto simp: do_read_header_def stored_frame_def offered_def\<close>)
qed

section \<open>The whole session\<close>

lemma session_until_accepted:
  assumes "disk_ok os" and "c \<noteq> d"
    and c: "sessions srv c = Some sc" "pending_read sc = ReadHeader"
    and d: "sessions srv d = Some sd" "pending_read sd = ReadHeader"
    and reg: "distinct (map fst (registry srv))"
    and fits: "length ua < 65536" "length pa < 65536" "length ub < 65536" "length pb < 65536"
      "length name < 65536"
    and la: "handle_login X \<lparr>lreq_username = ua, lreq_password = pa\<rparr> (world srv) = (Inr ra, w1)"
      "lresp_ok ra" "lresp_token ra \<noteq> []"
    and lb: "handle_login X \<lparr>lreq_username = ub, lreq_password = pb\<rparr> w1 = (Inr rb, w2)"
      "lresp_ok rb" "lresp_token rb \<noteq> []" "lresp_token rb \<noteq> lresp_token ra"
    and user: "get_user_by_username X ub w2 = (Inr (Some row), w2)" "u_id row = lresp_user_id rb"
    and tid: "next_transfer_id (manager srv) = tid" "tid \<noteq> 0"
  obtains srv1 srv2 srv3 srv4 h f q where
      "deliver X os base c (make_login_req ua pa) srv = (Inr (), srv1)"
    and "deliver X os base d (make_login_req ub pb) srv1 = (Inr (), srv2)"
    and "deliver X os base c (make_file_offer_req ub name z k) srv2 = (Inr (), srv3)"
    and "deliver X os base d (make_file_accept_req tid True) srv3 = (Inr (), srv4)"
    and "receiving os base tid name (lresp_user_id ra) h f [] 0 (manager srv4) (store srv4)"
    and "connected c (lresp_user_id ra) q ReadHeader srv4"
    and "next_transfer_id (manager srv4) = tid + 1"
proof -
  obtain srv1 s1 where d1: "deliver X os base c (make_login_req ua pa) srv = (Inr (), srv1)"
    and s1: "sessions srv1 c = Some s1" "logged_in ra (outq sc @ [frame LOGIN_RESP (LoginResp_serialize ra)]) s1"
      "\<And>e. e \<noteq> c \<Longrightarrow> sessions srv1 e = sessions srv e"
    and w1: "world srv1 = w1" "manager srv1 = manager srv" "store srv1 = store srv"
      "distinct (map fst (registry srv1))"
    and g1: "get_session (sessions srv1) (registry srv1) (lresp_token ra) = Some c"
      "\<And>t e. t \<noteq> lresp_token ra \<Longrightarrow> get_session (sessions srv) (registry srv) t = Some e \<Longrightarrow>
           get_session (sessions srv1) (registry srv1) t = Some e"
    by (rule deliver_login [where os = os and base = base, OF c fits(1,2) la reg]) (rule that)
  have d': "sessions srv1 d = Some sd" using s1(3) assms(2) d(1) by simp
  have lb': "handle_login X \<lparr>lreq_username = ub, lreq_password = pb\<rparr> (world srv1) = (Inr rb, w2)"
    using lb(1) w1(1) by simp
  obtain srv2 s2 where d2: "deliver X os base d (make_login_req ub pb) srv1 = (Inr (), srv2)"
    and s2: "sessions srv2 d = Some s2" "logged_in rb (outq sd @ [frame LOGIN_RESP (LoginResp_serialize rb)]) s2"
      "\<And>e. e \<noteq> d \<Longrightarrow> sessions srv2 e = sessions srv1 e"
    and w2: "world srv2 = w2" "manager srv2 = manager srv1" "store srv2 = store srv1"
      "distinct (map fst (registry srv2))"
    and g2: "get_session (sessions srv2) (registry srv2) (lresp_token rb) = Some d"
      "\<And>t e. t \<noteq> lresp_token rb \<Longrightarrow> get_session (sessions srv1) (registry srv1) t = Some e \<Longrightarrow>
           get_session (sessions srv2) (registry srv2) t = Some e"
    by (rule deliver_login [where os = os and base = base, OF d' d(2) fits(3,4) lb' lb(2,3) w1(4)]) (rule that)
  have c2: "sessions srv2 c = Some s1" "pending_read s1 = ReadHeader" "is_authenticated s1"
    "sess_user_id s1 = lresp_user_id ra" "sess_token s1 = lresp_token ra"
    using s2(3) s1 assms(2) la(3) by (auto simp: logged_in_def is_authenticated_def)
  have user': "get_user_by_username X ub (world srv2) = (Inr (Some row), world srv2)"
    using user(1) w2(1) by simp
  have tid': "next_transfer_id (manager srv2) = tid" using tid(1) w1(2) w2(2) by simp
  obtain srv3 s3 where d3: "deliver X os base c (make_file_offer_req ub name z k) srv2 = (Inr (), srv3)"
    and s3: "sessions srv3 c = Some s3" "sess_token s3 = sess_token s1" "sess_user_id s3 = sess_user_id s1"
      "outq s3 = outq s1 @ [frame FILE_OFFER_RESP (FileOfferResp_serialize
           \<lparr>oresp_ok = True, oresp_transfer_id = tid, oresp_reason = []\<rparr>)]"
      "pending_read s3 = ReadHeader"
    and off: "offered base tid name (sess_user_id s1) (u_id row) (sess_token s1) (manager srv3)"
    and r3: "\<And>e. e \<noteq> c \<Longrightarrow> sessions srv3 e = sessions srv2 e" "registry srv3 = registry srv2"
      "store srv3 = store srv2"
    and n3: "next_transfer_id (manager srv3) = tid + 1"
    by (rule deliver_offer [where os = os and base = base, OF c2(1-3) fits(3,5) user' tid' tid(2)]) (rule that)
  have cc: "connected c (lresp_user_id ra) (outq s3) ReadHeader srv3"
    using s3(1-3,5) c2 by (simp add: connected_def is_authenticated_def)
  have cd: "connected d (lresp_user_id rb) (outq s2) ReadHeader srv3"
    using r3(1) s2(1,2) assms(2) lb(3) by (auto simp: connected_def logged_in_def is_authenticated_def)
  have g3: "get_session (sessions srv3) (registry srv3) (lresp_token ra) = Some c"
    using g2(2) [OF lb(4) [symmetric] g1(1)] s3(1) r3(2) by (simp add: get_session_Some)
  have o3: "offered base tid name (lresp_user_id ra) (lresp_user_id rb) (lresp_token ra) (manager srv3)"
    using off user(2) c2(4,5) by simp
  show thesis
  proof (rule deliver_accept [OF assms(1) o3 cc cd assms(2) la(3) g3, where X = X])
    fix srv4 h f
    assume 4: "deliver X os base d (make_file_accept_req tid True) srv3 = (Inr (), srv4)"
      "receiving os base tid name (lresp_user_id ra) h f [] 0 (manager srv4) (store srv4)"
      "connected c (lresp_user_id ra) (outq s3 @ [accept_frame]) ReadHeader srv4"
      "next_transfer_id (manager srv4) = next_transfer_id (manager srv3)"
    show thesis by (rule that [OF d1 d2 d3 4(1-3)]) (simp add: 4(4) n3)
  qed
qed

section \<open>Properties\<close>

text \<open>
  The protocol works from end to end. Two connections log in; the first offers a file to the
  second, who accepts; then the first sends the byte stream its client produces for the file. If
  both logins are granted, the receiver's name leads to its user, and the disk takes what it is
  given, the server consumes every stream without error, and the transfer ends COMPLETED, with
  all chunks counted and, under its final name, a file equal to the one that was sent.
\<close>

theorem file_transfer_end_to_end:
  assumes "disk_ok os" and "c \<noteq> d"
    and "sessions srv c = Some sc" and "pending_read sc = ReadHeader"
    and "sessions srv d = Some sd" and "pending_read sd = ReadHeader"
    and "distinct (map fst (registry srv))"
    and "length ua < 65536" and "length pa < 65536" and "length ub < 65536" and "length pb < 65536"
    and "length name < 65536"
    and "handle_login X \<lparr>lreq_username = ua, lreq_password = pa\<rparr> (world srv) = (Inr ra, w1)"
    and "lresp_ok ra" and "lresp_token ra \<noteq> []"
    and "handle_login X \<lparr>lreq_username = ub, lreq_password = pb\<rparr> w1 = (Inr rb, w2)"
    and "lresp_ok rb" and "lresp_token rb \<noteq> []" and "lresp_token rb \<noteq> lresp_token ra"
    and "get_user_by_username X ub w2 = (Inr (Some row), w2)" and "u_id row = lresp_user_id rb"
    and "next_transfer_id (manager srv) = tid" and "tid \<noteq> 0"
  shows "\<exists>srv1 srv2 srv3 srv4 srv5.
    deliver X os base c (make_login_req ua pa) srv = (Inr (), srv1) \<and>
    deliver X os base d (make_login_req ub pb) srv1 = (Inr (), srv2) \<and>
    deliver X os base c (make_file_offer_req ub name (word_of_nat (length data))
      (word_of_nat DEFAULT_CHUNK_SIZE)) srv2 = (Inr (), srv3) \<and>
    deliver X os base d (make_file_accept_req tid True) srv3 = (Inr (), srv4) \<and>
    deliver X os base c (upload_stream tid data) srv4 = (Inr (), srv5) \<and>
    stored_as os base tid name data (word_of_nat (length (blocks DEFAULT_CHUNK_SIZE data)))
      (manager srv5) (store srv5)"
proof -
  obtain srv1 srv2 srv3 srv4 h f q where
      d: "deliver X os base c (make_login_req ua pa) srv = (Inr (), srv1)"
      "deliver X os base d (make_login_req ub pb) srv1 = (Inr (), srv2)"
      "deliver X os base c (make_file_offer_req ub name (word_of_nat (length data))
         (word_of_nat DEFAULT_CHUNK_SIZE)) srv2 = (Inr (), srv3)"
      "deliver X os base d (make_file_accept_req tid True) srv3 = (Inr (), srv4)"
    and r: "receiving os base tid name (lresp_user_id ra) h f [] 0 (manager srv4) (store srv4)"
    and cc: "connected c (lresp_user_id ra) q ReadHeader srv4"
    and n4: "next_transfer_id (manager srv4) = tid + 1"
    by (rule session_until_accepted [OF assms]) (rule that)
  obtain srv5 where "deliver X os base c (upload_stream tid data) srv4 = (Inr (), srv5)"
    and "stored_as os base tid name data (word_of_nat (length (blocks DEFAULT_CHUNK_SIZE data)))
      (manager srv5) (store srv5)"
    by (rule upload_stored [OF assms(1) r cc])
  with d show ?thesis by blast
qed

section \<open>A concrete session\<close>

definition scenario_user :: "int \<Rightarrow> string \<Rightarrow> string \<Rightarrow> UserRow" where
  "scenario_user i name password =
     \<lparr>u_id = i, u_username = name, u_email = name,
      u_pass_hash = ''pbkdf2$'' @ dec_string 1 @ ''$'' @ to_hex [] @ ''$'' @
                    to_hex [byte_of_char (hd password)]\<rparr>"

definition scenario_world :: pg_world where
  "scenario_world =
     \<lparr>pg_users = [scenario_user 1 ''alice'' ''pa'', scenario_user 2 ''bob'' ''pb''],
      pg_next_user = 3, pg_tokens = [], pg_random = 0\<rparr>"

definition scenario_start :: "pg_world server" where
  "scenario_start = on_accept False (on_accept False (server_init scenario_world))"

lemma scenario_reachable: "reachable ref_externals base scenario_world scenario_start"
proof -
  have "server_step ref_externals base srv (AcceptDone False) (on_accept False srv)" for srv
    by (rule server_step.run) simp_all
  then show ?thesis
    unfolding scenario_start_def by (blast intro: reachable.intros)
qed

lemma scenario_verify:
  assumes "p \<noteq> []"
  shows "verify_password_pbkdf2 ref_externals p (u_pass_hash (scenario_user i n p)) = Inr True"
proof -
  have "PKCS5_PBKDF2_HMAC ref_externals p [] 1 1 = Some [byte_of_char (hd p)]"
    using assms by (cases p) (simp_all add: ref_externals_def string_bytes_def)
  then show ?thesis
    using verify_stored [of 1 ref_externals p "[]" "[byte_of_char (hd p)]"]
    by (simp add: scenario_user_def)
qed

definition scenario_token :: "nat \<Rightarrow> string" where
  "scenario_token k = to_hex (map (\<lambda>i. word_of_nat (k + i)) [0..<32])"

lemma scenario_login:
  assumes "ref_usable w" and "u \<noteq> []" and "p \<noteq> []"
    and "List.find (\<lambda>r. u_username r = c_str u) (pg_users w) = Some (scenario_user i n p)"
    and "scenario_token (pg_random w) \<notin> set (pg_tokens w)"
    and "ref_encodable (c_str u)"
  shows "handle_login ref_externals \<lparr>lreq_username = u, lreq_password = p\<rparr> w =
    (Inr \<lparr>lresp_ok = True, lresp_token = scenario_token (pg_random w), lresp_user_id = i,
          lresp_username = n, lresp_msg = ''login successful''\<rparr>,
     w\<lparr>pg_random := pg_random w + 32, pg_tokens := scenario_token (pg_random w) # pg_tokens w\<rparr>)"
proof -
  have cs: "create_session ref_externals uid ttl w =
      (Inr (scenario_token (pg_random w)),
       w\<lparr>pg_random := pg_random w + 32, pg_tokens := scenario_token (pg_random w) # pg_tokens w\<rparr>)" for uid ttl
    using assms(5) unfolding ref_create_session scenario_token_def Let_def by (simp del: upt.simps of_nat_add)
  have user: "u_id (scenario_user i n p) = i" "u_username (scenario_user i n p) = n"
    by (simp_all add: scenario_user_def)
  show ?thesis
    using assms(1-4,6) scenario_verify [OF assms(3)]
    by (intro wp_run) (simp add: handle_login_def wp_simps wp_def [of "get_user_by_username _ _"]
        ref_get_user wp_def [of "create_session _ _ _"] cs user)
qed

lemma scenario_tokens: "scenario_token 0 \<noteq> []" "scenario_token 32 \<noteq> []" "scenario_token 32 \<noteq> scenario_token 0"
proof -
  show "scenario_token 0 \<noteq> []" "scenario_token 32 \<noteq> []"
    by (simp_all add: scenario_token_def)
  have "map (\<lambda>i. word_of_nat (32 + i) :: u8) [0..<32] ! 0 \<noteq> map (\<lambda>i. word_of_nat (0 + i)) [0..<32] ! 0"
    by (simp add: nth_map)
  then show "scenario_token 32 \<noteq> scenario_token 0"
    unfolding scenario_token_def by (metis from_to_hex sum.inject(2))
qed

text \<open>Both logins of the concrete session.\<close>

definition scenario_resp :: "nat \<Rightarrow> int \<Rightarrow> string \<Rightarrow> LoginResp" where
  "scenario_resp k i n =
     \<lparr>lresp_ok = True, lresp_token = scenario_token k, lresp_user_id = i, lresp_username = n,
      lresp_msg = ''login successful''\<rparr>"

definition scenario_world1 :: pg_world where
  "scenario_world1 = scenario_world\<lparr>pg_random := 32, pg_tokens := [scenario_token 0]\<rparr>"

definition scenario_world2 :: pg_world where
  "scenario_world2 = scenario_world\<lparr>pg_random := 64, pg_tokens := [scenario_token 32, scenario_token 0]\<rparr>"

lemma scenario_usable: "ref_usable scenario_world" "ref_usable scenario_world1" "ref_usable scenario_world2"
  by (simp_all add: ref_usable_def scenario_world_def scenario_world1_def scenario_world2_def
      scenario_user_def)

lemma scenario_names: "ref_encodable (c_str ''alice'')" "ref_encodable (c_str ''bob'')"
  by (simp_all add: ref_encodable_def c_str_def)

lemma scenario_login_alice:
  "handle_login ref_externals \<lparr>lreq_username = ''alice'', lreq_password = ''pa''\<rparr> scenario_world =
     (Inr (scenario_resp 0 1 ''alice''), scenario_world1)"
  using scenario_login [OF scenario_usable(1), of "''alice''" "''pa''" 1 "''alice''"] scenario_names(1)
  by (simp add: scenario_world_def scenario_resp_def scenario_world1_def scenario_user_def c_str_def)

lemma scenario_login_bob:
  "handle_login ref_externals \<lparr>lreq_username = ''bob'', lreq_password = ''pb''\<rparr> scenario_world1 =
     (Inr (scenario_resp 32 2 ''bob''), scenario_world2)"
  using scenario_login [OF scenario_usable(2), of "''bob''" "''pb''" 2 "''bob''"] scenario_tokens(3) scenario_names(2)
  by (simp add: scenario_world_def scenario_resp_def scenario_world1_def scenario_world2_def
      scenario_user_def c_str_def)

lemma scenario_bob:
  "get_user_by_username ref_externals ''bob'' scenario_world2 =
     (Inr (Some (scenario_user 2 ''bob'' ''pb'')), scenario_world2)"
  using ref_get_user [OF scenario_usable(3) scenario_names(2)]
  by (simp add: scenario_world_def scenario_world2_def scenario_user_def c_str_def)

lemma scenario_connections:
  "sessions scenario_start 0 = Some (TcpSession_new\<lparr>pending_read := ReadHeader\<rparr>)"
  "sessions scenario_start 1 = Some (TcpSession_new\<lparr>pending_read := ReadHeader\<rparr>)"
  "registry scenario_start = []" "world scenario_start = scenario_world"
  "next_transfer_id (manager scenario_start) = 1"
  by (simp_all add: scenario_start_def on_accept_def server_init_def TcpSession_start_def
      do_read_header_def TransferManager_init_def Let_def)

lemma sample_disk_ok: "disk_ok sample_os"
  by (simp add: disk_ok_def sample_os_def)

theorem file_transfer_end_to_end_witness:
  "\<exists>srv5. stored_as sample_os ''d'' 1 ''a.txt'' [1, 2, 3] 1 (manager srv5) (store (srv5 :: pg_world server))"
proof -
  have one: "length (blocks DEFAULT_CHUNK_SIZE [1, 2, 3]) = 1"
    by (simp add: length_blocks DEFAULT_CHUNK_SIZE_def)
  show ?thesis
    using file_transfer_end_to_end [OF sample_disk_ok, of 0 1 scenario_start
        "TcpSession_new\<lparr>pending_read := ReadHeader\<rparr>" "TcpSession_new\<lparr>pending_read := ReadHeader\<rparr>"
        "''alice''" "''pa''" "''bob''" "''pb''" "''a.txt''" ref_externals
        "scenario_resp 0 1 ''alice''" scenario_world1 "scenario_resp 32 2 ''bob''" scenario_world2
        "scenario_user 2 ''bob'' ''pb''" 1 "''d''" "[1, 2, 3]"]
      scenario_connections scenario_login_alice scenario_login_bob scenario_bob scenario_tokens one
    by (auto simp: scenario_resp_def scenario_user_def)
qed

lemma scenario_accepted:
  obtains srv h f q where "reachable ref_externals ''d'' scenario_world srv"
    and "receiving sample_os ''d'' 1 ''a.txt'' 1 h f [] 0 (manager srv) (store srv)"
    and "connected 0 1 q ReadHeader srv" and "next_transfer_id (manager srv) = 2"
proof -
  have fits: "length ''alice'' < 65536" "length ''pa'' < 65536" "length ''bob'' < 65536"
    "length ''pb'' < 65536" "length ''a.txt'' < 65536" by simp_all
  have reading: "pending_read (TcpSession_new\<lparr>pending_read := ReadHeader\<rparr>) = ReadHeader"
    and neq: "(0 :: nat) \<noteq> 1" and dist: "distinct (map fst (registry scenario_start))"
    and row: "u_id (scenario_user 2 ''bob'' ''pb'') = lresp_user_id (scenario_resp 32 2 ''bob'')"
    and resp: "lresp_ok (scenario_resp 0 1 ''alice'')" "lresp_token (scenario_resp 0 1 ''alice'') \<noteq> []"
      "lresp_ok (scenario_resp 32 2 ''bob'')" "lresp_token (scenario_resp 32 2 ''bob'') \<noteq> []"
      "lresp_token (scenario_resp 32 2 ''bob'') \<noteq> lresp_token (scenario_resp 0 1 ''alice'')"
    using scenario_connections(3) scenario_tokens by (simp_all add: scenario_user_def scenario_resp_def)
  have la: "handle_login ref_externals \<lparr>lreq_username = ''alice'', lreq_password = ''pa''\<rparr>
      (world scenario_start) = (Inr (scenario_resp 0 1 ''alice''), scenario_world1)"
    using scenario_login_alice scenario_connections(4) by simp
  obtain srv1 srv2 srv3 srv4 h f q where
      d: "deliver ref_externals sample_os ''d'' 0 (make_login_req ''alice'' ''pa'') scenario_start = (Inr (), srv1)"
      "deliver ref_externals sample_os ''d'' 1 (make_login_req ''bob'' ''pb'') srv1 = (Inr (), srv2)"
      "deliver ref_externals sample_os ''d'' 0 (make_file_offer_req ''bob'' ''a.txt'' 3 262144) srv2 = (Inr (), srv3)"
      "deliver ref_externals sample_os ''d'' 1 (make_file_accept_req 1 True) srv3 = (Inr (), srv4)"
    and r: "receiving sample_os ''d'' 1 ''a.txt'' (lresp_user_id (scenario_resp 0 1 ''alice'')) h f [] 0
              (manager srv4) (store srv4)"
    and c: "connected 0 (lresp_user_id (scenario_resp 0 1 ''alice'')) q ReadHeader srv4"
    and n: "next_transfer_id (manager srv4) = 1 + 1"
    by (rule session_until_accepted [OF sample_disk_ok neq scenario_connections(1) reading
          scenario_connections(2) reading dist fits la resp(1,2) scenario_login_bob resp(3-5)
          scenario_bob row scenario_connections(5) one_neq_zero, where base = "''d''" and z = 3 and k = 262144])
      (rule that)
  have "reachable ref_externals ''d'' scenario_world srv4"
    using deliver_reachable d scenario_reachable by metis
  with r c n show thesis by (intro that) (simp_all add: scenario_resp_def)
qed

lemma scenario_until_accepted:
  obtains srv h f q where "reachable ref_externals ''d'' scenario_world srv"
    and "receiving sample_os ''d'' 1 ''a.txt'' 1 h f [] 0 (manager srv) (store srv)"
    and "connected 0 1 q ReadHeader srv"
  by (rule scenario_accepted) (rule that)

section \<open>The properties of reachable states, in this session\<close>

theorem receiving_streams_open_witness:
  "\<exists>srv t h. reachable ref_externals ''d'' scenario_world srv \<and>
     get_transfer (manager srv) 1 = Some t \<and> file_handle t = Some h \<and> is_open (store srv) h"
proof -
  obtain srv h f q where r: "reachable ref_externals ''d'' scenario_world srv"
    and rec: "receiving sample_os ''d'' 1 ''a.txt'' 1 h f [] 0 (manager srv) (store srv)"
    and c: "connected 0 1 q ReadHeader srv"
    by (rule scenario_until_accepted)
  from rec obtain t where t: "get_transfer (manager srv) 1 = Some t" "live_state (tstate t)"
    by (auto simp: receiving_def)
  with receiving_streams_open [OF r t(1)] r show ?thesis unfolding live_state_def by blast
qed

theorem chunks_never_undefined_witness:
  "\<exists>(srv :: pg_world server) s. sessions srv 0 = Some s \<and> is_authenticated s \<and>
     fst (handle_message ref_externals sample_os ''d'' 0 s FILE_CHUNK [1] srv) \<noteq> undefined_behaviour"
proof -
  obtain srv h f q where r: "reachable ref_externals ''d'' scenario_world srv"
    and rec: "receiving sample_os ''d'' 1 ''a.txt'' 1 h f [] 0 (manager srv) (store srv)"
    and c: "connected 0 1 q ReadHeader srv"
    by (rule scenario_until_accepted)
  from c obtain s where s: "sessions srv 0 = Some s" "is_authenticated s" by (auto simp: connected_def)
  with chunks_never_undefined [OF r s(1)] show ?thesis by blast
qed

theorem transfer_paths_reachable_witness:
  "\<exists>(srv :: pg_world server) t. get_transfer (manager srv) 1 = Some t \<and> live_state (tstate t) \<and>
     temp_file_path t = get_temp_path ''d'' 1 ''a.txt''"
proof -
  obtain srv h f q where r: "reachable ref_externals ''d'' scenario_world srv"
    and rec: "receiving sample_os ''d'' 1 ''a.txt'' 1 h f [] 0 (manager srv) (store srv)"
    and c: "connected 0 1 q ReadHeader srv"
    by (rule scenario_until_accepted)
  from rec obtain t where t: "get_transfer (manager srv) 1 = Some t" "live_state (tstate t)" "filename t = ''a.txt''"
    by (auto simp: receiving_def)
  with transfer_paths_reachable [OF r t(1)] show ?thesis by auto
qed

theorem write_queues_hold_frames_witness:
  "\<exists>(srv :: pg_world server) s. sessions srv 0 = Some s \<and> is_authenticated s \<and> (\<forall>b \<in> set (outq s). \<exists>t p. b = frame t p)"
proof -
  obtain srv h f q where r: "reachable ref_externals ''d'' scenario_world srv"
    and rec: "receiving sample_os ''d'' 1 ''a.txt'' 1 h f [] 0 (manager srv) (store srv)"
    and c: "connected 0 1 q ReadHeader srv"
    by (rule scenario_until_accepted)
  from c obtain s where s: "sessions srv 0 = Some s" "is_authenticated s" by (auto simp: connected_def)
  with write_queues_hold_frames [OF r s(1)] show ?thesis by blast
qed

theorem authenticated_sessions_online_witness:
  "\<exists>(srv :: pg_world server) s. sessions srv 0 = Some s \<and> is_authenticated s \<and>
     sess_username s \<in> set (fst (get_online_usernames (sessions srv) (registry srv)))"
proof -
  obtain srv h f q where r: "reachable ref_externals ''d'' scenario_world srv"
    and rec: "receiving sample_os ''d'' 1 ''a.txt'' 1 h f [] 0 (manager srv) (store srv)"
    and c: "connected 0 1 q ReadHeader srv"
    by (rule scenario_until_accepted)
  from c obtain s where s: "sessions srv 0 = Some s" "is_authenticated s" by (auto simp: connected_def)
  with authenticated_sessions_online [OF ref_backend.auth_backend_axioms scenario_usable(1) r s] show ?thesis
    by blast
qed

theorem file_done_ignores_sizes_witness:
  "\<exists>srv srv'. deliver ref_externals sample_os ''d'' 0 (make_file_done 1 1 3) srv = (Inr (), srv') \<and>
     stored_as sample_os ''d'' 1 ''a.txt'' [] 0 (manager srv') (store srv')"
proof -
  obtain srv h f q where r: "reachable ref_externals ''d'' scenario_world srv"
    and rec: "receiving sample_os ''d'' 1 ''a.txt'' 1 h f [] 0 (manager srv) (store srv)"
    and c: "connected 0 1 q ReadHeader srv"
    by (rule scenario_until_accepted)
  from file_done_ignores_sizes [OF sample_disk_ok rec c] show ?thesis by blast
qed

theorem second_file_done_undefined_witness:
  "\<exists>srv. reachable ref_externals ''d'' scenario_world srv \<and>
     fst (deliver ref_externals sample_os ''d'' 0 (make_file_done 1 1 3 @ make_file_done 1 1 3) srv) =
       undefined_behaviour"
proof -
  obtain srv h f q where r: "reachable ref_externals ''d'' scenario_world srv"
    and rec: "receiving sample_os ''d'' 1 ''a.txt'' 1 h f [] 0 (manager srv) (store srv)"
    and c: "connected 0 1 q ReadHeader srv"
    by (rule scenario_until_accepted)
  from second_file_done_undefined [OF sample_disk_ok rec c] r show ?thesis by blast
qed

theorem accept_ignores_state_witness:
  "\<exists>srv' h. get_transfer (manager srv') 7 =
     Some (sample_transfer\<lparr>file_handle := Some h, tstate := ACCEPTED\<rparr>) \<and>
     handle_message ref_externals sample_os ''d'' 1
       (set_auth ''u'' (receiver_user_id sample_transfer) ''bob'' TcpSession_new) FILE_ACCEPT_REQ
       (file_accept_payload 7 True) sample_server = (Inr (), srv')"
  using accept_ignores_state [OF sample_disk_ok,
      of "set_auth ''u'' (receiver_user_id sample_transfer) ''bob'' TcpSession_new" sample_server 7
      sample_transfer ref_externals "''d''" 1]
  by (auto simp: is_authenticated_def set_auth_def sample_server_def get_transfer_def)

theorem unexpected_chunk_written_witness:
  "\<exists>srv s srv' f. handle_message ref_externals sample_os ''d'' 0 s FILE_CHUNK (file_chunk_payload 1 5 [9]) srv =
     (Inr (), srv') \<and> manager srv' = manager srv \<and> contents (store srv') f = [9]"
proof -
  obtain srv h f q where r: "reachable ref_externals ''d'' scenario_world srv"
    and rec: "receiving sample_os ''d'' 1 ''a.txt'' 1 h f [] 0 (manager srv) (store srv)"
    and c: "connected 0 1 q ReadHeader srv"
    by (rule scenario_until_accepted)
  from c obtain s where s: "is_authenticated s" "sess_user_id s = 1" by (auto simp: connected_def)
  from unexpected_chunk_written [OF sample_disk_ok rec s, of "[9]" 5 ref_externals 0] show ?thesis
    by auto
qed

theorem empty_chunk_fails_transfer_witness:
  "\<exists>srv s srv' t. handle_message ref_externals sample_os ''d'' 0 s FILE_CHUNK (file_chunk_payload 1 0 []) srv =
     (Inr (), srv') \<and> get_transfer (manager srv') 1 = Some t \<and> tstate t = FAILED"
proof -
  obtain srv h f q where r: "reachable ref_externals ''d'' scenario_world srv"
    and rec: "receiving sample_os ''d'' 1 ''a.txt'' 1 h f [] 0 (manager srv) (store srv)"
    and c: "connected 0 1 q ReadHeader srv"
    by (rule scenario_until_accepted)
  from c obtain s where s: "is_authenticated s" "sess_user_id s = 1" by (auto simp: connected_def)
  from empty_chunk_fails_transfer [OF rec s]  show ?thesis by blast
qed

section \<open>Answers, in this session\<close>

lemma scenario_hashes: "hashes_readable ref_externals (pg_users scenario_world)"
proof -
  have "verify_password_pbkdf2 ref_externals q (u_pass_hash (scenario_user i n p)) \<noteq> undefined_behaviour" for q i n p
    using verify_stored [of 1 ref_externals q "[]" "[byte_of_char (hd p)]"]
    by (cases "PKCS5_PBKDF2_HMAC ref_externals q [] 1 1")
      (auto simp: scenario_user_def ref_externals_def)
  then show ?thesis by (simp add: hashes_readable_def scenario_world_def)
qed

theorem requests_answered_witness:
  "\<exists>srv' s0 s1 payload. handle_message ref_externals sample_os ''d'' 0
       (TcpSession_new\<lparr>pending_read := ReadHeader\<rparr>) ONLINE_LIST_REQ [] scenario_start = (Inr (), srv') \<and>
     sessions srv' 0 = Some s0 \<and> outq s0 = [frame ONLINE_LIST_RESP payload] \<and>
     sessions srv' 1 = Some s1 \<and> outq s1 = []"
proof -
  let ?s = "TcpSession_new\<lparr>pending_read := ReadHeader\<rparr>"
  have "ref_usable (world scenario_start)" "hashes_readable ref_externals (pg_users (world scenario_start))"
    using scenario_usable(1) scenario_hashes scenario_connections(4) by simp_all
  moreover have "response_type ONLINE_LIST_REQ = Some ONLINE_LIST_RESP" by (simp add: response_type_def)
  ultimately obtain srv' payload where
      run: "handle_message ref_externals sample_os ''d'' 0 ?s ONLINE_LIST_REQ [] scenario_start = (Inr (), srv')"
    and queues: "\<forall>d sd. sessions scenario_start d = Some sd \<longrightarrow> (\<exists>sd'. sessions srv' d = Some sd' \<and>
       outq sd' = outq sd @ (if 0 = d then [frame ONLINE_LIST_RESP payload] else []))"
    using requests_answered [OF ref_backend.auth_backend_axioms, where srv = scenario_start and c = 0 and
        t = ONLINE_LIST_REQ and os = sample_os and base = "''d''" and s = ?s and p = "[]"]
      scenario_connections(1) by fastforce
  obtain s0 where "sessions srv' 0 = Some s0" "outq s0 = [frame ONLINE_LIST_RESP payload]"
    using queues [rule_format, OF scenario_connections(1)] by (auto simp: TcpSession_new_def)
  moreover obtain s1 where "sessions srv' 1 = Some s1" "outq s1 = []"
    using queues [rule_format, OF scenario_connections(2)] by (auto simp: TcpSession_new_def)
  ultimately show ?thesis using run by blast
qed

definition logged_in_before :: "pg_world server" where
  "logged_in_before = scenario_start\<lparr>sessions := [0 \<mapsto> sample_session ''old'' ''alice''], registry := [(''old'', 0)]\<rparr>"

theorem second_login_listed_twice_witness:
  "\<exists>srv'. handle_message ref_externals sample_os ''d'' 0 (sample_session ''old'' ''alice'') LOGIN_REQ
       (login_payload ''alice'' ''pa'') logged_in_before = (Inr (), srv') \<and>
     2 \<le> count_list (fst (get_online_usernames (sessions srv') (registry srv'))) ''alice''"
proof -
  have des: "LoginReq_deserialize (login_payload ''alice'' ''pa'') =
      Inr \<lparr>lreq_username = ''alice'', lreq_password = ''pa''\<rparr>"
    using login_req.des_ser [of "\<lparr>lreq_username = ''alice'', lreq_password = ''pa''\<rparr>"] by (simp add: LoginReq_fits_def)
  have "length (scenario_token 0) = 64" by (simp add: scenario_token_def)
  then have "scenario_token 0 \<noteq> ''old''" by auto
  with second_login_listed_twice [OF _ _ _ _ des, of logged_in_before 0 "sample_session ''old'' ''alice''"
      ref_externals "scenario_resp 0 1 ''alice''" scenario_world1 sample_os "''d''"]
    scenario_login_alice scenario_tokens(1) scenario_connections(4)
  show ?thesis
    by (auto simp: logged_in_before_def sample_session_def set_auth_def is_authenticated_def scenario_resp_def)
qed

end
