(* ===== verification/FsxLifecycle.thy ===== *)
theory FsxLifecycle
  imports FsxIsolation FsxQueue FsxScenario
begin

text \<open>
  The life of a transfer as a state machine, and the well-formedness of the whole state: what
  each event may do to a transfer, and what types the numbers, names and buffers of a reachable
  state have.
\<close>

section \<open>Transitions of a transfer\<close>

text \<open>The terms of a transfer: what was agreed in the offer.\<close>

definition same_terms :: "TransferSession \<Rightarrow> TransferSession \<Rightarrow> bool" where
  "same_terms t t' \<longleftrightarrow>
     transfer_id t' = transfer_id t \<and> sender_user_id t' = sender_user_id t \<and>
     sender_username t' = sender_username t \<and> sender_token t' = sender_token t \<and>
     receiver_user_id t' = receiver_user_id t \<and> receiver_username t' = receiver_username t \<and>
     filename t' = filename t \<and> file_size t' = file_size t \<and> chunk_size t' = chunk_size t \<and>
     temp_file_path t' = temp_file_path t \<and> final_file_path t' = final_file_path t"

lemma same_terms_refl [simp]: "same_terms t t"
  by (simp add: same_terms_def)

text \<open>
  Nothing leads back to OFFERED, only ACCEPTED to RECEIVING, and an offer that was not accepted
  does not become COMPLETED.
\<close>

inductive lifecycle :: "TransferState \<Rightarrow> TransferState \<Rightarrow> bool" where
  same: "lifecycle st st"
| accept: "lifecycle st ACCEPTED"
| first_chunk: "lifecycle ACCEPTED RECEIVING"
| complete: "st \<noteq> OFFERED \<Longrightarrow> lifecycle st COMPLETED"
| fail: "lifecycle st FAILED"

declare lifecycle.intros [intro]

inductive_simps lifecycle_simps [simp]:
  "lifecycle st OFFERED" "lifecycle OFFERED COMPLETED" "lifecycle st RECEIVING"

text \<open>
  What the message of a step, if it has one, may make of a transfer. Only the parties of the
  transfer can change it. An acceptance gives it a new stream; a chunk that has the expected index
  is counted, and its bytes are added; a chunk with another index leaves the counters as they are.
  Where the disk fails, or a chunk is empty, the transfer fails. Nothing else touches the counters.
\<close>

definition after_accept :: "bool \<Rightarrow> bool \<Rightarrow> TransferSession \<Rightarrow> TransferSession set" where
  "after_accept sound accept tr =
     (if \<not> accept then {tr\<lparr>tstate := FAILED\<rparr>}
      else {tr\<lparr>file_handle := Some h, tstate := ACCEPTED\<rparr> | h. True} \<union> (if sound then {} else {tr\<lparr>tstate := FAILED\<rparr>}))"

definition after_chunk :: "bool \<Rightarrow> u32 \<Rightarrow> bytes \<Rightarrow> TransferSession \<Rightarrow> TransferSession set" where
  "after_chunk sound i d tr =
     (if d = [] then {tr\<lparr>tstate := FAILED\<rparr>}
      else insert
        (if i = expected_chunk_index tr
         then tr\<lparr>expected_chunk_index := expected_chunk_index tr + 1,
                 bytes_received := bytes_received tr + word_of_nat (length d), tstate := RECEIVING\<rparr>
         else tr)
        (if sound then {} else {tr\<lparr>tstate := FAILED\<rparr>}))"

definition after_done :: "TransferSession \<Rightarrow> TransferSession set" where
  "after_done tr =
     insert (tr\<lparr>tstate := FAILED\<rparr>) (if file_handle tr = None then {} else {tr\<lparr>tstate := COMPLETED\<rparr>})"

definition may_become ::
  "bool \<Rightarrow> (TcpSession \<times> MsgType \<times> bytes) option \<Rightarrow> u64 \<Rightarrow> TransferSession \<Rightarrow> TransferSession set" where
  "may_become sound msg tid tr =
     (case msg of
        None \<Rightarrow> {tr}
      | Some (s, t, p) \<Rightarrow>
          if \<not> is_authenticated s then {tr}
          else if t = FILE_ACCEPT_REQ then
            (case FileAcceptReq_deserialize p of
               Inl _ \<Rightarrow> {tr}
             | Inr m \<Rightarrow> if areq_transfer_id m \<noteq> tid \<or> receiver_user_id tr \<noteq> sess_user_id s then {tr}
                 else after_accept sound (areq_accept m) tr)
          else if t = FILE_CHUNK then
            (case FileChunk_deserialize p of
               Inl _ \<Rightarrow> {tr}
             | Inr m \<Rightarrow> if chunk_transfer_id m \<noteq> tid \<or> sender_user_id tr \<noteq> sess_user_id s \<or> \<not> live_state (tstate tr)
                 then {tr} else after_chunk sound (chunk_index m) (chunk_data m) tr)
          else if t = FILE_DONE then
            (case FileDone_deserialize p of
               Inl _ \<Rightarrow> {tr}
             | Inr m \<Rightarrow> if done_transfer_id m \<noteq> tid \<or> sender_user_id tr \<noteq> sess_user_id s then {tr}
                 else after_done tr)
          else {tr})"

lemmas may_become_defs = may_become_def after_accept_def after_chunk_def after_done_def

text \<open>It moves along the machine then, and keeps its terms.\<close>

lemma may_become_cases:
  "tr' \<in> may_become sound msg tid tr \<Longrightarrow> tr' = tr \<or> (\<exists>b. tr' \<in> after_accept sound b tr) \<or>
     live_state (tstate tr) \<and> (\<exists>i d. tr' \<in> after_chunk sound i d tr) \<or> tr' \<in> after_done tr"
  by (cases msg) (auto simp: may_become_def split: sum.splits if_splits, blast+)

lemma may_become_lifecycle:
  assumes "tr' \<in> may_become sound msg tid tr" and "tstate tr = OFFERED \<Longrightarrow> file_handle tr = None"
  shows "same_terms tr tr'" and "lifecycle (tstate tr) (tstate tr')"
    and "tstate tr' = OFFERED \<Longrightarrow> file_handle tr' = None"
  using may_become_cases [OF assms(1)] assms(2)
  by (auto simp: after_accept_def after_chunk_def after_done_def same_terms_def live_state_def lifecycle.intros
      split: if_splits)

lemma may_become_same_message:
  assumes "is_authenticated s = is_authenticated s0" and "sess_user_id s = sess_user_id s0"
  shows "may_become sound (Some (s, t, p)) = may_become sound (Some (s0, t, p))"
  by (intro ext) (simp add: may_become_def assms split: sum.split)

definition offered_closed :: "TransferManager \<Rightarrow> bool" where
  "offered_closed tm \<longleftrightarrow>
     (\<forall>tid t. get_transfer tm tid = Some t \<longrightarrow> tstate t = OFFERED \<longrightarrow> file_handle t = None)"

definition evolves ::
  "bool \<Rightarrow> (TcpSession \<times> MsgType \<times> bytes) option \<Rightarrow> TransferManager \<Rightarrow> TransferManager \<Rightarrow> bool" where
  "evolves sound msg tm tm' \<longleftrightarrow> offered_closed tm' \<and>
     (\<forall>tid tr. tid \<noteq> next_transfer_id tm \<longrightarrow> get_transfer tm tid = Some tr \<longrightarrow>
        (\<exists>tr' \<in> may_become sound msg tid tr. get_transfer tm' tid = Some tr'))"

lemma evolves_same:
  assumes "offered_closed tm" and "\<And>tid tr. get_transfer tm tid = Some tr \<Longrightarrow> tr \<in> may_become sound msg tid tr"
  shows "evolves sound msg tm tm"
  using assms by (auto simp: evolves_def)

lemma evolves_modify:
  assumes "offered_closed tm" and "get_transfer tm tid = Some tr" and "f tr \<in> may_become sound msg tid tr"
    and "\<And>tid' tr'. tid' \<noteq> tid \<Longrightarrow> get_transfer tm tid' = Some tr' \<Longrightarrow> tr' \<in> may_become sound msg tid' tr'"
  shows "evolves sound msg tm (modify_transfer tid f tm)"
  using assms may_become_lifecycle(3) [OF assms(3)] by (auto simp: evolves_def offered_closed_def)

lemma evolves_create:
  assumes "offered_closed tm" and "tid = next_transfer_id tm"
    and "\<And>t. tstate (g t) = tstate t" and "\<And>t. file_handle (g t) = file_handle t"
    and "\<And>tid' tr'. tr' \<in> may_become sound msg tid' tr'"
  shows "evolves sound msg tm (modify_transfer tid g (snd (create_transfer a b c d e f h i tm)))"
  using assms by (auto simp: evolves_def offered_closed_def)

lemma evolves_create_0:
  assumes "offered_closed tm" and "\<And>tid' tr'. tr' \<in> may_become sound msg tid' tr'"
  shows "evolves sound msg tm (snd (create_transfer a b c d e f h i tm))"
  using assms by (auto simp: evolves_def offered_closed_def)

abbreviation srv_evolves :: "bool \<Rightarrow> (TcpSession \<times> MsgType \<times> bytes) option \<Rightarrow> 'w server \<Rightarrow> 'w server \<Rightarrow> bool" where
  "srv_evolves sound msg srv srv' \<equiv> evolves sound msg (manager srv) (manager srv')"

lemma accept_evolves:
  assumes "offered_closed (manager srv)" and sound: "sound \<Longrightarrow> disk_ok os"
  shows "keeps (srv_evolves sound (Some (s, FILE_ACCEPT_REQ, p)) srv) (handle_file_accept_req os base c s p) srv"
proof -
  have nopen: "\<not> sound" if "fst (open_for_write os base tid name st) = None" for tid name st
    using that sound open_receiving [of os base tid name st] by force
  let ?msg = "Some (s, FILE_ACCEPT_REQ, p)"
  show ?thesis
  proof (cases "\<exists>m tr. is_authenticated s \<and> FileAcceptReq_deserialize p = Inr m \<and>
      get_transfer (manager srv) (areq_transfer_id m) = Some tr \<and> receiver_user_id tr = sess_user_id s")
    case False
    then have "tr \<in> may_become sound ?msg tid tr" if "get_transfer (manager srv) tid = Some tr" for tid tr
      using that by (auto simp: may_become_def split: sum.split)
    then have "srv_evolves sound ?msg srv srv" by (rule evolves_same [OF assms(1)])
    with False show ?thesis
      by (auto simp: handle_file_accept_req_def wp_simps split: sum.split exn.split option.split)
  next
    case True
    then obtain m tr where m: "is_authenticated s" "FileAcceptReq_deserialize p = Inr m"
      and tr: "get_transfer (manager srv) (areq_transfer_id m) = Some tr" "receiver_user_id tr = sess_user_id s" by blast
    have msg: "may_become sound ?msg (areq_transfer_id m) tr = after_accept sound (areq_accept m) tr"
      and other: "tid' \<noteq> areq_transfer_id m \<Longrightarrow> tr' \<in> may_become sound ?msg tid' tr'" for tid' tr'
      using m tr by (auto simp: may_become_def)
    have failed: "evolves sound ?msg (manager srv)
        (modify_transfer (areq_transfer_id m) (\<lambda>t. t\<lparr>tstate := FAILED\<rparr>) (manager srv))"
      if "\<not> areq_accept m \<or> \<not> sound"
      using that by (intro evolves_modify [OF assms(1) tr(1)] other) (auto simp: msg after_accept_def)
    have opened: "evolves sound ?msg (manager srv) (modify_transfer (areq_transfer_id m)
        ((\<lambda>t. t\<lparr>tstate := ACCEPTED\<rparr>) \<circ> (\<lambda>t. t\<lparr>file_handle := Some h\<rparr>)) (manager srv))"
      if "areq_accept m" for h
      using that by (intro evolves_modify [OF assms(1) tr(1)] other) (auto simp: msg after_accept_def)
    show ?thesis
      using m tr failed opened nopen [of "areq_transfer_id m" "filename tr" "store srv"]
      by (auto simp: handle_file_accept_req_def wp_simps case_prod_unfold Let_def split: option.split)
  qed
qed

lemma chunk_evolves:
  assumes "offered_closed (manager srv)" and handles: "handles_ok (manager srv) (store srv)"
    and sound: "sound \<Longrightarrow> disk_ok os"
  shows "keeps (srv_evolves sound (Some (s, FILE_CHUNK, p)) srv) (handle_file_chunk os s p) srv"
proof -
  have fails: "d = [] \<or> \<not> sound"
    if "get_transfer (manager srv) tid = Some tr" "live_state (tstate tr)"
      "fst (write_chunk os (file_handle tr) d (store srv)) = Inr n" "n < 0" for tid tr d n
  proof (rule ccontr)
    assume no: "\<not> (d = [] \<or> \<not> sound)"
    from that(1,2) handles obtain h where "file_handle tr = Some h" "is_open (store srv) h"
      unfolding handles_ok_def by blast
    with that(3,4) no sound show False by (auto simp: fst_write_chunk is_open_def disk_ok_def not_less [symmetric] split: if_splits)
  qed
  have written: "d \<noteq> []" if "fst (write_chunk os (file_handle tr) d (store srv)) = Inr n" "\<not> n < 0" for tr d n
    using that by (auto simp: fst_write_chunk split: option.splits)
  show ?thesis
  proof (cases "\<exists>m tr. is_authenticated s \<and> FileChunk_deserialize p = Inr m \<and>
      get_transfer (manager srv) (chunk_transfer_id m) = Some tr \<and> sender_user_id tr = sess_user_id s \<and> live_state (tstate tr)")
    case False
    then have "tr \<in> may_become sound (Some (s, FILE_CHUNK, p)) tid tr" if "get_transfer (manager srv) tid = Some tr" for tid tr
      using that by (auto simp: may_become_def split: sum.split)
    then have "srv_evolves sound (Some (s, FILE_CHUNK, p)) srv srv" by (rule evolves_same [OF assms(1)])
    with False show ?thesis
      by (auto simp: handle_file_chunk_def wp_simps live_state_def split: sum.split exn.split option.split)
  next
    case True
    then obtain m tr where m: "is_authenticated s" "FileChunk_deserialize p = Inr m"
      and tr: "get_transfer (manager srv) (chunk_transfer_id m) = Some tr" "sender_user_id tr = sess_user_id s"
        "live_state (tstate tr)" by blast
    have msg: "may_become sound (Some (s, FILE_CHUNK, p)) (chunk_transfer_id m) tr = after_chunk sound (chunk_index m) (chunk_data m) tr"
      and other: "tid' \<noteq> chunk_transfer_id m \<Longrightarrow> tr' \<in> may_become sound (Some (s, FILE_CHUNK, p)) tid' tr'" for tid' tr'
      using m tr by (auto simp: may_become_def)
    have failed: "evolves sound (Some (s, FILE_CHUNK, p)) (manager srv)
        (modify_transfer (chunk_transfer_id m) (\<lambda>t. t\<lparr>tstate := FAILED\<rparr>) (manager srv))"
      if "chunk_data m = [] \<or> \<not> sound"
      using that by (intro evolves_modify [OF assms(1) tr(1)] other) (auto simp: msg after_chunk_def)
    have counted: "evolves sound (Some (s, FILE_CHUNK, p)) (manager srv)
        (snd (mark_chunk_received (chunk_transfer_id m) (chunk_index m) (length (chunk_data m)) (manager srv)))"
      if "chunk_data m \<noteq> []"
    proof (cases "chunk_index m = expected_chunk_index tr")
      case True
      let ?f = "\<lambda>s. s\<lparr>expected_chunk_index := expected_chunk_index s + 1, bytes_received := bytes_received s +
          word_of_nat (length (chunk_data m)), tstate := (if tstate s = ACCEPTED then RECEIVING else tstate s)\<rparr>"
      have "?f tr \<in> may_become sound (Some (s, FILE_CHUNK, p)) (chunk_transfer_id m) tr"
        using True that tr(3) by (auto simp: msg after_chunk_def live_state_def)
      from evolves_modify [where f = ?f, OF assms(1) tr(1) this other] True tr(1) show ?thesis by (simp add: snd_mark_chunk)
    next
      case False
      have "tr' \<in> may_become sound (Some (s, FILE_CHUNK, p)) tid' tr'" if "get_transfer (manager srv) tid' = Some tr'" for tid' tr'
        using that other [of tid' tr'] tr(1) msg False \<open>chunk_data m \<noteq> []\<close>
        by (cases "tid' = chunk_transfer_id m") (auto simp: after_chunk_def)
      from evolves_same [OF assms(1) this] False tr(1) show ?thesis by (simp add: snd_mark_chunk)
    qed
    show ?thesis
      using m tr failed counted fails [OF tr(1,3), of "chunk_data m"] written [of tr "chunk_data m"] write_chunk_no_throw [of os]
      by (auto simp: handle_file_chunk_def wp_simps live_state_def split: sum.split exn.split)
  qed
qed

lemma done_evolves:
  assumes "offered_closed (manager srv)"
  shows "keeps (srv_evolves sound (Some (s, FILE_DONE, p)) srv) (handle_file_done os base c s p) srv"
proof -
  have opened: "fst (finalize_file os base tid name None st) \<noteq> Inr True" for tid name st
    by (simp add: finalize_file_def)
  show ?thesis
    using assms opened finalize_file_no_throw [of os base]
    by (auto simp: handle_file_done_def wp_simps may_become_def after_done_def
        intro!: evolves_modify evolves_same split: sum.split exn.split option.split)
qed

lemma other_message:
  "t \<noteq> FILE_ACCEPT_REQ \<Longrightarrow> t \<noteq> FILE_CHUNK \<Longrightarrow> t \<noteq> FILE_DONE \<Longrightarrow> may_become sound (Some (s, t, p)) tid tr = {tr}"
  by (simp add: may_become_def)

lemma message_evolves:
  assumes "offered_closed (manager srv)" and "handles_ok (manager srv) (store srv)" and "sound \<Longrightarrow> disk_ok os"
  shows "keeps (srv_evolves sound (Some (s, t, p)) srv) (handle_message X os base c s t p) srv"
proof (cases "t = FILE_ACCEPT_REQ \<or> t = FILE_CHUNK \<or> t = FILE_DONE")
  case True
  with accept_evolves [OF assms(1,3), where s = s and p = p and base = base and c = c]
    chunk_evolves [OF assms, where s = s and p = p]
    done_evolves [OF assms(1), where sound = sound and s = s and p = p and os = os and base = base and c = c]
  show ?thesis by (elim disjE) (simp_all add: handle_message_def wp_simps)
next
  case False
  have ev: "evolves sound (Some (s, t, p)) = evolves sound None"
    using False by (intro ext) (simp add: evolves_def other_message, simp add: may_become_def)
  have self: "\<And>tid tr. tr \<in> may_become sound None tid tr" by (simp add: may_become_def)
  have same: "evolves sound None (manager srv) (manager srv)" by (rule evolves_same [OF assms(1) self])
  have "keeps (srv_evolves sound None srv) (handle_register_req X c p) srv"
    "keeps (srv_evolves sound None srv) (handle_login_req X c p) srv"
    by (auto simp: handle_register_req_def handle_login_req_def wp_simps Let_def same
        wp_def [of "handle_register X _"] wp_def [of "handle_login X _"] split: sum.split exn.split)
  moreover have "keeps (srv_evolves sound None srv) (handle_file_offer_req X base c s p) srv"
    using assms(1) self
    by (auto simp: handle_file_offer_req_def wp_simps wp_def [of "get_user_by_username X _"] same
        intro!: evolves_create evolves_create_0 split: sum.split exn.split option.split)
  ultimately show ?thesis unfolding ev using False by (simp add: handle_message_def wp_simps same)
qed

lemma offered_closed_same: "same_files srv srv' \<Longrightarrow> offered_closed (manager srv') = offered_closed (manager srv)"
  by (simp add: same_files_def)

lemma offered_closed_read [simp]:
  "offered_closed (manager (online_remove c srv)) = offered_closed (manager srv)"
  "offered_closed (manager (release c srv)) = offered_closed (manager srv)"
  "offered_closed (manager (on_accept ec srv)) = offered_closed (manager srv)"
  "offered_closed (manager (on_written c ec srv)) = offered_closed (manager srv)"
  by (rule offered_closed_same, simp)+

lemma message_keeps_offers:
  assumes "transfers_ok base srv \<and> offered_closed (manager srv)"
    and "handle_message X os base c s t p srv = (Inr (), srv')"
  shows "transfers_ok base srv' \<and> offered_closed (manager srv')"
proof -
  have "handles_ok (manager srv) (store srv)" using assms(1) by (simp add: transfers_ok_def)
  with assms wp_apply [OF message_evolves [where sound = False] assms(2)] wp_apply [OF message_keeps_transfers assms(2)]
  show ?thesis by (simp add: evolves_def)
qed

interpretation offers: server_invariant X base w0 "\<lambda>srv. transfers_ok base srv \<and> offered_closed (manager srv)" for X base w0
proof unfold_locales
  show "transfers_ok base (server_init w0) \<and> offered_closed (manager (server_init w0))"
    using transfers.inv_init by (auto simp: offered_closed_def server_init_def TransferManager_init_def get_transfer_def)
next
  fix srv :: "'a server" and c s os t p srv'
  assume "transfers_ok base srv \<and> offered_closed (manager srv)" and "handle_message X os base c s t p srv = (Inr (), srv')"
  then show "transfers_ok base srv' \<and> offered_closed (manager srv')" by (rule message_keeps_offers)
qed (simp_all add: transfers.inv_offline transfers.inv_read transfers.inv_accept transfers.inv_release transfers.inv_written)

lemma event_evolves:
  assumes "transfers_ok base srv" and "offered_closed (manager srv)"
    and en: "enabled srv ev" and run: "run_event X os base ev srv = (Inr (), srv')"
  shows "srv_evolves (disk_ok os) (message_of srv ev) srv srv'"
  using event_handled [OF en run] unfolding handled_def
proof (elim disjE exE conjE)
  assume "message_of srv ev = None" "same_files srv srv'"
  then show ?thesis using evolves_same [OF assms(2)] by (simp add: same_files_def may_become_def)
next
  fix c s s0 t p srv1 srv2
  assume 1: "message_of srv ev = Some (s0, t, p)" "is_authenticated s = is_authenticated s0" "sess_user_id s = sess_user_id s0"
    "same_files srv srv1" "handle_message X os base c s t p srv1 = (Inr (), srv2)" "same_files srv2 srv'"
  with assms(1,2) have "offered_closed (manager srv1)" "handles_ok (manager srv1) (store srv1)"
    by (simp_all add: same_files_def transfers_ok_def)
  from wp_apply [OF message_evolves [OF this, where sound = "disk_ok os"] 1(5)] 1(1,4,6)
    may_become_same_message [OF 1(2,3)]
  show ?thesis by (simp add: same_files_def evolves_def)
qed

section \<open>Properties\<close>

text \<open>
  C11: The life cycle of a transfer. In every step of the server, a transfer stays in the manager with
  the terms of its offer, and becomes what the message of the step may make of it: without a message
  from one of its parties about it, it stays as it is. A chunk is counted exactly when it is not
  empty, comes from the sender while the transfer is ACCEPTED or RECEIVING, has the expected index,
  and is written: then the index grows by one, the bytes received grow by its length, and the state
  is RECEIVING; nothing else changes the two counters, so that neither is ever reset. On a disk that
  takes what it is given, an acceptance and a chunk never fail. The state moves along the machine
  \<open>lifecycle\<close>: never back to OFFERED, to RECEIVING only from ACCEPTED, and never from OFFERED to
  COMPLETED (as long as ids are not reused, that is for fewer than 2^64 transfers).
\<close>

theorem transfer_lifecycle:
  assumes "reachable X base w0 srv" and "enabled srv ev" and "run_event X os base ev srv = (Inr (), srv')"
    and "get_transfer (manager srv) tid = Some t" and "tid \<noteq> next_transfer_id (manager srv)"
  shows "\<exists>t'. get_transfer (manager srv') tid = Some t' \<and>
    t' \<in> may_become (disk_ok os) (message_of srv ev) tid t \<and>
    same_terms t t' \<and> lifecycle (tstate t) (tstate t') \<and>
    (expected_chunk_index t' = expected_chunk_index t \<and> bytes_received t' = bytes_received t \<or>
     (\<exists>s p m. message_of srv ev = Some (s, FILE_CHUNK, p) \<and> FileChunk_deserialize p = Inr m \<and> chunk_transfer_id m = tid \<and>
        is_authenticated s \<and> sess_user_id s = sender_user_id t \<and> chunk_index m = expected_chunk_index t \<and>
        chunk_data m \<noteq> [] \<and> (tstate t = ACCEPTED \<or> tstate t = RECEIVING) \<and> tstate t' = RECEIVING \<and>
        expected_chunk_index t' = expected_chunk_index t + 1 \<and>
        bytes_received t' = bytes_received t + word_of_nat (length (chunk_data m))))"
proof -
  have inv: "transfers_ok base srv" "offered_closed (manager srv)" using offers.inv_reachable [OF assms(1)] by simp_all
  from event_evolves [OF inv assms(2,3)] assms(4,5) obtain t' where
    t': "get_transfer (manager srv') tid = Some t'" "t' \<in> may_become (disk_ok os) (message_of srv ev) tid t"
    unfolding evolves_def by blast
  have "tstate t = OFFERED \<Longrightarrow> file_handle t = None" using inv(2) assms(4) by (simp add: offered_closed_def)
  note life = may_become_lifecycle [OF t'(2) this]
  show ?thesis
    using t' life(1,2)
    by (intro exI [of _ t'])
      (auto simp: may_become_defs live_state_def split: option.splits sum.splits if_splits)
qed

text \<open>The first chunk of Alice's upload.\<close>

theorem transfer_lifecycle_witness:
  "\<exists>srv srv' t t'. reachable ref_externals ''d'' scenario_world srv \<and>
     run_event ref_externals sample_os ''d'' (BodyDone 0 False (file_chunk_payload 1 0 [1, 2, 3])) srv = (Inr (), srv') \<and>
     get_transfer (manager srv) 1 = Some t \<and> get_transfer (manager srv') 1 = Some t' \<and>
     same_terms t t' \<and> lifecycle (tstate t) (tstate t') \<and> tstate t' = RECEIVING \<and>
     expected_chunk_index t = 0 \<and> bytes_received t = 0 \<and> expected_chunk_index t' = 1 \<and> bytes_received t' = 3"
proof -
  note One_nat_def [simp del]
  let ?p = "file_chunk_payload 1 0 [1, 2, 3]"
  obtain srv h f q where r: "reachable ref_externals ''d'' scenario_world srv"
    and rec: "receiving sample_os ''d'' 1 ''a.txt'' 1 h f [] 0 (manager srv) (store srv)"
    and con: "connected 0 1 q ReadHeader srv" and n: "next_transfer_id (manager srv) = 2"
    by (rule scenario_accepted)
  let ?srv = "modify_session 0 (reading_body FILE_CHUNK (length ?p)) srv"
  obtain s where s: "sessions srv 0 = Some s" "pending_read s = ReadHeader" using con by (auto simp: connected_def)
  have p: "?p \<noteq> []" "length ?p \<le> 16777216" by (simp_all add: file_chunk_payload_def)
  have "server_step ref_externals ''d'' srv
      (HeaderDone 0 False (header_bytes (make_header FILE_CHUNK (word_of_nat (length ?p))))) ?srv"
    by (rule server_step.run [OF _ run_header [OF s(1) p, where os = sample_os]])
      (simp add: s HEADER_SIZE_def)
  with r have r1: "reachable ref_externals ''d'' scenario_world ?srv" by (rule reachable.step)
  obtain srv' where m: "message_body ref_externals sample_os ''d'' 0 FILE_CHUNK ?p srv = (Inr (), srv')"
    and rec': "receiving sample_os ''d'' 1 ''a.txt'' 1 h f ([] @ [1, 2, 3]) (0 + 1) (manager srv') (store srv')"
    by (rule message_chunk [OF sample_disk_ok rec con, where X = ref_externals and d = "[1, 2, 3]"]) (simp, rule that)
  have run: "run_event ref_externals sample_os ''d'' (BodyDone 0 False ?p) ?srv = (Inr (), srv')"
    using run_body [OF s(1) p(1), of FILE_CHUNK ref_externals sample_os "''d''"] m by simp
  have en: "enabled ?srv (BodyDone 0 False ?p)" by (simp add: s reading_body_def)
  obtain t where t: "get_transfer (manager ?srv) 1 = Some t" "expected_chunk_index t = 0" "bytes_received t = 0"
    using rec by (auto simp: receiving_def)
  have new: "1 \<noteq> next_transfer_id (manager ?srv)" using n by simp
  obtain t' where t': "get_transfer (manager srv') 1 = Some t'" "same_terms t t'" "lifecycle (tstate t) (tstate t')"
    "expected_chunk_index t' = expected_chunk_index t \<or> tstate t' = RECEIVING"
    using transfer_lifecycle [OF r1 en run t(1) new] by blast
  moreover have "expected_chunk_index t' = 1" "bytes_received t' = 3"
    using rec' t'(1) by (auto simp: receiving_def)
  ultimately show ?thesis using r1 run t by (intro exI [of _ ?srv] exI [of _ srv'] exI [of _ t] exI [of _ t']) simp
qed

section \<open>Types of a reachable state\<close>

text \<open>
  The buffer of a body has at most 16 MiB, and while it is being filled it has the length that a
  valid header announced.
\<close>

definition buffer_ok :: "TcpSession \<Rightarrow> bool" where
  "buffer_ok s \<longleftrightarrow> length (sess_body s) \<le> 16777216 \<and>
     (pending_read s = ReadBody \<longrightarrow> sess_body s \<noteq> [] \<and> validate_header (sess_header s) = Inr () \<and>
        length (sess_body s) = unat (payload_len (sess_header s)))"

definition buffers_ok :: "'w server \<Rightarrow> bool" where
  "buffers_ok srv \<longleftrightarrow> (\<forall>c s. sessions srv c = Some s \<longrightarrow> buffer_ok s)"

lemma buffer_ok_fields [simp]:
  "buffer_ok (session_send t p s) = buffer_ok s" "buffer_ok (set_auth tk i n s) = buffer_ok s"
  "buffer_ok (clear_auth s) = buffer_ok s" "buffer_ok (s\<lparr>outq := q\<rparr>) = buffer_ok s"
  "buffer_ok (s\<lparr>pending_write := w\<rparr>) = buffer_ok s" "buffer_ok TcpSession_new"
  by (simp_all add: buffer_ok_def set_auth_def clear_auth_def TcpSession_new_def)

lemma buffers_ok_modify:
  "buffers_ok srv \<Longrightarrow> (\<And>s. buffer_ok s \<Longrightarrow> buffer_ok (f s)) \<Longrightarrow> buffers_ok (modify_session c f srv)"
  by (auto simp: buffers_ok_def split: if_splits)

interpretation buffers: session_property buffers_ok
  by unfold_locales (auto simp: buffers_ok_def split: if_splits)

lemma buffers_ok_offline: "buffers_ok srv \<Longrightarrow> buffers_ok (online_remove c srv)"
  by (auto simp: online_remove_def case_prod_unfold Let_def buffers.I_simps intro!: buffers_ok_modify split: option.split)

lemma buffers_ok_release: "buffers_ok srv \<Longrightarrow> buffers_ok (release c srv)"
  by (auto simp: release_def buffers_ok_def split: option.split)

lemma buffers_ok_reading: "buffers_ok srv \<Longrightarrow> buffers_ok (do_read_header c srv)"
  unfolding do_read_header_def by (rule buffers_ok_modify) (simp_all add: buffer_ok_def)

lemma buffers_ok_dispatch:
  assumes "buffers_ok srv"
    and "sbind (handle_message X os base c s t p) (\<lambda>_ srv. (Inr (), do_read_header c srv)) srv = (Inr (), srv')"
  shows "buffers_ok srv'"
proof -
  obtain r srv1 where h: "handle_message X os base c s t p srv = (r, srv1)" by force
  with assms(2) have "r = Inr ()" "srv' = do_read_header c srv1" by (auto simp: sbind_def split: sum.splits)
  with wp_apply [OF buffers.message_keeps [OF assms(1)] h] show ?thesis by (simp add: buffers_ok_reading)
qed

lemma buffers_ok_body_read:
  assumes "buffers_ok srv" and "do_read_body X os base c srv = (Inr (), srv')"
    and "\<And>s. sessions srv c = Some s \<Longrightarrow> validate_header (sess_header s) = Inr () \<and>
      length (sess_body s) = unat (payload_len (sess_header s))"
  shows "buffers_ok srv'"
proof (cases "sessions srv c")
  case None
  with assms show ?thesis by (simp add: do_read_body_def)
next
  case (Some s)
  show ?thesis
  proof (cases "sess_body s = []")
    case True
    with Some assms(2) buffers_ok_dispatch [OF assms(1)] show ?thesis by (simp add: do_read_body_def)
  next
    case False
    with Some assms(2) have "srv' = modify_session c (\<lambda>s. s\<lparr>pending_read := ReadBody\<rparr>) srv"
      by (simp add: do_read_body_def)
    moreover have "unat (payload_len (sess_header s)) \<le> 16777216"
      using assms(1) Some assms(3) [OF Some] unfolding buffers_ok_def buffer_ok_def by metis
    ultimately show ?thesis
      using assms(1) assms(3) [OF Some] Some False by (auto simp: buffers_ok_def buffer_ok_def split: if_splits)
  qed
qed

lemma buffers_ok_header:
  assumes ok: "buffers_ok srv" and run: "on_header X os base c ec bs srv = (Inr (), srv')"
  shows "buffers_ok srv'"
proof -
  let ?h = "\<lambda>s. header_of_bytes (transferred bs (header_bytes (sess_header s)))"
  let ?srv1 = "modify_session c (\<lambda>s. s\<lparr>pending_read := NoRead, sess_header := ?h s\<rparr>) srv"
  have ok1: "buffers_ok ?srv1" by (rule buffers_ok_modify [OF ok]) (simp add: buffer_ok_def)
  show ?thesis
  proof (cases "\<exists>s. sessions srv c = Some s \<and> \<not> ec \<and> length bs = HEADER_SIZE \<and>
      validate_header (?h s) = Inr () \<and> \<not> payload_len (?h s) > 16 * 1024 * 1024")
    case False
    with run ok1 buffers_ok_offline [OF ok1] show ?thesis
      by (auto simp: on_header_def Let_def split: option.splits if_splits sum.splits exn.splits)
  next
    case True
    then obtain s where s: "sessions srv c = Some s" and m: "\<not> ec" "length bs = HEADER_SIZE"
      "validate_header (?h s) = Inr ()" "\<not> payload_len (?h s) > 16 * 1024 * 1024" by blast
    let ?srv2 = "modify_session c (\<lambda>u. u\<lparr>sess_body := replicate (unat (payload_len (?h s))) 0\<rparr>) ?srv1"
    have "do_read_body X os base c ?srv2 = (Inr (), srv')"
      using run s m by (simp add: on_header_def Let_def)
    moreover have "unat (payload_len (?h s)) \<le> 16777216"
      using m(4) by (simp add: word_less_nat_alt not_less)
    then have "buffers_ok ?srv2"
      using ok1 s by (auto simp: buffers_ok_def buffer_ok_def split: if_splits)
    moreover have "validate_header (sess_header s2) = Inr () \<and> length (sess_body s2) = unat (payload_len (sess_header s2))"
      if "sessions ?srv2 c = Some s2" for s2
      using that s m(3) by auto
    ultimately show ?thesis using buffers_ok_body_read by blast
  qed
qed

lemma buffers_ok_event:
  assumes ok: "buffers_ok srv" and en: "enabled srv ev" and run: "run_event X os base ev srv = (Inr (), srv')"
  shows "buffers_ok srv'"
proof -
  have released: "buffers_ok srv'"
    if "sbind m (\<lambda>_ srv. (Inr (), release c srv)) srv = (Inr (), srv')"
      and "\<And>srv1. m srv = (Inr (), srv1) \<Longrightarrow> buffers_ok srv1" for m :: "('a server, unit) action" and c
    using that by (auto simp: sbind_def buffers_ok_release split: prod.splits sum.splits)
  show ?thesis
  proof (cases ev)
    case (AcceptDone ec)
    with ok run show ?thesis
      by (auto simp: on_accept_def TcpSession_start_def Let_def intro!: buffers_ok_reading)
        (auto simp: buffers_ok_def)
  next
    case (HeaderDone c ec bs)
    with run buffers_ok_header [OF ok] show ?thesis by (auto intro: released)
  next
    case (BodyDone c ec bs)
    let ?srv1 = "modify_session c (\<lambda>s. s\<lparr>pending_read := NoRead, sess_body := transferred bs (sess_body s)\<rparr>) srv"
    have "length bs \<le> length (sess_body s)" if "sessions srv c = Some s" for s
      using en BodyDone that by simp
    then have ok1: "buffers_ok ?srv1"
      using ok by (auto simp: buffers_ok_def buffer_ok_def transferred_def split: if_splits)
    have "buffers_ok srv1" if "on_body X os base c ec bs srv = (Inr (), srv1)" for srv1
      using that ok1 buffers_ok_offline [OF ok1] buffers_ok_dispatch [OF ok1]
      by (auto simp: on_body_def Let_def simp del: sessions_modify split: option.splits if_splits)
    with BodyDone run show ?thesis by (auto intro: released)
  next
    case (WriteDone c ec)
    with ok run show ?thesis
      by (auto simp: on_written_def Let_def do_write_def
          intro!: buffers_ok_release buffers_ok_offline buffers_ok_modify)
  qed
qed

lemma buffers_reachable: "reachable X base w0 srv \<Longrightarrow> buffers_ok srv"
proof (induction rule: reachable.induct)
  case start
  then show ?case by (simp add: buffers_ok_def server_init_def)
next
  case (step srv ev srv')
  then show ?case by (auto elim!: server_step_cases intro: buffers_ok_event)
qed

text \<open>The registry: tokens are distinct, and entries name connections that were accepted.\<close>

definition registry_ok :: "'w server \<Rightarrow> bool" where
  "registry_ok srv \<longleftrightarrow> conns_ok srv \<and> distinct (map fst (registry srv)) \<and>
     (\<forall>(t, c) \<in> set (registry srv). c < next_conn srv)"

lemma registry_ok_same:
  "registry_ok srv \<Longrightarrow> registry srv' = registry srv \<Longrightarrow> next_conn srv' = next_conn srv \<Longrightarrow>
     (\<And>c. sessions srv' c \<noteq> None \<Longrightarrow> sessions srv c \<noteq> None) \<Longrightarrow> registry_ok srv'"
  by (auto simp: registry_ok_def conns_ok_def)

lemma registry_ok_simps [simp]:
  "registry_ok (srv\<lparr>world := w\<rparr>) = registry_ok srv" "registry_ok (srv\<lparr>manager := m\<rparr>) = registry_ok srv"
  "registry_ok (srv\<lparr>store := st\<rparr>) = registry_ok srv"
  "registry_ok (modify_session c f srv) = registry_ok srv" "registry_ok (send c t p srv) = registry_ok srv"
  by (auto simp: registry_ok_def conns_ok_def split: if_splits)

lemma registry_ok_unexpired: "registry_ok srv \<Longrightarrow> registry_ok (srv\<lparr>registry := unexpired objs (registry srv)\<rparr>)"
  by (auto simp: registry_ok_def conns_ok_def distinct_unexpired dest!: set_unexpired)

lemma registry_ok_add:
  "registry_ok srv \<Longrightarrow> sessions srv c \<noteq> None \<Longrightarrow> registry_ok (srv\<lparr>registry := add_session t c (registry srv)\<rparr>)"
  by (auto simp: registry_ok_def conns_ok_def add_session_def distinct_update set_update_iff)

lemma registry_ok_remove: "registry_ok srv \<Longrightarrow> registry_ok (srv\<lparr>registry := remove_session t (registry srv)\<rparr>)"
  by (auto simp: registry_ok_def conns_ok_def remove_session_def distinct_delete dest!: set_delete)

lemma registry_ok_online:
  assumes "registry_ok srv" and "sessions srv c \<noteq> None" and "reg = registry srv"
  shows "registry_ok (srv\<lparr>registry := unexpired objs (add_session t c reg)\<rparr>)"
  using registry_ok_unexpired [OF registry_ok_add [OF assms(1,2)]] assms(3) by simp

lemma registry_ok_offline: "registry_ok srv \<Longrightarrow> registry_ok (online_remove c srv)"
proof -
  assume ok: "registry_ok srv"
  have "registry_ok (srv\<lparr>registry := remove_session t (unexpired objs (registry srv))\<rparr>)" for t objs
    using registry_ok_remove [OF registry_ok_unexpired [OF ok]] by simp
  with ok show ?thesis by (auto simp: online_remove_def case_prod_unfold Let_def split: option.split)
qed

lemma message_registry:
  assumes "registry_ok srv" and "sessions srv c \<noteq> None"
  shows "keeps registry_ok (handle_message X os base c s t p) srv"
proof (rule keeps_message)
  show "keeps registry_ok (handle_login_req X c p) srv"
    using assms
    by (auto simp: handle_login_req_def wp_simps wp_def [of "handle_login X _"] Let_def
        intro!: registry_ok_online split: sum.split exn.split)
qed (use assms registry_ok_unexpired [OF assms(1)] in \<open>auto simp: handle_register_req_def handle_file_offer_req_def
    handle_file_accept_req_def handle_file_chunk_def handle_file_done_def wp_simps wp_def [of "handle_register X _"]
    wp_def [of "get_user_by_username X _"] case_prod_unfold Let_def split: sum.split exn.split option.split\<close>)

interpretation registry_inv: server_invariant X base w0 registry_ok for X base w0
proof unfold_locales
  show "registry_ok (server_init w0)" by (simp add: registry_ok_def conns_ok_def server_init_def)
next
  fix srv :: "'a server" and c s os t p srv'
  assume "registry_ok srv" and "sessions srv c = Some s" and "handle_message X os base c s t p srv = (Inr (), srv')"
  then show "registry_ok srv'" using wp_apply [OF message_registry] by blast
next
  fix srv :: "'a server" and c
  assume "registry_ok srv"
  then show "registry_ok (release c srv)" by (auto simp: release_def registry_ok_def conns_ok_def split: option.split)
next
  fix srv :: "'a server"
  assume "registry_ok srv"
  then show "registry_ok (on_accept False srv)"
    by (simp add: on_accept_def TcpSession_start_def do_read_header_def Let_def)
      (auto simp: registry_ok_def conns_ok_def less_Suc_eq)
qed (auto simp: registry_ok_offline on_written_def Let_def)

text \<open>
  C18: The types of the state. In every reachable state: connection numbers in use were handed out;
  the registry has each token once and only numbers that were handed out; the manager has each
  transfer once, under its own id; open streams and names lead to files that exist; no session
  holds a body buffer of more than 16 MiB; and the buffer of a body that is being read has exactly
  the length its header, which was valid, announced.
\<close>

theorem state_types:
  assumes "reachable X base w0 srv"
  shows "(\<forall>c. sessions srv c \<noteq> None \<longrightarrow> c < next_conn srv) \<and>
    distinct (map fst (registry srv)) \<and> (\<forall>(t, c) \<in> set (registry srv). c < next_conn srv) \<and>
    tm_wf (manager srv) \<and> stdio_wf (store srv) \<and>
    (\<forall>c s. sessions srv c = Some s \<longrightarrow> length (sess_body s) \<le> 16777216 \<and>
       (pending_read s = ReadBody \<longrightarrow> validate_header (sess_header s) = Inr () \<and>
          length (sess_body s) = unat (payload_len (sess_header s))))"
proof -
  have reg: "registry_ok srv" by (rule registry_inv.inv_reachable [OF assms])
  have "transfers_ok base srv" by (rule transfers.inv_reachable [OF assms])
  moreover have "\<forall>c. sessions srv c \<noteq> None \<longrightarrow> c < next_conn srv"
    using reg by (auto simp: registry_ok_def conns_ok_def)
  moreover have "distinct (map fst (registry srv)) \<and> (\<forall>(t, c) \<in> set (registry srv). c < next_conn srv)"
    using reg by (simp add: registry_ok_def)
  ultimately show ?thesis
    using buffers_reachable [OF assms] unfolding transfers_ok_def buffers_ok_def buffer_ok_def by blast
qed

theorem state_types_witness:
  "\<exists>(srv :: pg_world server) t. get_transfer (manager srv) 1 = Some t \<and> tm_wf (manager srv) \<and>
     distinct (map fst (registry srv)) \<and> sessions srv 0 \<noteq> None \<and> 0 < next_conn srv"
proof -
  obtain srv h f q where r: "reachable ref_externals ''d'' scenario_world srv"
    and rec: "receiving sample_os ''d'' 1 ''a.txt'' 1 h f [] 0 (manager srv) (store srv)"
    and c: "connected 0 1 q ReadHeader srv"
    by (rule scenario_until_accepted)
  from rec c have "get_transfer (manager srv) 1 \<noteq> None" "sessions srv 0 \<noteq> None"
    by (auto simp: receiving_def connected_def)
  with state_types [OF r] show ?thesis by blast
qed

end
