(* ===== verification/FsxConfig.thy ===== *)
theory FsxConfig
  imports FsxPrelude
begin

text \<open>
  Configuration: environment variables (\<open>core/src/main.cpp\<close>, \<open>common/config.h\<close>,
  \<open>storage/db_config.cpp\<close>), the choice of the TCP port, and the connection string of \<open>Db\<close>. An
  environment gives each name its value, if it has one (\<open>std::getenv\<close>).
\<close>

section \<open>Environment variables\<close>

type_synonym env = "string \<Rightarrow> string option"

definition env_or :: "env \<Rightarrow> string \<Rightarrow> string \<Rightarrow> string" where
  "env_or env k defv = (case env k of Some v \<Rightarrow> v | None \<Rightarrow> defv)"

text \<open>An integer; the default when the variable is missing, empty, or no integer in range.\<close>

definition env_int_or :: "env \<Rightarrow> string \<Rightarrow> int \<Rightarrow> int" where
  "env_int_or env k defv =
     (case env k of
        None \<Rightarrow> defv
      | Some v \<Rightarrow> if length v = 0 then defv else (case stoi v of Inr i \<Rightarrow> i | Inl _ \<Rightarrow> defv))"

text \<open>\<open>getenv_or\<close> of \<open>config.h\<close> also takes an empty value for a missing one.\<close>

definition getenv_or :: "env \<Rightarrow> string \<Rightarrow> string \<Rightarrow> string" where
  "getenv_or env k defv = (case env k of Some v \<Rightarrow> if v \<noteq> [] then v else defv | None \<Rightarrow> defv)"

record Config =
  tcp_port :: int
  admin_port :: int
  log_path :: string

definition Config_from_env :: "env \<Rightarrow> Config result" where
  "Config_from_env env =
     rbind (stoi (getenv_or env ''FSX_TCP_PORT'' ''9000'')) (\<lambda>tcp.
     rbind (stoi (getenv_or env ''FSX_ADMIN_PORT'' ''9100'')) (\<lambda>admin.
     Inr \<lparr>tcp_port = tcp, admin_port = admin,
          log_path = getenv_or env ''FSX_LOG_PATH'' ''./report.log''\<rparr>))"

section \<open>Connection strings\<close>

text \<open>\<open>fsx::db::DbConfig\<close>, and how \<open>main\<close> fills it.\<close>

record DbConfig =
  cfg_host :: string
  cfg_port :: int
  cfg_user :: string
  cfg_password :: string
  cfg_name :: string

definition db_config_from_env :: "env \<Rightarrow> DbConfig" where
  "db_config_from_env env =
     \<lparr>cfg_host = env_or env ''FSX_DB_HOST'' ''localhost'',
      cfg_port = env_int_or env ''FSX_DB_PORT'' 5432,
      cfg_user = env_or env ''FSX_DB_USER'' ''fsx'',
      cfg_password = env_or env ''FSX_DB_PASSWORD'' ''fsxpass'',
      cfg_name = env_or env ''FSX_DB_NAME'' ''fsx''\<rparr>"

definition conninfo :: "DbConfig \<Rightarrow> string" where
  "conninfo cfg =
     ''host='' @ cfg_host cfg @ '' port='' @ to_string_int (cfg_port cfg) @ '' dbname='' @ cfg_name cfg @
     '' user='' @ cfg_user cfg @ '' password='' @ cfg_password cfg @ '' connect_timeout=10''"

text \<open>\<open>fsx::DbConfig\<close> of the older client, whose port is a text, and its connection string.\<close>

record ClientDbConfig =
  ccfg_host :: string
  ccfg_port :: string
  ccfg_user :: string
  ccfg_password :: string
  ccfg_dbname :: string

definition load_db_config_from_env :: "env \<Rightarrow> ClientDbConfig" where
  "load_db_config_from_env env =
     \<lparr>ccfg_host = env_or env ''FSX_DB_HOST'' ''127.0.0.1'',
      ccfg_port = env_or env ''FSX_DB_PORT'' ''5432'',
      ccfg_user = env_or env ''FSX_DB_USER'' ''fsx'',
      ccfg_password = env_or env ''FSX_DB_PASSWORD'' ''fsxpass'',
      ccfg_dbname = env_or env ''FSX_DB_NAME'' ''fsx''\<rparr>"

definition client_conninfo :: "ClientDbConfig \<Rightarrow> string" where
  "client_conninfo cfg =
     ''host='' @ ccfg_host cfg @ '' port='' @ ccfg_port cfg @ '' user='' @ ccfg_user cfg @
     '' password='' @ ccfg_password cfg @ '' dbname='' @ ccfg_dbname cfg"

section \<open>Ports\<close>

text \<open>\<open>static_cast<uint16_t>\<close> of an \<open>int\<close>.\<close>

definition port_of_int :: "int \<Rightarrow> u16" where
  "port_of_int i = word_of_int i"

text \<open>The port \<open>main\<close> listens on; \<open>argv\<close> includes the name of the program.\<close>

definition choose_port :: "env \<Rightarrow> string list \<Rightarrow> u16" where
  "choose_port env argv =
     (let port = 9000;
          port = (if length argv \<ge> 2
                  then (case stoi (argv ! 1) of Inr i \<Rightarrow> port_of_int i | Inl _ \<Rightarrow> port)
                  else port);
          env_port = env_int_or env ''FSX_TCP_PORT'' 0
      in if env_port > 0 \<and> env_port \<le> 65535 then port_of_int env_port else port)"

section \<open>Lemmas\<close>

lemma env_int_or_number: "env k = Some (dec_string n) \<Longrightarrow> n \<le> 2147483647 \<Longrightarrow> env_int_or env k d = int n"
  by (simp add: env_int_or_def)

lemma port_of_nat: "port_of_int (int n) = word_of_nat n"
  by (simp add: port_of_int_def)

lemma unat_port: "unat (word_of_nat n :: u16) = n mod 65536"
  by (simp add: unat_of_nat take_bit_eq_mod)

text \<open>A text up to the first separator is determined by the whole.\<close>

lemma separated_inject:
  assumes "sep \<notin> set x" and "sep \<notin> set y"
  shows "x @ sep # s = y @ sep # t \<longleftrightarrow> x = y \<and> s = t"
  using assms
proof (induction x arbitrary: y)
  case Nil
  then show ?case by (cases y) auto
next
  case (Cons a x)
  then show ?case by (cases y) auto
qed

definition no_space :: "string \<Rightarrow> bool" where
  "no_space s \<longleftrightarrow> CHR '' '' \<notin> set s"

lemma no_space_number: "no_space (to_string_int i)"
  using not_in_dec_string [of "CHR '' ''"] is_digit_not(1) [of "CHR '' ''"]
  by (auto simp: no_space_def to_string_int_def is_space_def)

lemma to_string_int_inject: "to_string_int i = to_string_int j \<longleftrightarrow> i = j"
proof -
  have "hd (dec_string n) \<noteq> CHR ''-''" for n
    using hd_dec_string [of n] is_digit_not(2) by metis
  then have "CHR ''-'' # s \<noteq> dec_string n" "dec_string n \<noteq> CHR ''-'' # s" for s n by (metis list.sel(1))+
  then show ?thesis by (auto simp: to_string_int_def)
qed

section \<open>Properties\<close>

text \<open>
  The port the server listens on. A decimal number given as argument is taken modulo 65536,
  without a check (70000 listens on 4464, and 0 on a port of the system's choice); a text that
  is no number is ignored; and a number between 1 and 65535 in FSX_TCP_PORT overrides both.
\<close>

theorem port_choice:
  assumes "n \<le> 2147483647"
  shows "(env ''FSX_TCP_PORT'' = None \<longrightarrow> unat (choose_port env (prog # dec_string n # args)) = n mod 65536) \<and>
    (env ''FSX_TCP_PORT'' = None \<longrightarrow> (\<forall>i. stoi a \<noteq> Inr i) \<longrightarrow> choose_port env (prog # a # args) = 9000) \<and>
    (1 \<le> n \<longrightarrow> n \<le> 65535 \<longrightarrow> env ''FSX_TCP_PORT'' = Some (dec_string n) \<longrightarrow> unat (choose_port env argv) = n)"
proof -
  have "stoi a = Inl e \<Longrightarrow> choose_port env (prog # a # args) = 9000" if "env ''FSX_TCP_PORT'' = None" for e
    using that by (simp add: choose_port_def env_int_or_def)
  moreover have "(\<exists>i. stoi a = Inr i) \<or> (\<exists>e. stoi a = Inl e)" by (cases "stoi a") auto
  moreover have "unat (choose_port env (prog # dec_string n # args)) = n mod 65536" if "env ''FSX_TCP_PORT'' = None"
    using that assms by (simp add: choose_port_def env_int_or_def port_of_nat unat_port)
  moreover have "unat (choose_port env argv) = n"
    if "1 \<le> n" "n \<le> 65535" "env ''FSX_TCP_PORT'' = Some (dec_string n)"
    using that env_int_or_number [of env "''FSX_TCP_PORT''" n 0]
    by (simp add: choose_port_def port_of_nat unat_port del: unat_of_nat)
  ultimately show ?thesis by blast
qed

theorem port_choice_witness: "unat (choose_port (\<lambda>_. None) [''core'', dec_string 70000]) = 4464"
  using port_choice [of 70000 "\<lambda>_. None" "''core''" "[]"] by simp

text \<open>
  The connection string says exactly what was configured, when no value has a space: host,
  port, database, user and password can be read off it. (The values are not quoted, so with
  spaces in them two configurations can have the same string.)
\<close>

theorem conninfo_faithful:
  assumes "no_space (cfg_host a)" and "no_space (cfg_name a)" and "no_space (cfg_user a)" and "no_space (cfg_password a)"
    and "no_space (cfg_host b)" and "no_space (cfg_name b)" and "no_space (cfg_user b)" and "no_space (cfg_password b)"
  shows "conninfo a = conninfo b \<longleftrightarrow> a = b"
proof
  assume "conninfo a = conninfo b"
  then have "cfg_host a = cfg_host b \<and> cfg_port a = cfg_port b \<and> cfg_name a = cfg_name b \<and>
      cfg_user a = cfg_user b \<and> cfg_password a = cfg_password b"
    using assms no_space_number [of "cfg_port a"] no_space_number [of "cfg_port b"]
    by (simp add: conninfo_def no_space_def separated_inject to_string_int_inject)
  then show "a = b" by simp
qed simp

theorem conninfo_faithful_witness:
  "conninfo (db_config_from_env (\<lambda>_. None)) \<noteq> conninfo (db_config_from_env [''FSX_DB_NAME'' \<mapsto> ''test''])"
  using conninfo_faithful [of "db_config_from_env (\<lambda>_. None)" "db_config_from_env [''FSX_DB_NAME'' \<mapsto> ''test'']"]
  by (simp add: db_config_from_env_def env_or_def env_int_or_def no_space_def)

lemma conninfo_ambiguous:
  "conninfo \<lparr>cfg_host = h, cfg_port = p, cfg_user = ''u'', cfg_password = ''x password=y'', cfg_name = n\<rparr> =
   conninfo \<lparr>cfg_host = h, cfg_port = p, cfg_user = ''u password=x'', cfg_password = ''y'', cfg_name = n\<rparr>"
  by (simp add: conninfo_def)

text \<open>A bad port stops the older configuration; the server's ignores it.\<close>

lemma Config_from_env_throws:
  "env ''FSX_TCP_PORT'' = Some ''x'' \<Longrightarrow> Config_from_env env = throw ''stoi'' \<and> env_int_or env ''FSX_TCP_PORT'' 0 = 0"
  by (simp add: Config_from_env_def getenv_or_def env_int_or_def stoi_def parse_dec_def is_space_def is_digit_def Let_def)

end
