(* ===== verification/FsxConnection.thy ===== *)
theory FsxConnection
  imports FsxDb FsxConfig
begin

text \<open>
  The life of a database connection: \<open>Db\<close> (\<open>core/src/db/db.cpp\<close>) and the older \<open>DbClient\<close>
  (\<open>core/src/storage/db_client.cpp\<close>), which both own a \<open>PGconn\<close> pointer. libpq is what it
  hands out: a connection is live from \<open>PQconnectdb\<close> to \<open>PQfinish\<close>, and using it at any
  other time, to ask for its status or its error message or to close it, is undefined. Whether a connection is made is the answer of the database.
\<close>

section \<open>libpq\<close>

record connect_answer =
  ans_null :: bool
  ans_ok :: bool
  ans_message :: string

text \<open>
  The live connections, with the string each was made from and whether its status is
  \<open>CONNECTION_OK\<close>, and the pointer \<open>conn_\<close> of the object.
\<close>

record pq_state =
  pgconns :: "nat \<Rightarrow> (string \<times> bool) option"
  next_pgconn :: nat
  conn :: "nat option"

definition pq_init :: pq_state where
  "pq_init = \<lparr>pgconns = (\<lambda>_. None), next_pgconn = 0, conn = None\<rparr>"

definition PQconnectdb :: "connect_answer \<Rightarrow> string \<Rightarrow> pq_state \<Rightarrow> nat option \<times> pq_state" where
  "PQconnectdb a info s =
     (if ans_null a then (None, s)
      else (Some (next_pgconn s), s\<lparr>pgconns := (pgconns s)(next_pgconn s \<mapsto> (info, ans_ok a)),
                                    next_pgconn := next_pgconn s + 1\<rparr>))"

definition PQstatus :: "nat \<Rightarrow> (pq_state, bool) action" where
  "PQstatus p s = (case pgconns s p of None \<Rightarrow> (undefined_behaviour, s) | Some (_, ok) \<Rightarrow> (Inr ok, s))"

definition PQfinish :: "nat \<Rightarrow> (pq_state, unit) action" where
  "PQfinish p s =
     (case pgconns s p of
        None \<Rightarrow> (undefined_behaviour, s)
      | Some _ \<Rightarrow> (Inr (), s\<lparr>pgconns := (pgconns s)(p := None)\<rparr>))"

text \<open>The message of a connection: \<open>a\<close> is the answer it was made with.\<close>

definition PQerrorMessage :: "connect_answer \<Rightarrow> nat \<Rightarrow> (pq_state, string) action" where
  "PQerrorMessage a p s =
     (case pgconns s p of None \<Rightarrow> (undefined_behaviour, s) | Some _ \<Rightarrow> (Inr (ans_message a), s))"

definition get_conn :: "(pq_state, nat option) action" where
  "get_conn s = (Inr (conn s), s)"

definition set_conn :: "nat option \<Rightarrow> (pq_state, unit) action" where
  "set_conn p s = (Inr (), s\<lparr>conn := p\<rparr>)"

definition connectdb :: "connect_answer \<Rightarrow> string \<Rightarrow> (pq_state, nat option) action" where
  "connectdb a info s = (case PQconnectdb a info s of (p, s') \<Rightarrow> (Inr p, s'))"

section \<open>Db\<close>

definition Db_finish :: "(pq_state, unit) action" where
  "Db_finish = sbind get_conn (\<lambda>c. case c of None \<Rightarrow> sreturn () | Some p \<Rightarrow> PQfinish p)"

definition Db_connect :: "DbConfig \<Rightarrow> connect_answer \<Rightarrow> (pq_state, unit) action" where
  "Db_connect cfg a =
     sbind Db_finish (\<lambda>_.
     sbind (connectdb a (c_str (conninfo cfg))) (\<lambda>p.
     sbind (set_conn p) (\<lambda>_.
     case p of
       None \<Rightarrow> slift (throw ''DB connect failed: PQconnectdb failed'')
     | Some c \<Rightarrow> sbind (PQstatus c) (\<lambda>ok.
         if \<not> ok
         then sbind (PQerrorMessage a c) (\<lambda>err. slift (throw (''DB connect failed: '' @ err)))
         else sreturn ()))))"

definition Db_is_connected :: "(pq_state, bool) action" where
  "Db_is_connected = sbind get_conn (\<lambda>c. case c of None \<Rightarrow> sreturn False | Some p \<Rightarrow> PQstatus p)"

section \<open>DbClient\<close>

definition DbClient_destroy :: "(pq_state, unit) action" where
  "DbClient_destroy = sbind get_conn (\<lambda>c. case c of
       None \<Rightarrow> sreturn ()
     | Some p \<Rightarrow> sbind (PQfinish p) (\<lambda>_. set_conn None))"

definition DbClient_connect :: "ClientDbConfig \<Rightarrow> connect_answer \<Rightarrow> (pq_state, unit) action" where
  "DbClient_connect cfg a =
     sbind get_conn (\<lambda>c.
     sbind (case c of None \<Rightarrow> sreturn () | Some p \<Rightarrow> sbind (PQfinish p) (\<lambda>_. set_conn None)) (\<lambda>_.
     sbind (connectdb a (c_str (client_conninfo cfg))) (\<lambda>q.
     sbind (set_conn q) (\<lambda>_.
     case q of
       None \<Rightarrow> slift (throw ''PQconnectdb returned null'')
     | Some p \<Rightarrow> sbind (PQstatus p) (\<lambda>ok.
         if \<not> ok then sbind (PQerrorMessage a p) (\<lambda>err.
                       sbind (PQfinish p) (\<lambda>_. sbind (set_conn None) (\<lambda>_.
                       slift (throw (''DB connect failed: '' @ err)))))
         else sreturn ())))))"

definition DbClient_connected :: "(pq_state, bool) action" where
  "DbClient_connected = sbind get_conn (\<lambda>c. case c of None \<Rightarrow> sreturn False | Some p \<Rightarrow> PQstatus p)"

text \<open>\<open>exec\<close> takes what \<open>PQexec\<close> answers; \<open>expect\<close> checks the status of a result.\<close>

definition DbClient_exec :: "(nat \<Rightarrow> string \<Rightarrow> pg_result option) \<Rightarrow> string \<Rightarrow> (pq_state, pg_result) action" where
  "DbClient_exec pqexec sql =
     sbind DbClient_connected (\<lambda>ok.
     if \<not> ok then slift (throw ''DB not connected'')
     else sbind get_conn (\<lambda>c. case c of
            None \<Rightarrow> slift undefined_behaviour
          | Some p \<Rightarrow> (case pqexec p (c_str sql) of
                None \<Rightarrow> slift (throw ''PQexec returned null'')
              | Some r \<Rightarrow> sreturn r)))"

definition DbClient_expect :: "pg_result option \<Rightarrow> pg_status \<Rightarrow> string \<Rightarrow> unit result" where
  "DbClient_expect r expected what =
     (case r of
        None \<Rightarrow> throw (what @ '': null PGresult'')
      | Some res \<Rightarrow> if pg_status res \<noteq> expected then throw (what @ '' failed: '' @ pg_error res) else Inr ())"

lemmas pq_defs = PQconnectdb_def PQstatus_def PQerrorMessage_def PQfinish_def get_conn_def set_conn_def connectdb_def

lemma wp_pq [wp_simps]:
  "wp get_conn Q1 s \<longleftrightarrow> Q1 (Inr (conn s)) s"
  "wp (set_conn c) Q2 s \<longleftrightarrow> Q2 (Inr ()) (s\<lparr>conn := c\<rparr>)"
  "wp (connectdb a info) Q3 s \<longleftrightarrow> Q3 (Inr (fst (PQconnectdb a info s))) (snd (PQconnectdb a info s))"
  "wp (PQstatus p) Q4 s \<longleftrightarrow> (case pgconns s p of None \<Rightarrow> Q4 undefined_behaviour s | Some (_, ok) \<Rightarrow> Q4 (Inr ok) s)"
  "wp (PQfinish p) Q5 s \<longleftrightarrow> (case pgconns s p of None \<Rightarrow> Q5 undefined_behaviour s
     | Some _ \<Rightarrow> Q5 (Inr ()) (s\<lparr>pgconns := (pgconns s)(p := None)\<rparr>))"
  "wp (PQerrorMessage a p) Q6 s \<longleftrightarrow> (case pgconns s p of None \<Rightarrow> Q6 undefined_behaviour s
     | Some _ \<Rightarrow> Q6 (Inr (ans_message a)) s)"
  by (auto simp: wp_def pq_defs split: option.split prod.split)

section \<open>The contract of an owner\<close>

text \<open>
  An owner holds exactly the connections it made: besides those of others (\<open>others\<close>), the one
  its pointer names.
\<close>

definition owns :: "nat set \<Rightarrow> pq_state \<Rightarrow> bool" where
  "owns others s \<longleftrightarrow> (\<forall>p. pgconns s p \<noteq> None \<longleftrightarrow> p \<in> others \<or> conn s = Some p) \<and>
     (\<forall>p. conn s = Some p \<longrightarrow> p \<notin> others) \<and> (\<forall>p. pgconns s p \<noteq> None \<longrightarrow> p < next_pgconn s)"

text \<open>One attempt after the other on the same object: the result of each, and the state at the end.\<close>

fun connect_all ::
  "('cfg \<Rightarrow> connect_answer \<Rightarrow> (pq_state, unit) action) \<Rightarrow> ('cfg \<times> connect_answer) list \<Rightarrow> pq_state \<Rightarrow>
     unit result list \<times> pq_state" where
  "connect_all connect [] s = ([], s)"
| "connect_all connect ((cfg, a) # attempts) s =
     (case connect cfg a s of (r, s1) \<Rightarrow>
      case connect_all connect attempts s1 of (rs, s2) \<Rightarrow> (r # rs, s2))"

lemma connect_all_last:
  "snd (connect_all connect (attempts @ [(cfg, a)]) s) = snd (connect cfg a (snd (connect_all connect attempts s)))"
  by (induction connect attempts s rule: connect_all.induct) (auto split: prod.splits)

definition accepted :: "connect_answer \<Rightarrow> bool" where
  "accepted a \<longleftrightarrow> \<not> ans_null a \<and> ans_ok a"

locale connection_owner =
  fixes connect :: "'cfg \<Rightarrow> connect_answer \<Rightarrow> (pq_state, unit) action"
    and connected :: "(pq_state, bool) action"
    and destroy :: "(pq_state, unit) action"
    and info :: "'cfg \<Rightarrow> string"
    and failure :: "connect_answer \<Rightarrow> string"
  assumes connect_law: "owns others s \<Longrightarrow> wp (connect cfg a) (\<lambda>r s'. owns others s' \<and>
        (if accepted a
         then r = Inr () \<and> (\<exists>p. conn s' = Some p \<and> pgconns s' p = Some (c_str (info cfg), True))
         else r = throw (failure a) \<and> (\<forall>p. conn s' = Some p \<longrightarrow> (\<exists>i. pgconns s' p = Some (i, False))))) s"
    and connected_law: "owns others s \<Longrightarrow> wp connected (\<lambda>r s'. s' = s \<and>
        r = Inr (\<exists>p i. conn s = Some p \<and> pgconns s p = Some (i, True))) s"
    and destroy_law: "owns others s \<Longrightarrow>
        wp destroy (\<lambda>r s'. r = Inr () \<and> (\<forall>p. pgconns s' p \<noteq> None \<longleftrightarrow> p \<in> others)) s"
begin

lemma connect_owns: "owns others s \<Longrightarrow> owns others (snd (connect cfg a s))"
  using connect_law by (simp add: wp_def)

lemma connect_result:
  "owns others s \<Longrightarrow> fst (connect cfg a s) = (if accepted a then Inr () else throw (failure a))"
  using connect_law [of others s cfg a] by (simp add: wp_def split: if_splits)

lemma connect_all_owns: "owns others s \<Longrightarrow> owns others (snd (connect_all connect attempts s))"
proof (induction attempts arbitrary: s)
  case (Cons x attempts)
  obtain cfg a where "x = (cfg, a)" by force
  with Cons.IH [OF connect_owns [OF Cons.prems]] show ?case by (simp add: case_prod_unfold)
qed simp

text \<open>Every attempt ends as the database answered it, and not in undefined behaviour.\<close>

lemma results:
  "owns others s \<Longrightarrow> fst (connect_all connect attempts s) =
     map (\<lambda>(cfg, a). if accepted a then Inr () else throw (failure a)) attempts"
proof (induction attempts arbitrary: s)
  case (Cons x attempts)
  obtain cfg a where x: "x = (cfg, a)" by force
  from Cons.IH [OF connect_owns [OF Cons.prems]] connect_result [OF Cons.prems]
  show ?case by (simp add: x case_prod_unfold)
qed simp

text \<open>After any attempts: nothing leaked, nothing freed twice, and connected as the last one went.\<close>

lemma life_cycle:
  assumes "owns others s"
  shows "fst (destroy (snd (connect_all connect attempts s))) = Inr () \<and>
    (\<forall>p. pgconns (snd (destroy (snd (connect_all connect attempts s)))) p = None \<longleftrightarrow> p \<notin> others)"
  using destroy_law [OF connect_all_owns [OF assms]] unfolding wp_def by blast

lemma last_attempt:
  assumes "owns others s"
  shows "fst (connected (snd (connect_all connect (attempts @ [(cfg, a)]) s))) = Inr (accepted a)"
proof -
  let ?s = "snd (connect_all connect attempts s)"
  have own: "owns others ?s" by (rule connect_all_owns [OF assms])
  show ?thesis
    using connect_law [OF own, of cfg a] connected_law [OF connect_owns [OF own, of cfg a]]
    unfolding connect_all_last wp_def by (auto split: if_splits)
qed

lemma connected_after:
  assumes "owns others s" and "conn s = None"
  shows "fst (connected (snd (connect_all connect attempts s))) =
    Inr (attempts \<noteq> [] \<and> accepted (snd (last attempts)))"
proof (cases attempts rule: rev_exhaust)
  case Nil
  then show ?thesis using connected_law [OF assms(1)] assms(2) by (simp add: wp_def)
next
  case (snoc as x)
  then show ?thesis using last_attempt [OF assms(1), of "as" "fst x" "snd x"] by simp
qed

end

lemma owns_init: "owns {} pq_init"
  by (simp add: owns_def pq_init_def)

lemma owns_finish:
  assumes "owns others s" and "conn s = Some p"
  shows "pgconns s p \<noteq> None" and "owns others (s\<lparr>pgconns := (pgconns s)(p := None), conn := None\<rparr>)"
  using assms by (auto simp: owns_def)

lemma owns_connect:
  assumes "owns others s" and "conn s = None"
  shows "owns others (s\<lparr>pgconns := (pgconns s)(next_pgconn s \<mapsto> (i, ok)), next_pgconn := next_pgconn s + 1,
           conn := Some (next_pgconn s)\<rparr>)"
  using assms by (auto simp: owns_def less_Suc_eq)

lemma owns_no_conn: "conn s = None \<Longrightarrow> owns others (s\<lparr>conn := None\<rparr>) = owns others s"
  by (simp add: owns_def)

interpretation db: connection_owner Db_connect Db_is_connected Db_finish conninfo
  "\<lambda>a. ''DB connect failed: '' @ (if ans_null a then ''PQconnectdb failed'' else ans_message a)"
proof unfold_locales
  fix others s cfg a assume own: "owns others s"
  show "wp (Db_connect cfg a) (\<lambda>r s'. owns others s' \<and>
        (if accepted a
         then r = Inr () \<and> (\<exists>p. conn s' = Some p \<and> pgconns s' p = Some (c_str (conninfo cfg), True))
         else r = throw (''DB connect failed: '' @ (if ans_null a then ''PQconnectdb failed'' else ans_message a)) \<and>
            (\<forall>p. conn s' = Some p \<longrightarrow> (\<exists>i. pgconns s' p = Some (i, False))))) s"
    using own
    by (auto simp: Db_connect_def Db_finish_def wp_simps PQconnectdb_def owns_def less_Suc_eq accepted_def split: option.split)
  show "wp Db_is_connected (\<lambda>r s'. s' = s \<and> r = Inr (\<exists>p i. conn s = Some p \<and> pgconns s p = Some (i, True))) s"
    using own by (auto simp: Db_is_connected_def wp_simps owns_def split: option.split)
  show "wp Db_finish (\<lambda>r s'. r = Inr () \<and> (\<forall>p. pgconns s' p \<noteq> None \<longleftrightarrow> p \<in> others)) s"
    using own by (auto simp: Db_finish_def wp_simps owns_def split: option.split)
qed

interpretation db_client: connection_owner DbClient_connect DbClient_connected DbClient_destroy client_conninfo
  "\<lambda>a. if ans_null a then ''PQconnectdb returned null'' else ''DB connect failed: '' @ ans_message a"
proof unfold_locales
  fix others s cfg a assume own: "owns others s"
  show "wp (DbClient_connect cfg a) (\<lambda>r s'. owns others s' \<and>
        (if accepted a
         then r = Inr () \<and> (\<exists>p. conn s' = Some p \<and> pgconns s' p = Some (c_str (client_conninfo cfg), True))
         else r = throw (if ans_null a then ''PQconnectdb returned null'' else ''DB connect failed: '' @ ans_message a) \<and>
            (\<forall>p. conn s' = Some p \<longrightarrow> (\<exists>i. pgconns s' p = Some (i, False))))) s"
    using own
    by (auto simp: DbClient_connect_def wp_simps PQconnectdb_def owns_def less_Suc_eq accepted_def split: option.split)
  show "wp DbClient_connected (\<lambda>r s'. s' = s \<and> r = Inr (\<exists>p i. conn s = Some p \<and> pgconns s p = Some (i, True))) s"
    using own by (auto simp: DbClient_connected_def wp_simps owns_def split: option.split)
  show "wp DbClient_destroy (\<lambda>r s'. r = Inr () \<and> (\<forall>p. pgconns s' p \<noteq> None \<longleftrightarrow> p \<in> others)) s"
    using own by (auto simp: DbClient_destroy_def wp_simps owns_def split: option.split)
qed

section \<open>What differs\<close>

text \<open>
  After a failed attempt \<open>Db\<close> keeps the broken connection until the next attempt or its
  destruction; \<open>DbClient\<close> frees it at once.
\<close>

lemma failed_attempt:
  assumes "owns others s" and "\<not> ans_null a" and "\<not> ans_ok a"
  shows "conn (snd (Db_connect cfg a s)) \<noteq> None" and "conn (snd (DbClient_connect ccfg a s)) = None"
proof -
  have "wp (Db_connect cfg a) (\<lambda>_ s'. conn s' \<noteq> None) s"
    using assms by (auto simp: Db_connect_def Db_finish_def wp_simps PQconnectdb_def owns_def split: option.split)
  then show "conn (snd (Db_connect cfg a s)) \<noteq> None" by (simp add: wp_def)
  have "wp (DbClient_connect ccfg a) (\<lambda>_ s'. conn s' = None) s"
    using assms by (auto simp: DbClient_connect_def wp_simps PQconnectdb_def owns_def split: option.split)
  then show "conn (snd (DbClient_connect ccfg a s)) = None" by (simp add: wp_def)
qed

lemma DbClient_exec_safe:
  assumes "owns others s"
  shows "fst (DbClient_exec pqexec sql s) \<noteq> undefined_behaviour" and "snd (DbClient_exec pqexec sql s) = s"
proof -
  have "wp (DbClient_exec pqexec sql) (\<lambda>r s'. r \<noteq> undefined_behaviour \<and> s' = s) s"
    using assms by (auto simp: DbClient_exec_def DbClient_connected_def wp_simps owns_def split: option.split)
  then show "fst (DbClient_exec pqexec sql s) \<noteq> undefined_behaviour" and "snd (DbClient_exec pqexec sql s) = s"
    by (simp_all add: wp_def)
qed

section \<open>Properties\<close>

text \<open>
  C23: Connections are owned: whatever sequence of connection attempts is made on an object of
  either class, every attempt returns when the database accepts it and throws the message of the
  code when it does not, so no attempt uses a connection after it was closed or closes it twice;
  the object then says it is connected exactly when the last attempt was accepted; the only
  connection that is open is the one its pointer names, so none is leaked; and the destructor
  closes it, once.
\<close>

theorem connection_life_cycle:
  "(case connect_all Db_connect attempts pq_init of (results, s) \<Rightarrow>
     results = map (\<lambda>(cfg, a). if accepted a then Inr ()
       else throw (''DB connect failed: '' @ (if ans_null a then ''PQconnectdb failed'' else ans_message a))) attempts \<and>
     {p. pgconns s p \<noteq> None} = set_option (conn s) \<and>
     fst (Db_is_connected s) = Inr (attempts \<noteq> [] \<and> accepted (snd (last attempts))) \<and>
     fst (Db_finish s) = Inr () \<and> (\<forall>p. pgconns (snd (Db_finish s)) p = None)) \<and>
   (case connect_all DbClient_connect attempts' pq_init of (results, s) \<Rightarrow>
     results = map (\<lambda>(cfg, a). if accepted a then Inr ()
       else throw (if ans_null a then ''PQconnectdb returned null'' else ''DB connect failed: '' @ ans_message a)) attempts' \<and>
     {p. pgconns s p \<noteq> None} = set_option (conn s) \<and>
     fst (DbClient_connected s) = Inr (attempts' \<noteq> [] \<and> accepted (snd (last attempts'))) \<and>
     fst (DbClient_destroy s) = Inr () \<and> (\<forall>p. pgconns (snd (DbClient_destroy s)) p = None))"
proof -
  have only: "{p. pgconns s p \<noteq> None} = set_option (conn s)" if "owns {} s" for s
    using that by (auto simp: owns_def elem_set)
  have start: "conn pq_init = None" by (simp add: pq_init_def)
  note db = db.results [OF owns_init] only [OF db.connect_all_owns [OF owns_init]]
    db.connected_after [OF owns_init start] db.life_cycle [OF owns_init]
  note db_client = db_client.results [OF owns_init] only [OF db_client.connect_all_owns [OF owns_init]]
    db_client.connected_after [OF owns_init start] db_client.life_cycle [OF owns_init]
  show ?thesis
    using db db_client by (simp add: case_prod_beta)
qed

text \<open>
  The two database wrappers are equivalent to their users: after any attempts that the
  database answered alike, the one says it is connected exactly when the other does, which is when
  the last attempt succeeded.
\<close>

theorem wrappers_agree:
  "fst (Db_is_connected (snd (connect_all Db_connect (attempts @ [(cfg, a)]) pq_init))) =
     fst (DbClient_connected (snd (connect_all DbClient_connect (attempts' @ [(ccfg, a)]) pq_init))) \<and>
   fst (Db_is_connected (snd (connect_all Db_connect (attempts @ [(cfg, a)]) pq_init))) = Inr (accepted a)"
  using db.last_attempt [OF owns_init, of attempts cfg a]
    db_client.last_attempt [OF owns_init, of attempts' ccfg a] by simp


end
