(* ===== verification/FsxStartup.thy ===== *)
theory FsxStartup
  imports FsxConnection FsxServer
begin

text \<open>
  \<open>main\<close> of the server (\<open>core/src/main.cpp\<close>) up to the event loop: configuration, database,
  file store, port, acceptor. Everything that can throw is inside its \<open>try\<close>; the database
  object goes out of scope, and closes its connection, when the block is left. \<open>io.run()\<close>
  does not return, because an accept is always pending.
\<close>

datatype outcome = Exits int | Serves u16

text \<open>The destructor of the \<open>Db\<close> object at the end of its scope; a serving process stays in it.\<close>

definition with_db :: "(pq_state, outcome) action \<Rightarrow> (pq_state, outcome) action" where
  "with_db body s =
     (case body s of
        (Inr (Serves port), s') \<Rightarrow> (Inr (Serves port), s')
      | (r, s') \<Rightarrow> (case Db_finish s' of (Inl e, s'') \<Rightarrow> (Inl e, s'') | (Inr _, s'') \<Rightarrow> (r, s'')))"

text \<open>
  \<open>a\<close> is the answer of the database, \<open>listen_error\<close> what the constructor of the acceptor
  throws for a port, if anything.
\<close>

definition server_main ::
  "env \<Rightarrow> string list \<Rightarrow> connect_answer \<Rightarrow> os_answers \<Rightarrow> (u16 \<Rightarrow> string option) \<Rightarrow> (pq_state, outcome) action" where
  "server_main env argv a os listen_error =
     scatch
       (with_db
         (sbind (Db_connect (db_config_from_env env) a) (\<lambda>_.
          if \<not> FileStore_initialize os ''./storage/transfers'' then sreturn (Exits 1)
          else let port = choose_port env argv in
            (case listen_error port of
               Some what \<Rightarrow> slift (throw what)
             | None \<Rightarrow> sreturn (Serves port)))))
       (\<lambda>_. sreturn (Exits 1))"

lemma wp_with_db [wp_simps]:
  "wp (with_db body) Q s \<longleftrightarrow>
     wp body (\<lambda>r s'. case r of
         Inr (Serves port) \<Rightarrow> Q r s'
       | _ \<Rightarrow> wp Db_finish (\<lambda>r' s''. case r' of Inl e \<Rightarrow> Q (Inl e) s'' | Inr _ \<Rightarrow> Q r s'') s') s"
  by (auto simp: wp_def with_db_def split: prod.splits sum.splits outcome.splits)

section \<open>Properties\<close>

text \<open>
  C22: The server starts exactly when the database accepts the configured connection, the directory
  of the store exists or can be made, and the chosen port can be listened on; then it serves on
  that port with one open connection, made from the configuration. In every other case it exits
  with status 1 and has closed every connection.
\<close>

theorem server_starts_or_exits:
  "if \<not> ans_null a \<and> ans_ok a \<and> FileStore_initialize os ''./storage/transfers'' \<and>
      listen_error (choose_port env argv) = None
   then fst (server_main env argv a os listen_error pq_init) = Inr (Serves (choose_port env argv)) \<and>
        pgconns (snd (server_main env argv a os listen_error pq_init)) =
          [0 \<mapsto> (c_str (conninfo (db_config_from_env env)), True)]
   else fst (server_main env argv a os listen_error pq_init) = Inr (Exits 1) \<and>
        (\<forall>p. pgconns (snd (server_main env argv a os listen_error pq_init)) p = None)"
proof -
  have "wp (server_main env argv a os listen_error) (\<lambda>r s'.
      if \<not> ans_null a \<and> ans_ok a \<and> FileStore_initialize os ''./storage/transfers'' \<and>
         listen_error (choose_port env argv) = None
      then r = Inr (Serves (choose_port env argv)) \<and>
           pgconns s' = [0 \<mapsto> (c_str (conninfo (db_config_from_env env)), True)]
      else r = Inr (Exits 1) \<and> (\<forall>p. pgconns s' p = None)) pq_init"
    by (auto simp: server_main_def wp_simps Db_connect_def Db_finish_def PQconnectdb_def pq_init_def Let_def
        split: option.split)
  then show ?thesis by (simp add: wp_def)
qed

end
