(* ===== verification/FsxNetwork.thy ===== *)
theory FsxNetwork
  imports FsxStream FsxQueue
begin

text \<open>
  The server and its clients together. A client is a program over its socket: what it has written
  depends on what it has received (\<open>clients\<close> gives, for each connection, the bytes written once
  certain bytes came in; more input, more output). The server reads from a connection only what its
  client has written, and a client receives only what the server has written; in between, the
  events of the server come in any order.
\<close>

section \<open>Runs of the network\<close>

record 'w network =
  net_server :: "'w server"
  net_read :: "nat \<Rightarrow> bytes"
  net_written :: "nat \<Rightarrow> bytes"

definition net_start :: "'w server \<Rightarrow> 'w network" where
  "net_start srv = \<lparr>net_server = srv, net_read = (\<lambda>_. []), net_written = (\<lambda>_. [])\<rparr>"

inductive net_run ::
  "'w externals \<Rightarrow> string \<Rightarrow> (nat \<Rightarrow> bytes \<Rightarrow> bytes) \<Rightarrow> 'w server \<Rightarrow> 'w network \<Rightarrow> bool"
  for X :: "'w externals" and base :: string and clients :: "nat \<Rightarrow> bytes \<Rightarrow> bytes" and srv0 :: "'w server" where
  start: "net_run X base clients srv0 (net_start srv0)"
| reads: "net_run X base clients srv0 n \<Longrightarrow> ev = HeaderDone c False bs \<or> ev = BodyDone c False bs \<Longrightarrow>
     prefix (net_read n c @ bs) (clients c (net_written n c)) \<Longrightarrow>
     server_step X base (net_server n) ev srv \<Longrightarrow>
     net_run X base clients srv0 (n\<lparr>net_server := srv, net_read := (net_read n)(c := net_read n c @ bs)\<rparr>)"
| writes: "net_run X base clients srv0 n \<Longrightarrow> server_step X base (net_server n) (WriteDone c False) srv \<Longrightarrow>
     net_run X base clients srv0 (n\<lparr>net_server := srv, net_written := (net_written n)
       (c := net_written n c @ concat (wire c (net_server n) (WriteDone c False)))\<rparr>)"

text \<open>A run of the network is a run of the server.\<close>

lemma net_run_reachable:
  "net_run X base clients srv0 n \<Longrightarrow> reachable X base w0 srv0 \<Longrightarrow> reachable X base w0 (net_server n)"
  by (induction rule: net_run.induct) (auto simp: net_start_def intro: reachable.step)

section \<open>Frames\<close>

lemma net_message:
  assumes n: "net_run X base clients srv0 n" "sessions (net_server n) c = Some s" "pending_read s = ReadHeader"
    and f: "length p \<le> 16777216" "msg_type_of (msg_code t) = t"
    and m: "message_body X os base c t p (net_server n) = (Inr (), srv)"
    and w: "prefix (net_read n c @ frame t p) (clients c (net_written n c))"
  shows "net_run X base clients srv0
    (n\<lparr>net_server := srv, net_read := (net_read n)(c := net_read n c @ frame t p)\<rparr>)"
proof (cases "p = []")
  case True
  let ?h = "header_bytes (make_header t 0)"
  have "server_step X base (net_server n) (HeaderDone c False ?h) srv"
  proof (rule server_step.run)
    show "enabled (net_server n) (HeaderDone c False ?h)" using n(2,3) by (simp add: HEADER_SIZE_def)
    show "run_event X os base (HeaderDone c False ?h) (net_server n) = (Inr (), srv)"
      using m run_header_empty [OF n(2) f(2)] True by simp
  qed
  from net_run.reads [OF n(1) disjI1 [OF refl] _ this] w True show ?thesis by (simp add: frame_def)
next
  case False
  let ?h = "header_bytes (make_header t (word_of_nat (length p)))"
  let ?srv = "modify_session c (reading_body t (length p)) (net_server n)"
  let ?n = "n\<lparr>net_server := ?srv, net_read := (net_read n)(c := net_read n c @ ?h)\<rparr>"
  have fr: "frame t p = ?h @ p" by (simp add: frame_def)
  have "server_step X base (net_server n) (HeaderDone c False ?h) ?srv"
  proof (rule server_step.run)
    show "enabled (net_server n) (HeaderDone c False ?h)" using n(2,3) by (simp add: HEADER_SIZE_def)
  qed (rule run_header [OF n(2) False f(1)])
  moreover have "prefix (net_read n c @ ?h) (clients c (net_written n c))"
    using w unfolding fr by (metis append.assoc append_prefixD)
  ultimately have 1: "net_run X base clients srv0 ?n" using net_run.reads [OF n(1) disjI1 [OF refl]] by blast
  have "server_step X base (net_server ?n) (BodyDone c False p) srv"
  proof (rule server_step.run)
    show "enabled (net_server ?n) (BodyDone c False p)" using n(2) by (simp add: reading_body_def)
    show "run_event X os base (BodyDone c False p) (net_server ?n) = (Inr (), srv)"
      using m run_body [OF n(2) False f(2)] by simp
  qed
  from net_run.reads [OF 1 disjI2 [OF refl] _ this] w show ?thesis by (simp add: fr)
qed

definition frames_ok :: "(MsgType \<times> bytes) list \<Rightarrow> bool" where
  "frames_ok ms \<longleftrightarrow> (\<forall>(t, p) \<in> set ms. length p \<le> 16777216 \<and> msg_type_of (msg_code t) = t)"

lemma net_frames:
  assumes "net_run X base clients srv0 n" and "sessions (net_server n) c = Some s" and "pending_read s = ReadHeader"
    and "frames_ok ms" and "deliver X os base c (frames ms) (net_server n) = (Inr (), srv)"
    and "prefix (net_read n c @ frames ms) (clients c (net_written n c))"
  shows "net_run X base clients srv0
    (n\<lparr>net_server := srv, net_read := (net_read n)(c := net_read n c @ frames ms)\<rparr>)"
  using assms
proof (induction ms arbitrary: n s)
  case Nil
  then have "srv = net_server n" by (simp add: frames_def deliver.simps next_read_def HEADER_SIZE_def)
  with Nil show ?case by (simp add: frames_def)
next
  case (Cons m ms)
  obtain t p where m: "m = (t, p)" by force
  have f: "length p \<le> 16777216" "msg_type_of (msg_code t) = t" "frames_ok ms"
    using Cons.prems(4) by (auto simp: frames_ok_def m)
  have fr: "frames (m # ms) = frame t p @ frames ms" by (simp add: frames_def m)
  obtain r srv1 where b: "message_body X os base c t p (net_server n) = (r, srv1)" by force
  with Cons.prems(5) deliver_frame [OF Cons.prems(2,3) f(1,2), of X os base "frames ms"]
  have r: "r = Inr ()" and d: "deliver X os base c (frames ms) srv1 = (Inr (), srv)"
    by (auto simp: fr split: sum.splits)
  let ?n = "n\<lparr>net_server := srv1, net_read := (net_read n)(c := net_read n c @ frame t p)\<rparr>"
  have "prefix (net_read n c @ frame t p) (clients c (net_written n c))"
    using Cons.prems(6) unfolding fr by (metis append.assoc append_prefixD)
  with b r have "net_run X base clients srv0 ?n" by (intro net_message [OF Cons.prems(1-3) f(1,2)]) simp_all
  moreover obtain s1 where "sessions (net_server ?n) c = Some s1" "pending_read s1 = ReadHeader"
    using message_body_reads_on [OF Cons.prems(2)] b r by fastforce
  moreover have "prefix (net_read ?n c @ frames ms) (clients c (net_written ?n c))"
    using Cons.prems(6) by (simp add: fr)
  ultimately show ?case using Cons.IH [of ?n s1] d f(3) by (simp add: fr cong: if_cong)
qed

section \<open>Queues\<close>

text \<open>A write is in progress exactly when there is something to write.\<close>

definition flowing :: "nat \<Rightarrow> 'w server \<Rightarrow> bool" where
  "flowing c srv \<longleftrightarrow> (\<forall>s. sessions srv c = Some s \<longrightarrow> pending_write s = (outq s \<noteq> []))"

interpretation flowing: session_property "flowing c" for c
  by unfold_locales (auto simp: flowing_def)

interpretation flowing_stable: read_stable X base "flowing c" for X base c
proof unfold_locales
  fix srv :: "'a server" and d s os t p srv'
  assume "flowing c srv" and "handle_message X os base d s t p srv = (Inr (), srv')"
  then show "flowing c srv'" using wp_apply [OF flowing.message_keeps] by blast
qed (auto simp: flowing_def session_steps TcpSession_new_def split: if_splits option.splits)

context read_stable
begin

lemma inv_deliver:
  assumes "inv srv" and "deliver X os base c bs srv = (Inr (), srv')"
  shows "inv srv'"
  using assms
proof (induction bs arbitrary: srv rule: measure_induct_rule [of length])
  case (less bs)
  show ?case
  proof (cases "next_read srv c bs")
    case None
    with less show ?thesis by (simp add: deliver.simps)
  next
    case (Some er)
    obtain ev rest where er: "er = (ev, rest)" by force
    obtain r srv1 where run: "run_event X os base ev srv = (r, srv1)" by force
    with less Some er have "r = Inr ()" and d: "deliver X os base c rest srv1 = (Inr (), srv')"
      by (auto simp: deliver.simps [of X os base c bs] split: sum.splits)
    moreover have "ev \<noteq> WriteDone d ec" for d ec
      using Some er by (auto simp: next_read_def Let_def split: option.splits read_op.splits if_splits)
    ultimately have "inv srv1" using inv_event [OF less.prems(1)] run by blast
    with less.IH [OF next_read_shorter] Some er d show ?thesis by blast
  qed
qed

end

text \<open>The queue of a connection, once all of it is written.\<close>

definition drained :: "TcpSession \<Rightarrow> TcpSession" where
  "drained s = s\<lparr>outq := [], pending_write := False\<rparr>"

lemma modify_session_cong:
  "sessions srv c = Some s \<Longrightarrow> f s = g s \<Longrightarrow> modify_session c f srv = modify_session c g srv"
  by (simp add: modify_session_def)

lemma written_ok:
  assumes "sessions srv c = Some s" and "pending_read s \<noteq> NoRead"
  shows "release c (on_written c False srv) =
    modify_session c (\<lambda>s. s\<lparr>outq := tl (outq s), pending_write := (tl (outq s) \<noteq> [])\<rparr>) srv"
proof -
  have "on_written c False srv =
      modify_session c (\<lambda>s. s\<lparr>outq := tl (outq s), pending_write := (tl (outq s) \<noteq> [])\<rparr>) srv"
    using assms(1) by (auto simp: on_written_def modify_session_modify do_write_def Let_def intro: modify_session_cong)
  with assms show ?thesis by (simp add: release_pending)
qed

lemma net_drain:
  assumes "net_run X base clients srv0 n" and "sessions (net_server n) c = Some s"
    and "pending_read s \<noteq> NoRead" and "flowing c (net_server n)"
  shows "net_run X base clients srv0 (n\<lparr>net_server := modify_session c drained (net_server n),
    net_written := (net_written n)(c := net_written n c @ concat (outq s))\<rparr>)"
  using assms
proof (induction "outq s" arbitrary: n s)
  case Nil
  then have "modify_session c drained (net_server n) = net_server n"
    by (auto simp: modify_session_def drained_def flowing_def fun_eq_iff)
  with Nil show ?case by simp
next
  case (Cons f q)
  let ?srv = "modify_session c (\<lambda>s. s\<lparr>outq := q, pending_write := (q \<noteq> [])\<rparr>) (net_server n)"
  let ?n = "n\<lparr>net_server := ?srv, net_written := (net_written n)(c := net_written n c @ f)\<rparr>"
  have s: "outq s = f # q" "pending_write s" using Cons.hyps(2) Cons.prems(2,4) by (auto simp: flowing_def)
  have "release c (on_written c False (net_server n)) = ?srv"
    using Cons.prems(2) s by (subst written_ok [OF Cons.prems(2,3)]) (auto intro: modify_session_cong)
  then have "server_step X base (net_server n) (WriteDone c False) ?srv"
    using Cons.prems(2) s by (intro server_step.run) simp_all
  from net_run.writes [OF Cons.prems(1) this] have "net_run X base clients srv0 ?n"
    using Cons.prems(2) s by simp
  moreover have "modify_session c drained ?srv = modify_session c drained (net_server n)"
    by (simp add: modify_session_modify drained_def [abs_def] comp_def)
  ultimately show ?case
    using Cons.hyps(1) [of "s\<lparr>outq := q, pending_write := (q \<noteq> [])\<rparr>" ?n] Cons.prems(2,3) s
    by (simp add: flowing_def)
qed

end
