(* ===== verification/FsxCopies.thy ===== *)
theory FsxCopies
  imports FsxClient
begin

text \<open>
  What the clients have copied (\<open>client/src/\<close>): each program declares the header and builds
  frames for itself, in a vector of zeros over which the header and the payload are copied, and
  \<open>test_file_transfer.cpp\<close> has its own conversion of 64-bit numbers. Here the copies are
  written out, with lemmas that they are the functions of \<open>FsxWire\<close> and \<open>FsxClient\<close>.
\<close>

section \<open>Frames in a buffer\<close>

text \<open>\<open>std::memcpy(out.data() + pos, bs.data(), bs.size())\<close>, for a range within the buffer.\<close>

definition memcpy_at :: "nat \<Rightarrow> bytes \<Rightarrow> bytes \<Rightarrow> bytes" where
  "memcpy_at pos bs out = take pos out @ bs @ drop (pos + length bs) out"

lemma length_memcpy_at [simp]: "pos + length bs \<le> length out \<Longrightarrow> length (memcpy_at pos bs out) = length out"
  by (simp add: memcpy_at_def)

lemma memcpy_at_memcpy:
  assumes "length out = length hs + length p" and "n = length hs"
  shows "(if p \<noteq> [] then memcpy_at n p (memcpy_at 0 hs out) else memcpy_at 0 hs out) = hs @ p"
  using assms by (simp add: memcpy_at_def)

definition auth_make_frame :: "u8 \<Rightarrow> bytes \<Rightarrow> bytes" where
  "auth_make_frame t payload =
     (let h = \<lparr>magic_be = htonl MAGIC, hdr_version = VERSION, hdr_type = t,
               len_be = htonl (word_of_nat (length payload)), reserved_be = htons 0\<rparr>;
          out = replicate (12 + length payload) 0;
          out = memcpy_at 0 (header_bytes h) out
      in if payload \<noteq> [] then memcpy_at 12 payload out else out)"

definition persistent_make_frame :: "u8 \<Rightarrow> bytes \<Rightarrow> bytes" where
  "persistent_make_frame t payload =
     (let h = \<lparr>magic_be = htonl MAGIC, hdr_version = VERSION, hdr_type = t,
               len_be = htonl (word_of_nat (length payload)), reserved_be = htons 0\<rparr>;
          out = replicate (12 + length payload) 0;
          out = memcpy_at 0 (header_bytes h) out
      in if payload \<noteq> [] then memcpy_at 12 payload out else out)"

definition ping_frame :: "u8 \<Rightarrow> bytes \<Rightarrow> bytes" where
  "ping_frame t payload =
     (let h = \<lparr>magic_be = htonl MAGIC, hdr_version = VERSION, hdr_type = t,
               len_be = htonl (word_of_nat (length payload)), reserved_be = htons 0\<rparr>;
          out = replicate (12 + length payload) 0;
          out = memcpy_at 0 (header_bytes h) out
      in if payload \<noteq> [] then memcpy_at 12 payload out else out)"

lemma make_frame_copies:
  "auth_make_frame t p = make_frame t p"
  "persistent_make_frame t p = make_frame t p"
  "ping_frame t p = make_frame t p"
  unfolding auth_make_frame_def persistent_make_frame_def ping_frame_def make_frame_def Let_def
  by (intro memcpy_at_memcpy; simp)+

section \<open>Login requests\<close>

definition auth_make_login_req :: "string \<Rightarrow> string \<Rightarrow> bytes" where
  "auth_make_login_req username password =
     (let payload = store_le 2 (htons (word_of_nat (length username))) @ string_bytes username;
          payload = payload @ store_le 2 (htons (word_of_nat (length password))) @ string_bytes password
      in auth_make_frame 12 payload)"

definition persistent_make_login_req :: "string \<Rightarrow> string \<Rightarrow> bytes" where
  "persistent_make_login_req username password =
     (let payload = store_le 2 (htons (word_of_nat (length username))) @ string_bytes username;
          payload = payload @ store_le 2 (htons (word_of_nat (length password))) @ string_bytes password
      in persistent_make_frame 12 payload)"

lemma make_login_req_copies:
  "auth_make_login_req u p = make_login_req u p"
  "persistent_make_login_req u p = make_login_req u p"
  by (simp_all add: auth_make_login_req_def persistent_make_login_req_def make_login_req_def
      login_payload_def put_str_def put16_def make_frame_copies)

section \<open>The conversion of 64-bit numbers\<close>

text \<open>
  As in \<open>FsxWire\<close>: the branch of the little-endian host, and the one of a host that is neither
  little-endian nor Windows.
\<close>

definition client_be64toh_portable :: "u64 \<Rightarrow> u64" where
  "client_be64toh_portable x = bswap 8 x"

definition client_be64toh_fallback :: "u64 \<Rightarrow> u64" where
  "client_be64toh_fallback x =
     drop_bit 56 (x AND 0xFF00000000000000) OR
     drop_bit 40 (x AND 0x00FF000000000000) OR
     drop_bit 24 (x AND 0x0000FF0000000000) OR
     drop_bit 8 (x AND 0x000000FF00000000) OR
     push_bit 8 (x AND 0x00000000FF000000) OR
     push_bit 24 (x AND 0x0000000000FF0000) OR
     push_bit 40 (x AND 0x000000000000FF00) OR
     push_bit 56 (x AND 0x00000000000000FF)"

definition client_htobe64_portable :: "u64 \<Rightarrow> u64" where
  "client_htobe64_portable x = client_be64toh_portable x"

lemma client_be64_copies:
  "client_be64toh_portable x = be64toh_portable x"
  "client_be64toh_fallback x = be64toh_portable x"
  "client_htobe64_portable x = htobe64_portable x"
proof -
  have "client_be64toh_fallback x = be64toh_fallback x"
    unfolding client_be64toh_fallback_def be64toh_fallback_def by (rule refl)
  then show "client_be64toh_fallback x = be64toh_portable x"
    by (simp add: be64toh_portable_def be64toh_fallback_eq)
qed (simp_all add: client_be64toh_portable_def client_htobe64_portable_def htobe64_portable_def be64toh_portable_def)

section \<open>Properties\<close>

text \<open>
  C38: All programs write the same format: each of the four copies of the frame builder in
  the clients builds, for every message type and payload, the frame that the server's \<open>send\<close>
  builds; the three login requests are the same bytes, a LOGIN_REQ frame of name and password, and
  the registration is a REGISTER_REQ frame of name, e-mail and password; the conversion of 64-bit numbers of the transfer client, the branch with masks and shifts
  included, is that of the server.
\<close>

theorem clients_share_format:
  "make_frame (msg_code t) payload = frame t payload \<and>
   auth_make_frame (msg_code t) payload = frame t payload \<and>
   persistent_make_frame (msg_code t) payload = frame t payload \<and>
   ping_frame (msg_code t) payload = frame t payload \<and>
   make_register_req u e p = frame REGISTER_REQ (put_str u @ put_str e @ put_str p) \<and>
   make_login_req u p = frame LOGIN_REQ (put_str u @ put_str p) \<and>
   auth_make_login_req u p = frame LOGIN_REQ (put_str u @ put_str p) \<and>
   persistent_make_login_req u p = frame LOGIN_REQ (put_str u @ put_str p) \<and>
   client_be64toh_portable x = be64toh_portable x \<and>
   client_be64toh_fallback x = be64toh_portable x \<and>
   client_htobe64_portable x = htobe64_portable x"
proof -
  have "make_login_req u p = frame LOGIN_REQ (put_str u @ put_str p)"
    using make_frame_eq [of LOGIN_REQ "login_payload u p"] by (simp add: make_login_req_def login_payload_def)
  moreover have "make_register_req u e p = frame REGISTER_REQ (put_str u @ put_str e @ put_str p)"
    using make_frame_eq [of REGISTER_REQ "register_payload u e p"]
    by (simp add: make_register_req_def register_payload_def)
  ultimately show ?thesis
    by (simp add: make_login_req_copies make_frame_copies make_frame_eq client_be64_copies)
qed

end
