(* ===== verification/FsxClientMain.thy ===== *)
theory FsxClientMain
  imports FsxScenario FsxConfig FsxCopies
begin

text \<open>
  The main programs of the clients (\<open>client/src/\<close>): what they make of their arguments, and
  what they send. \<open>argv\<close> includes the name of the program. An exception outside of \<open>try\<close> ends
  the program by \<open>std::terminate\<close>; it is the exception as the result. \<open>connect_error\<close> tells what
  resolving and connecting throws for a host and a port, if anything; messages to the terminal have
  no counterpart.
\<close>

section \<open>Arguments\<close>

definition argument :: "string list \<Rightarrow> nat \<Rightarrow> string \<Rightarrow> string" where
  "argument argv i defv = (if i < length argv then argv ! i else defv)"

definition port_argument :: "string list \<Rightarrow> nat \<Rightarrow> u16 \<Rightarrow> u16 result" where
  "port_argument argv i defv =
     (if i < length argv then rbind (stoi (argv ! i)) (\<lambda>n. Inr (port_of_int n)) else Inr defv)"

text \<open>\<open>std::stoull\<close>: a minus sign negates modulo \<open>2^64\<close>.\<close>

definition stoull :: "string \<Rightarrow> u64 result" where
  "stoull s =
     (let t = dropWhile is_space s;
          neg = (t \<noteq> [] \<and> hd t = CHR ''-'');
          u = (if t \<noteq> [] \<and> (hd t = CHR ''-'' \<or> hd t = CHR ''+'') then tl t else t);
          ds = takeWhile is_digit u
      in if ds = [] then throw ''stoull''
         else if 18446744073709551615 < dec_value ds then throw ''stoull''
         else Inr (if neg then - word_of_nat (dec_value ds) else word_of_nat (dec_value ds)))"

section \<open>The PING client (\<open>main.cpp\<close>)\<close>

text \<open>The connection attempt and then the socket.\<close>

definition connect_to :: "(string \<Rightarrow> u16 \<Rightarrow> string option) \<Rightarrow> string \<Rightarrow> u16 \<Rightarrow> (socket, unit) action" where
  "connect_to connect_error host port s =
     (case connect_error host port of None \<Rightarrow> (Inr (), s) | Some what \<Rightarrow> (throw what, s))"

definition ping_main :: "(string \<Rightarrow> u16 \<Rightarrow> string option) \<Rightarrow> string list \<Rightarrow> (socket, int) action" where
  "ping_main connect_error argv =
     (let name = argument argv 1 ''client''; host = argument argv 2 ''127.0.0.1'' in
      sbind (slift (port_argument argv 3 9000)) (\<lambda>port.
      sbind (connect_to connect_error host port) (\<lambda>_.
      sbind (sock_write (ping_frame 1 (string_bytes name))) (\<lambda>_.
      sbind (sock_write (ping_frame 2 (string_bytes ''ping''))) (\<lambda>_.
      sreturn 0)))))"

section \<open>The authentication client (\<open>test_auth.cpp\<close>)\<close>

record auth_args =
  aa_cmd :: string
  aa_username :: string
  aa_email :: string
  aa_password :: string
  aa_host :: string
  aa_port :: u16

definition test_auth_args :: "string list \<Rightarrow> auth_args result" where
  "test_auth_args argv =
     (let cmd = argument argv 1 ''register'';
          username = argument argv 2 ''testuser'';
          password = argument argv 3 ''testpass123'';
          host = argument argv 4 ''127.0.0.1'';
          email = ''testuser@example.com'' in
      rbind (port_argument argv 5 9000) (\<lambda>port.
      if cmd = ''register'' \<and> length argv \<ge> 5 then
        let email = argv ! 4; host = (if length argv \<ge> 6 then argv ! 5 else host) in
        rbind (port_argument argv 6 port) (\<lambda>port.
        Inr \<lparr>aa_cmd = cmd, aa_username = username, aa_email = email, aa_password = password,
             aa_host = host, aa_port = port\<rparr>)
      else Inr \<lparr>aa_cmd = cmd, aa_username = username, aa_email = email, aa_password = password,
                aa_host = host, aa_port = port\<rparr>))"

definition test_auth_main :: "(string \<Rightarrow> u16 \<Rightarrow> string option) \<Rightarrow> string list \<Rightarrow> (socket, int) action" where
  "test_auth_main connect_error argv =
     sbind (slift (test_auth_args argv)) (\<lambda>a.
     scatch
       (sbind (connect_to connect_error (aa_host a) (aa_port a)) (\<lambda>_.
        if aa_cmd a = ''register'' then
          sbind (sock_write (make_register_req (aa_username a) (aa_email a) (aa_password a))) (\<lambda>_.
          sbind (read_response 11) (\<lambda>_. sreturn 0))
        else if aa_cmd a = ''login'' then
          sbind (sock_write (auth_make_login_req (aa_username a) (aa_password a))) (\<lambda>_.
          sbind (read_response 13) (\<lambda>_. sreturn 0))
        else sreturn 1))
       (\<lambda>_. sreturn 1))"

section \<open>The persistent client (\<open>test_persistent.cpp\<close>)\<close>

text \<open>The loop sends a PING every five seconds, until a write throws: \<open>k\<close> writes succeed.\<close>

fun ping_loop :: "nat \<Rightarrow> (socket, unit) action" where
  "ping_loop 0 = sreturn ()"
| "ping_loop (Suc k) = sbind (sock_write (persistent_make_frame 2 (string_bytes ''ping''))) (\<lambda>_. ping_loop k)"

definition persistent_main ::
  "(string \<Rightarrow> u16 \<Rightarrow> string option) \<Rightarrow> nat \<Rightarrow> string list \<Rightarrow> (socket, int) action" where
  "persistent_main connect_error k argv =
     (let username = argument argv 1 ''testuser''; password = argument argv 2 ''testpass123'';
          host = argument argv 3 ''127.0.0.1'' in
      sbind (slift (port_argument argv 4 9000)) (\<lambda>port.
      scatch
        (sbind (connect_to connect_error host port) (\<lambda>_.
         sbind (sock_write (persistent_make_login_req username password)) (\<lambda>_.
         sbind read_login_response (\<lambda>ok.
         if \<not> ok then sreturn 1 else sbind (ping_loop k) (\<lambda>_. sreturn 0)))))
        (\<lambda>_. sreturn 1)))"

section \<open>The transfer client (\<open>test_file_transfer.cpp\<close>)\<close>

datatype transfer_job =
    Usage
  | SendFile string string string string string u16
  | ReceiveFile string string u64 string string u16

text \<open>With three arguments in all, \<open>argv[3]\<close> is the null pointer that ends the array.\<close>

definition transfer_args :: "string list \<Rightarrow> transfer_job result" where
  "transfer_args argv =
     (if length argv < 3 then Inr Usage
      else if length argv = 3 then undefined_behaviour
      else let cmd = argv ! 1; username = argv ! 2; password = argv ! 3 in
        if cmd = ''send'' then
          (if length argv < 6 then Inr Usage
           else rbind (port_argument argv 7 9000) (\<lambda>port.
             Inr (SendFile username password (argv ! 4) (argv ! 5) (argument argv 6 ''127.0.0.1'') port)))
        else if cmd = ''recv'' then
          (if length argv < 6 then Inr Usage
           else rbind (stoull (argv ! 4)) (\<lambda>tid.
             rbind (port_argument argv 7 9000) (\<lambda>port.
             Inr (ReceiveFile username password tid (argv ! 5) (argument argv 6 ''127.0.0.1'') port))))
        else Inr Usage)"

definition transfer_main ::
  "(string \<Rightarrow> u16 \<Rightarrow> string option) \<Rightarrow> (string \<Rightarrow> client_file) \<Rightarrow> string list \<Rightarrow> (socket, int) action" where
  "transfer_main connect_error files argv =
     sbind (slift (transfer_args argv)) (\<lambda>a.
     case a of
       Usage \<Rightarrow> sreturn 1
     | SendFile username password receiver filepath host port \<Rightarrow>
         scatch
           (sbind (connect_to connect_error host port) (\<lambda>_.
            sbind (do_login username password) (\<lambda>ok.
            if \<not> ok then sreturn 1
            else sbind (do_send receiver filepath (files filepath)) (\<lambda>_. sreturn 0))))
           (\<lambda>_. sreturn 1)
     | ReceiveFile username password tid output_path host port \<Rightarrow>
         scatch
           (sbind (connect_to connect_error host port) (\<lambda>_.
            sbind (do_login username password) (\<lambda>ok.
            if \<not> ok then sreturn 1 else sbind (do_recv tid) (\<lambda>_. sreturn 0))))
           (\<lambda>_. sreturn 1))"
section \<open>PINGs\<close>

text \<open>
  All that happened to the server is that the session \<open>c\<close> queued the frames \<open>q\<close>, and went on
  reading; it stays logged in if it was.
\<close>

definition only_queued :: "nat \<Rightarrow> bytes list \<Rightarrow> 'w server \<Rightarrow> 'w server \<Rightarrow> bool" where
  "only_queued c q srv srv' \<longleftrightarrow>
     (\<exists>s s'. sessions srv c = Some s \<and> sessions srv' c = Some s' \<and> outq s' = outq s @ q \<and>
        pending_read s' = ReadHeader \<and> sess_token s' = sess_token s \<and> sess_user_id s' = sess_user_id s \<and>
        sess_username s' = sess_username s) \<and>
     (\<forall>d. d \<noteq> c \<longrightarrow> sessions srv' d = sessions srv d) \<and> world srv' = world srv \<and> manager srv' = manager srv \<and>
     store srv' = store srv \<and> registry srv' = registry srv"

lemma only_queued_trans:
  "only_queued c q srv srv1 \<Longrightarrow> only_queued c q' srv1 srv2 \<Longrightarrow> only_queued c (q @ q') srv srv2"
  by (auto simp: only_queued_def)

definition pong_frame :: bytes where
  "pong_frame = frame PONG (string_bytes ''pong'')"

lemma hello_body:
  assumes "sessions srv c = Some s"
  shows "\<exists>srv'. message_body X os base c HELLO p srv = (Inr (), srv') \<and> only_queued c [] srv srv'"
  using assms
  by (auto simp: message_body_def handle_message_def sbind_def only_queued_def do_read_header_def stored_frame_def)

lemma ping_body:
  assumes "sessions srv c = Some s"
  shows "\<exists>srv'. message_body X os base c PING p srv = (Inr (), srv') \<and> only_queued c [pong_frame] srv srv'"
  using assms
  by (auto simp: message_body_def handle_message_def sbind_def only_queued_def do_read_header_def stored_frame_def
      reply_def pong_frame_def)

lemma deliver_hello:
  assumes "sessions srv c = Some s" and "pending_read s = ReadHeader" and "length p \<le> 16777216"
  shows "\<exists>srv'. deliver X os base c (make_frame 1 p @ rest) srv = deliver X os base c rest srv' \<and>
    only_queued c [] srv srv'"
  using deliver_frame [OF assms, of HELLO X os base rest] hello_body [OF assms(1), of X os base p]
    make_frame_eq [of HELLO p] by auto

lemma deliver_ping:
  assumes "sessions srv c = Some s" and "pending_read s = ReadHeader"
  shows "\<exists>srv'. deliver X os base c (make_frame 2 (string_bytes ''ping'') @ rest) srv = deliver X os base c rest srv' \<and>
    only_queued c [pong_frame] srv srv'"
  using deliver_frame [OF assms, of "string_bytes ''ping''" PING X os base rest]
    ping_body [OF assms(1), of X os base "string_bytes ''ping''"] make_frame_eq [of PING "string_bytes ''ping''"]
  by auto

lemma only_queued_idle:
  "only_queued c q srv srv' \<Longrightarrow> \<exists>s. sessions srv' c = Some s \<and> pending_read s = ReadHeader"
  by (auto simp: only_queued_def)

lemma deliver_pings:
  assumes "sessions srv c = Some s" and "pending_read s = ReadHeader"
  shows "\<exists>srv'. deliver X os base c (concat (replicate k (make_frame 2 (string_bytes ''ping'')))) srv = (Inr (), srv') \<and>
    only_queued c (replicate k pong_frame) srv srv'"
  using assms
proof (induction k arbitrary: srv s)
  case 0
  then show ?case by (auto simp: deliver_nothing only_queued_def)
next
  case (Suc k)
  obtain srv1 where d: "deliver X os base c (concat (replicate (Suc k) (make_frame 2 (string_bytes ''ping'')))) srv =
      deliver X os base c (concat (replicate k (make_frame 2 (string_bytes ''ping'')))) srv1"
    and q: "only_queued c [pong_frame] srv srv1"
    using deliver_ping [OF Suc.prems, of X os base "concat (replicate k (make_frame 2 (string_bytes ''ping'')))"]
    by auto
  obtain srv' where "deliver X os base c (concat (replicate k (make_frame 2 (string_bytes ''ping'')))) srv1 = (Inr (), srv')"
    and "only_queued c (replicate k pong_frame) srv1 srv'"
    using Suc.IH only_queued_idle [OF q] by blast
  with d only_queued_trans [OF q] show ?case by force
qed

lemma ping_loop_run:
  "ping_loop k s = (Inr (), s\<lparr>outgoing := outgoing s @ concat (replicate k (make_frame 2 (string_bytes ''ping'')))\<rparr>)"
  by (induction k arbitrary: s) (simp_all add: sock_write_def sbind_def make_frame_copies)

section \<open>Logging in\<close>

lemma read_login_response_ok:
  assumes "incoming s = frame LOGIN_RESP (LoginResp_serialize m) @ rest" and "lresp_ok m"
    and "length (LoginResp_serialize m) \<le> 1024"
  shows "read_login_response s = (Inr True, s\<lparr>incoming := rest\<rparr>)"
proof -
  let ?p = "LoginResp_serialize m"
  have b: "read_payload (word_of_nat (length ?p)) (s\<lparr>incoming := ?p @ rest\<rparr>) = (Inr ?p, s\<lparr>incoming := rest\<rparr>)"
    using read_payload_frame [of "s\<lparr>incoming := ?p @ rest\<rparr>" ?p rest] assms(3) by simp
  have l: "ntohl (len_be (make_header LOGIN_RESP (word_of_nat (length ?p)))) = word_of_nat (length ?p)"
    using make_header_simps(2) by (simp add: payload_len_def)
  have small: "\<not> (1024 :: u32) < word_of_nat (length ?p)"
    using assms(3) by (simp add: word_less_nat_alt unat_of_nat take_bit_eq_mod)
  have tok: "length (lresp_token m) < 65536"
    using assms(2,3) by (simp add: LoginResp_serialize_def put_str_def)
  have "get8 ?p 0 = Inr 1" "\<not> length ?p < 3" "\<exists>t. parse_token ?p True = Inr t"
    using assms(2) tok by (auto simp: LoginResp_serialize_def parse_token_def put_str_def codec_simps Let_def)
  then show ?thesis
    using b small assms(1)
    by (auto simp: read_login_response_def sock_read_def sbind_def frame_def Let_def l)
      (auto simp: make_header_def)
qed

section \<open>Properties\<close>

text \<open>
  The PING client and the server: it exits with status 0, and the server, which reads what it
  wrote on an idle connection, queues exactly one PONG for it and changes nothing else, whatever
  name it says HELLO with.
\<close>

theorem ping_client_answered:
  assumes "sessions srv c = Some s" and "pending_read s = ReadHeader" and "length name \<le> 16777216"
  shows "\<exists>bs srv'. ping_main (\<lambda>_ _. None) [prog, name] sock = (Inr 0, sock\<lparr>outgoing := outgoing sock @ bs\<rparr>) \<and>
    deliver X os base c bs srv = (Inr (), srv') \<and> only_queued c [frame PONG (string_bytes ''pong'')] srv srv'"
proof -
  let ?h = "make_frame 1 (string_bytes name)" and ?p = "make_frame 2 (string_bytes ''ping'')"
  obtain srv1 where 1: "deliver X os base c (?h @ ?p) srv = deliver X os base c ?p srv1" "only_queued c [] srv srv1"
    using deliver_hello [OF assms(1,2), of "string_bytes name" X os base ?p] assms(3) by auto
  obtain srv2 where 2: "deliver X os base c ?p srv1 = (Inr (), srv2)" "only_queued c [pong_frame] srv1 srv2"
  proof -
    obtain s1 where "sessions srv1 c = Some s1" "pending_read s1 = ReadHeader" using only_queued_idle [OF 1(2)] by blast
    from deliver_pings [OF this, of X os base 1] that show thesis by auto
  qed
  have "ping_main (\<lambda>_ _. None) [prog, name] sock = (Inr 0, sock\<lparr>outgoing := outgoing sock @ (?h @ ?p)\<rparr>)"
    by (simp add: ping_main_def make_frame_copies argument_def port_argument_def connect_to_def sock_write_def sbind_def Let_def)
  with 1 2 only_queued_trans [OF 1(2) 2(2)] show ?thesis unfolding pong_frame_def by force
qed

theorem ping_client_answered_witness:
  "\<exists>bs srv'. ping_main (\<lambda>_ _. None) [''client'', ''me''] \<lparr>incoming = [], outgoing = []\<rparr> =
       (Inr 0, \<lparr>incoming = [], outgoing = bs\<rparr>) \<and>
     deliver ref_externals sample_os ''d'' 0 bs scenario_start = (Inr (), srv') \<and>
     only_queued 0 [frame PONG (string_bytes ''pong'')] scenario_start srv'"
  using ping_client_answered [OF scenario_connections(1), of "''me''" "''client''" "\<lparr>incoming = [], outgoing = []\<rparr>"
      ref_externals sample_os "''d''"] by simp

text \<open>
  The persistent client stays connected: after a successful login it sends PINGs as long as
  its writes succeed; however many the server receives, it queues as many PONGs (which the client
  never reads), and the session stays open and logged in.
\<close>

theorem persistent_client_stays:
  assumes "incoming sock = frame LOGIN_RESP (LoginResp_serialize m) @ rest" and "lresp_ok m"
    and "length (LoginResp_serialize m) \<le> 1024"
    and "sessions srv c = Some s" and "pending_read s = ReadHeader"
  shows "\<exists>bs srv'. persistent_main (\<lambda>_ _. None) k [prog, u, p] sock =
      (Inr 0, sock\<lparr>incoming := rest, outgoing := outgoing sock @ make_login_req u p @ bs\<rparr>) \<and>
    deliver X os base c bs srv = (Inr (), srv') \<and>
    only_queued c (replicate k (frame PONG (string_bytes ''pong''))) srv srv'"
proof -
  let ?bs = "concat (replicate k (make_frame 2 (string_bytes ''ping'')))"
  have "read_login_response (sock\<lparr>outgoing := outgoing sock @ make_login_req u p\<rparr>) =
      (Inr True, sock\<lparr>incoming := rest, outgoing := outgoing sock @ make_login_req u p\<rparr>)"
    using read_login_response_ok [of "sock\<lparr>outgoing := outgoing sock @ make_login_req u p\<rparr>" m rest] assms(1-3)
    by simp
  then have "persistent_main (\<lambda>_ _. None) k [prog, u, p] sock =
      (Inr 0, sock\<lparr>incoming := rest, outgoing := outgoing sock @ make_login_req u p @ ?bs\<rparr>)"
    by (simp add: persistent_main_def make_login_req_copies argument_def port_argument_def connect_to_def sock_write_def sbind_def
        Let_def ping_loop_run)
  with deliver_pings [OF assms(4,5), of X os base k] show ?thesis unfolding pong_frame_def by blast
qed

theorem persistent_client_stays_witness:
  "\<exists>bs srv'. persistent_main (\<lambda>_ _. None) 3 [''client'', ''alice'', ''pa'']
       \<lparr>incoming = frame LOGIN_RESP (LoginResp_serialize (scenario_resp 0 1 ''alice'')), outgoing = []\<rparr> =
       (Inr 0, \<lparr>incoming = [], outgoing = make_login_req ''alice'' ''pa'' @ bs\<rparr>) \<and>
     deliver ref_externals sample_os ''d'' 0 bs scenario_start = (Inr (), srv')"
proof -
  let ?s = "\<lparr>incoming = frame LOGIN_RESP (LoginResp_serialize (scenario_resp 0 1 ''alice'')), outgoing = []\<rparr>"
  have "length (LoginResp_serialize (scenario_resp 0 1 ''alice'')) \<le> 1024"
    by (simp add: LoginResp_serialize_def put_str_def scenario_resp_def scenario_token_def)
  with persistent_client_stays [of ?s "scenario_resp 0 1 ''alice''" "[]" scenario_start 0,
      OF _ _ _ scenario_connections(1), of 3 "''client''" "''alice''" "''pa''" ref_externals sample_os "''d''"]
  show ?thesis by (auto simp: scenario_resp_def)
qed

text \<open>
  The transfer client as a whole, for \<open>send\<close>: given a granted login and the answers of a
  server that grants everything, it logs in, writes the offer, the chunks of the file and
  FILE_DONE, reads exactly the four answers and exits with status 0.
\<close>

theorem transfer_client_sends:
  assumes "cf_exists (files path)" and "cf_opens (files path)"
    and "cf_size (files path) = length (cf_contents (files path))"
    and "length (get_file_path base tid name) < 65536"
    and "lresp_ok m" and "length (LoginResp_serialize m) < 2 ^ 32"
    and "incoming s = frame LOGIN_RESP (LoginResp_serialize m) @
         frame FILE_OFFER_RESP (FileOfferResp_serialize
           \<lparr>oresp_ok = True, oresp_transfer_id = tid, oresp_reason = []\<rparr>) @
         accept_frame @ result_frame base tid name @ rest"
  shows "transfer_main (\<lambda>_ _. None) files [prog, ''send'', u, p, receiver, path] s =
    (Inr 0, s\<lparr>incoming := rest, outgoing := outgoing s @ make_login_req u p @
        make_file_offer_req receiver (cf_name (files path)) (word_of_nat (length (cf_contents (files path))))
          (word_of_nat DEFAULT_CHUNK_SIZE) @ upload_stream tid (cf_contents (files path))\<rparr>)"
proof -
  note l = do_login_result [OF assms(7,6), of u p]
  let ?s = "s\<lparr>incoming := frame FILE_OFFER_RESP (FileOfferResp_serialize
           \<lparr>oresp_ok = True, oresp_transfer_id = tid, oresp_reason = []\<rparr>) @
         accept_frame @ result_frame base tid name @ rest, outgoing := outgoing s @ make_login_req u p\<rparr>"
  note d = do_send_granted [OF assms(1-4), of ?s rest receiver path]
  show ?thesis
    using l d assms(5)
    by (simp add: transfer_main_def transfer_args_def port_argument_def argument_def connect_to_def sbind_def)
qed

theorem transfer_client_sends_witness:
  "fst (transfer_main (\<lambda>_ _. None)
     (\<lambda>_. \<lparr>cf_exists = True, cf_size = 3, cf_name = ''a.txt'', cf_opens = True, cf_contents = [1, 2, 3]\<rparr>)
     [''client'', ''send'', ''alice'', ''pa'', ''bob'', ''a.txt'']
     \<lparr>incoming = frame LOGIN_RESP (LoginResp_serialize (scenario_resp 0 1 ''alice'')) @
         frame FILE_OFFER_RESP (FileOfferResp_serialize
           \<lparr>oresp_ok = True, oresp_transfer_id = 7, oresp_reason = []\<rparr>) @
         accept_frame @ result_frame ''d'' 7 ''a.txt'' @ [], outgoing = []\<rparr>) = Inr 0"
proof -
  have "length (LoginResp_serialize (scenario_resp 0 1 ''alice'')) < 2 ^ 32"
    by (simp add: LoginResp_serialize_def put_str_def scenario_resp_def scenario_token_def)
  moreover have "length (get_file_path ''d'' 7 ''a.txt'') < 65536"
    by (simp add: get_file_path_def dec_string.simps)
  moreover have "lresp_ok (scenario_resp 0 1 ''alice'')" by (simp add: scenario_resp_def)
  ultimately show ?thesis
    by (subst transfer_client_sends [OF _ _ _ _ _ _ socket.select_convs(1)]) simp_all
qed

text \<open>
  What test_auth makes of its arguments for \<open>register\<close>: the e-mail address, given alone, is
  also taken for the host; and a host given after it is first read as a port, outside of any
  \<open>try\<close>, so that a host which does not begin with a number ends the program.
\<close>

theorem register_arguments_confused:
  "test_auth_args [prog, ''register'', u, p, email] =
     Inr \<lparr>aa_cmd = ''register'', aa_username = u, aa_email = email, aa_password = p, aa_host = email, aa_port = 9000\<rparr> \<and>
   (stoi host = throw w \<longrightarrow> test_auth_main connect_error ([prog, ''register'', u, p, email, host] @ args) s = (throw w, s))"
  by (auto simp: test_auth_args_def test_auth_main_def argument_def port_argument_def)

theorem register_arguments_confused_witness:
  "test_auth_main (\<lambda>_ _. None) ([''a'', ''register'', ''u'', ''p'', ''u@x.org'', ''localhost''] @ [''9000''])
     \<lparr>incoming = [], outgoing = []\<rparr> = (throw ''stoi'', \<lparr>incoming = [], outgoing = []\<rparr>)"
proof -
  have "stoi ''localhost'' = throw ''stoi''"
    by (simp add: stoi_def parse_dec_def is_space_def is_digit_def Let_def)
  with register_arguments_confused [of "''a''" "''u''" "''p''" "''u@x.org''" "''localhost''" "''stoi''"
      "\<lambda>_ _. None" "[''9000'']" "\<lparr>incoming = [], outgoing = []\<rparr>"] show ?thesis by simp
qed

text \<open>The other programs: three arguments in all, and transfer ids that are not what was typed.\<close>

lemma transfer_args_null: "length argv = 3 \<Longrightarrow> transfer_args argv = undefined_behaviour"
  by (simp add: transfer_args_def)

lemma stoull_dec_string: "stoull (dec_string (unat tid)) = Inr tid" for tid :: u64
proof -
  obtain c cs where c: "dec_string (unat tid) = c # cs" by (cases "dec_string (unat tid)") auto
  then have d: "is_digit c" using hd_dec_string [of "unat tid"] by simp
  have "unat tid < 18446744073709551616" using unsigned_less [of tid] by simp
  then have "unat tid \<le> 18446744073709551615" by simp
  moreover have "dropWhile is_space (dec_string (unat tid)) = dec_string (unat tid)"
    using c is_digit_not(1) [OF d] by simp
  moreover have "hd (dec_string (unat tid)) \<noteq> CHR ''-''" "hd (dec_string (unat tid)) \<noteq> CHR ''+''"
    using c d is_digit_not(2,3) by auto
  moreover have "takeWhile is_digit (dec_string (unat tid)) = dec_string (unat tid)"
    using dec_string_digits by (simp add: takeWhile_eq_all_conv)
  ultimately show ?thesis unfolding stoull_def Let_def by (simp del: takeWhile_eq_all_conv)
qed


end
