(* ===== verification/FsxClosedLoop.thy ===== *)
theory FsxClosedLoop
  imports FsxNetwork FsxClientMain
begin

text \<open>
  The transfer client (\<open>client/src/test_file_transfer.cpp\<close>), once as sender and once as
  receiver, against the server: each program reads what the server wrote to its connection, and the
  server reads what the programs wrote. A program whose input ends early stops at the end of file;
  what it wrote until then is what it had written while it waited.
\<close>

section \<open>What a client has written\<close>

definition client_writes :: "(socket, int) action \<Rightarrow> bytes \<Rightarrow> bytes" where
  "client_writes prog input = outgoing (snd (prog \<lparr>incoming = input, outgoing = []\<rparr>))"

text \<open>
  What makes this a sound account of waiting: with more input, an action on a socket either does
  the same and leaves the rest, or, when it stopped at the end of the input, goes on from there.
\<close>

definition causal :: "(socket, 'a) action \<Rightarrow> bool" where
  "causal m \<longleftrightarrow> (\<forall>s more.
     prefix (outgoing s) (outgoing (snd (m s))) \<and>
     (if fst (m s) = throw ''read: End of file'' \<and> incoming (snd (m s)) = []
      then prefix (outgoing (snd (m s))) (outgoing (snd (m (s\<lparr>incoming := incoming s @ more\<rparr>))))
      else m (s\<lparr>incoming := incoming s @ more\<rparr>) =
             (fst (m s), snd (m s)\<lparr>incoming := incoming (snd (m s)) @ more\<rparr>)))"

named_theorems causal_rules

lemma causal_bind [causal_rules]:
  assumes m: "causal m" and f: "\<And>x. causal (f x)"
  shows "causal (sbind m f)"
  unfolding causal_def
proof (intro allI conjI)
  fix s more
  let ?eof = "throw ''read: End of file''" and ?more = "\<lambda>s. s\<lparr>incoming := incoming s @ more\<rparr>"
  have grows: "prefix (outgoing s1) (outgoing (snd (sbind m f s)))" if "m s = (r, s1)" for s r s1
    using that f by (cases r) (auto simp: causal_def)
  have mg: "prefix (outgoing s) (outgoing (snd (m s)))" for s
    using m by (simp add: causal_def)
  show "prefix (outgoing s) (outgoing (snd (sbind m f s)))"
    using mg [of s] grows [of s] by (metis prefix_order.trans prod.collapse)
  obtain r s1 where ms: "m s = (r, s1)" by force
  obtain r2 s2 where m2: "m (?more s) = (r2, s2)" by force
  have cm: "if r = ?eof \<and> incoming s1 = [] then prefix (outgoing s1) (outgoing s2) else (r2, s2) = (r, ?more s1)"
    using m ms m2 unfolding causal_def by (metis fst_conv snd_conv)
  show "if fst (sbind m f s) = ?eof \<and> incoming (snd (sbind m f s)) = []
      then prefix (outgoing (snd (sbind m f s))) (outgoing (snd (sbind m f (?more s))))
      else sbind m f (?more s) = (fst (sbind m f s), ?more (snd (sbind m f s)))"
  proof (cases r)
    case (Inl e)
    with ms m2 cm grows [OF m2] show ?thesis by (auto split: if_splits dest: prefix_order.trans)
  next
    case (Inr x)
    then have "r2 = Inr x" "s2 = ?more s1" using cm by auto
    moreover have "if fst (f x s1) = ?eof \<and> incoming (snd (f x s1)) = []
        then prefix (outgoing (snd (f x s1))) (outgoing (snd (f x (?more s1))))
        else f x (?more s1) = (fst (f x s1), ?more (snd (f x s1)))"
      using f [of x] unfolding causal_def by blast
    ultimately show ?thesis using ms m2 Inr by simp
  qed
qed

lemma causal_basic [causal_rules]:
  "causal (sreturn x)" "causal (slift r)" "causal (sock_write bs)" "causal (sock_read n)"
  by (auto simp: causal_def sreturn_def slift_def sock_write_def sock_read_def)

lemma causal_branches [causal_rules]:
  "(b \<Longrightarrow> causal m) \<Longrightarrow> (\<not> b \<Longrightarrow> causal m') \<Longrightarrow> causal (if b then m else m')"
  "(\<And>x y. causal (g x y)) \<Longrightarrow> causal (case z of (x, y) \<Rightarrow> g x y)"
  "causal (h v) \<Longrightarrow> causal (Let v h)"
  by (simp_all split: prod.split)

lemma causal_read_header: "causal read_header"
  unfolding read_header_def by (intro causal_rules)

lemma causal_expect_frame [causal_rules]: "causal (expect_frame t name)"
  unfolding expect_frame_def read_payload_def by (intro causal_rules causal_read_header)

lemma causal_do_login [causal_rules]: "causal (do_login u p)"
  unfolding do_login_def read_payload_def by (intro causal_rules causal_read_header)

lemma causal_do_recv [causal_rules]: "causal (do_recv tid)"
  unfolding do_recv_def by (intro causal_rules)

lemma causal_do_send [causal_rules]: "causal (do_send receiver path f)"
  unfolding do_send_def by (intro causal_rules)

lemma read_header_eof: "incoming s = [] \<Longrightarrow> read_header s = (throw ''read: End of file'', s)"
  by (simp add: read_header_def sbind_def sock_read_def)

lemma expect_frame_eof: "incoming s = [] \<Longrightarrow> expect_frame t name s = (throw ''read: End of file'', s)"
  by (simp add: expect_frame_def sbind_def read_header_eof)

lemma do_login_eof:
  "incoming s = [] \<Longrightarrow> do_login u p s = (throw ''read: End of file'', s\<lparr>outgoing := outgoing s @ make_login_req u p\<rparr>)"
  by (simp add: do_login_def sbind_def sock_write_def read_header_eof)

abbreviation offer_frame :: "u64 \<Rightarrow> bytes" where
  "offer_frame tid \<equiv> frame FILE_OFFER_RESP (FileOfferResp_serialize
     \<lparr>oresp_ok = True, oresp_transfer_id = tid, oresp_reason = []\<rparr>)"

abbreviation login_frame :: "LoginResp \<Rightarrow> bytes" where
  "login_frame m \<equiv> frame LOGIN_RESP (LoginResp_serialize m)"

definition offer_of :: "string \<Rightarrow> client_file \<Rightarrow> bytes" where
  "offer_of receiver file = make_file_offer_req receiver (cf_name file) (word_of_nat (length (cf_contents file)))
     (word_of_nat DEFAULT_CHUNK_SIZE)"

definition readable :: "client_file \<Rightarrow> bool" where
  "readable file \<longleftrightarrow> cf_exists file \<and> cf_opens file \<and> cf_size file = length (cf_contents file)"

lemma do_send_waits:
  assumes "readable file"
  shows "incoming s = [] \<Longrightarrow> do_send receiver path file s =
      (throw ''read: End of file'', s\<lparr>outgoing := outgoing s @ offer_of receiver file\<rparr>)"
    and "incoming s = offer_frame tid @ accept_frame \<Longrightarrow> do_send receiver path file s =
      (throw ''read: End of file'',
       s\<lparr>incoming := [], outgoing := outgoing s @ offer_of receiver file @ upload_stream tid (cf_contents file)\<rparr>)"
proof -
  show "incoming s = [] \<Longrightarrow> do_send receiver path file s =
      (throw ''read: End of file'', s\<lparr>outgoing := outgoing s @ offer_of receiver file\<rparr>)"
    using assms by (simp add: do_send_def readable_def offer_of_def sbind_def sock_write_def expect_frame_eof)
next
  let ?r1 = "FileOfferResp_serialize \<lparr>oresp_ok = True, oresp_transfer_id = tid, oresp_reason = []\<rparr>"
  let ?r2 = "FileAcceptResp_serialize accept_ok"
  have len: "length ?r1 < 2 ^ 32" "length ?r2 < 2 ^ 32"
    by (simp_all add: FileOfferResp_serialize_def FileAcceptResp_serialize_def accept_ok_def)
  have e1: "expect_frame 31 n s' = (Inr ?r1, s'\<lparr>incoming := r\<rparr>)" if "incoming s' = offer_frame tid @ r" for s' n r
    using expect_frame_ok [OF that len(1)] by simp
  have e2: "expect_frame 33 n s' = (Inr ?r2, s'\<lparr>incoming := []\<rparr>)" if "incoming s' = accept_frame" for s' n
    using expect_frame_ok [of s' FILE_ACCEPT_RESP ?r2 "[]"] that len(2) by simp
  have v1: "\<not> length ?r1 < 9" "get8 ?r1 0 = Inr 0" "get64 ?r1 1 = Inr tid"
    by (simp_all add: FileOfferResp_serialize_def codec_simps)
  have v2: "\<not> length ?r2 < 1" "get8 ?r2 0 = Inr 0"
    by (simp_all add: FileAcceptResp_serialize_def accept_ok_def codec_simps)
  obtain frames k n where loop:
      "chunk_loop tid (length (cf_contents file)) (cf_contents file) 0 0 = (frames, k, n)"
    by (cases "chunk_loop tid (length (cf_contents file)) (cf_contents file) 0 0")
  have up: "upload_stream tid (cf_contents file) = concat frames @
      make_file_done tid (total_chunks_of (length (cf_contents file)) k) (word_of_nat (length (cf_contents file)))"
    by (simp add: upload_stream_def loop)
  assume "incoming s = offer_frame tid @ accept_frame"
  then show "do_send receiver path file s =
      (throw ''read: End of file'',
       s\<lparr>incoming := [], outgoing := outgoing s @ offer_of receiver file @ upload_stream tid (cf_contents file)\<rparr>)"
    using assms v1 v2
    by (simp add: do_send_def readable_def offer_of_def sbind_def sock_write_def expect_frame_eof e1 e2 loop up)
qed

text \<open>The two command lines; the id of the transfer is what the sender's user was told.\<close>

definition sender_main :: "(string \<Rightarrow> client_file) \<Rightarrow> string \<Rightarrow> string \<Rightarrow> string \<Rightarrow> string \<Rightarrow> (socket, int) action" where
  "sender_main files u p receiver path =
     transfer_main (\<lambda>_ _. None) files [''test_file_transfer'', ''send'', u, p, receiver, path]"

definition receiver_main :: "(string \<Rightarrow> client_file) \<Rightarrow> string \<Rightarrow> string \<Rightarrow> u64 \<Rightarrow> string \<Rightarrow> (socket, int) action" where
  "receiver_main files u p tid path =
     transfer_main (\<lambda>_ _. None) files [''test_file_transfer'', ''recv'', u, p, dec_string (unat tid), path]"

text \<open>More input, more output.\<close>

lemma catch_writes:
  assumes "causal m"
  shows "prefix (client_writes (scatch m (\<lambda>_. sreturn 1)) i) (client_writes (scatch m (\<lambda>_. sreturn 1)) (i @ j))"
proof -
  have out: "outgoing (snd (scatch m (\<lambda>_. sreturn 1) s)) = outgoing (snd (m s))" for s
    by (simp add: scatch_def sreturn_def split: prod.split sum.split exn.split)
  let ?s = "\<lparr>incoming = i, outgoing = []\<rparr>"
  have "if fst (m ?s) = throw ''read: End of file'' \<and> incoming (snd (m ?s)) = []
      then prefix (outgoing (snd (m ?s))) (outgoing (snd (m (?s\<lparr>incoming := incoming ?s @ j\<rparr>))))
      else m (?s\<lparr>incoming := incoming ?s @ j\<rparr>) = (fst (m ?s), snd (m ?s)\<lparr>incoming := incoming (snd (m ?s)) @ j\<rparr>)"
    using assms unfolding causal_def by blast
  then show ?thesis by (simp add: client_writes_def out split: if_splits)
qed

lemma causal_connected [causal_rules]: "causal (connect_to (\<lambda>_ _. None) host port)"
  by (simp add: causal_def connect_to_def)

lemma transfer_client_causal:
  "prefix (client_writes (transfer_main (\<lambda>_ _. None) files argv) i)
     (client_writes (transfer_main (\<lambda>_ _. None) files argv) (i @ j))"
proof (cases "transfer_args argv")
  case (Inl e)
  then show ?thesis by (simp add: client_writes_def transfer_main_def sbind_def slift_def)
next
  case (Inr job)
  have main: "client_writes (transfer_main (\<lambda>_ _. None) files argv) k = client_writes (case job of
      Usage \<Rightarrow> sreturn 1
    | SendFile u p receiver path host port \<Rightarrow> scatch (sbind (connect_to (\<lambda>_ _. None) host port) (\<lambda>_.
        sbind (do_login u p) (\<lambda>ok. if \<not> ok then sreturn 1
          else sbind (do_send receiver path (files path)) (\<lambda>_. sreturn 0)))) (\<lambda>_. sreturn 1)
    | ReceiveFile u p tid path host port \<Rightarrow> scatch (sbind (connect_to (\<lambda>_ _. None) host port) (\<lambda>_.
        sbind (do_login u p) (\<lambda>ok. if \<not> ok then sreturn 1
          else sbind (do_recv tid) (\<lambda>_. sreturn 0)))) (\<lambda>_. sreturn 1)) k" for k
    using Inr by (simp add: client_writes_def transfer_main_def sbind_def [of "slift _"] slift_def)
  show ?thesis
    unfolding main
    by (cases job)
      (simp add: client_writes_def, (simp only: transfer_job.case, rule catch_writes, intro causal_rules)+)
qed

lemmas client_args = transfer_main_def transfer_args_def port_argument_def argument_def connect_to_def sbind_def

text \<open>The sender, after each of the answers it waits for.\<close>

lemma sender_writes:
  assumes "readable (files path)" and "lresp_ok m" and "length (LoginResp_serialize m) < 2 ^ 32"
  shows "client_writes (sender_main files u p receiver path) [] = make_login_req u p"
    and "client_writes (sender_main files u p receiver path) (login_frame m) = make_login_req u p @ offer_of receiver (files path)"
    and "client_writes (sender_main files u p receiver path) (login_frame m @ offer_frame tid @ accept_frame) =
           make_login_req u p @ offer_of receiver (files path) @ upload_stream tid (cf_contents (files path))"
proof -
  have l: "do_login u p \<lparr>incoming = login_frame m @ r, outgoing = []\<rparr> =
      (Inr True, \<lparr>incoming = r, outgoing = make_login_req u p\<rparr>)" for r
    using do_login_result [of "\<lparr>incoming = login_frame m @ r, outgoing = []\<rparr>" m r u p] assms(2,3) by simp
  show "client_writes (sender_main files u p receiver path) [] = make_login_req u p"
    by (simp add: client_writes_def sender_main_def client_args do_login_eof)
  show "client_writes (sender_main files u p receiver path) (login_frame m) = make_login_req u p @ offer_of receiver (files path)"
    using l [of "[]"] do_send_waits(1) [OF assms(1)] by (simp add: client_writes_def sender_main_def client_args)
  show "client_writes (sender_main files u p receiver path) (login_frame m @ offer_frame tid @ accept_frame) =
           make_login_req u p @ offer_of receiver (files path) @ upload_stream tid (cf_contents (files path))"
    using l [of "offer_frame tid @ accept_frame"] do_send_waits(2) [OF assms(1)]
    by (simp add: client_writes_def sender_main_def client_args)
qed

text \<open>The receiver, which exits with status 0 once its acceptance is confirmed.\<close>

lemma do_recv_waits:
  "incoming s = [] \<Longrightarrow> do_recv tid s =
     (throw ''read: End of file'', s\<lparr>outgoing := outgoing s @ make_file_accept_req tid True\<rparr>)"
  by (simp add: do_recv_def sbind_def sock_write_def expect_frame_eof)

lemma do_recv_accepted:
  assumes "incoming s = accept_frame"
  shows "do_recv tid s = (Inr (), s\<lparr>incoming := [], outgoing := outgoing s @ make_file_accept_req tid True\<rparr>)"
proof -
  let ?r = "FileAcceptResp_serialize accept_ok"
  have "length ?r < 2 ^ 32" "\<not> length ?r < 1" "get8 ?r 0 = Inr 0"
    by (simp_all add: FileAcceptResp_serialize_def accept_ok_def codec_simps)
  moreover have "expect_frame 33 n s' = (Inr ?r, s'\<lparr>incoming := []\<rparr>)" if "incoming s' = accept_frame" for s' n
    using expect_frame_ok [of s' FILE_ACCEPT_RESP ?r "[]"] that \<open>length ?r < 2 ^ 32\<close> by simp
  ultimately show ?thesis using assms by (simp add: do_recv_def sbind_def sock_write_def)
qed

lemma receiver_writes:
  assumes "lresp_ok m" and "length (LoginResp_serialize m) < 2 ^ 32"
  shows "client_writes (receiver_main files u p tid path) [] = make_login_req u p"
    and "client_writes (receiver_main files u p tid path) (login_frame m) =
           make_login_req u p @ make_file_accept_req tid True"
    and "receiver_main files u p tid path \<lparr>incoming = login_frame m @ accept_frame, outgoing = []\<rparr> =
           (Inr 0, \<lparr>incoming = [], outgoing = make_login_req u p @ make_file_accept_req tid True\<rparr>)"
proof -
  have l: "do_login u p \<lparr>incoming = login_frame m @ r, outgoing = []\<rparr> =
      (Inr True, \<lparr>incoming = r, outgoing = make_login_req u p\<rparr>)" for r
    using do_login_result [of "\<lparr>incoming = login_frame m @ r, outgoing = []\<rparr>" m r u p] assms by simp
  show "client_writes (receiver_main files u p tid path) [] = make_login_req u p"
    by (simp add: client_writes_def receiver_main_def client_args stoull_dec_string do_login_eof)
  show "client_writes (receiver_main files u p tid path) (login_frame m) =
           make_login_req u p @ make_file_accept_req tid True"
    using l [of "[]"] by (simp add: client_writes_def receiver_main_def client_args stoull_dec_string do_recv_waits)
  show "receiver_main files u p tid path \<lparr>incoming = login_frame m @ accept_frame, outgoing = []\<rparr> =
           (Inr 0, \<lparr>incoming = [], outgoing = make_login_req u p @ make_file_accept_req tid True\<rparr>)"
    using l [of accept_frame] by (simp add: receiver_main_def client_args stoull_dec_string do_recv_accepted)
qed

section \<open>The closed loop\<close>

lemma net_exchange:
  assumes n: "net_run X base clients srv0 n" and s: "sessions (net_server n) c = Some s" "pending_read s = ReadHeader"
    and ms: "frames_ok ms" and d: "deliver X os base c (frames ms) (net_server n) = (Inr (), srv)"
    and w: "prefix (net_read n c @ frames ms) (clients c (net_written n c))"
    and s': "sessions srv c = Some s'" "pending_read s' = ReadHeader" and fl: "flowing c (net_server n)"
  obtains n' where "net_run X base clients srv0 n'" and "net_server n' = modify_session c drained srv"
    and "net_read n' = (net_read n)(c := net_read n c @ frames ms)"
    and "net_written n' = (net_written n)(c := net_written n c @ concat (outq s'))"
proof -
  have "flowing c srv" by (rule flowing_stable.inv_deliver [OF fl d])
  then show thesis
    by (intro that [OF net_drain [OF net_frames [OF n s ms d w], of c s']]) (use s' in simp_all)
qed

lemma get_session_modify [simp]:
  "get_session (sessions (modify_session c f srv)) reg t = get_session (sessions srv) reg t"
  by (auto simp: get_session_def split: option.splits)

lemma flowing_drained [simp]: "flowing d (modify_session c drained srv) \<longleftrightarrow> c = d \<or> flowing d srv"
  by (auto simp: flowing_def drained_def)

lemma logged_in_drained: "logged_in r q s \<Longrightarrow> logged_in r [] (drained s)"
  by (simp add: logged_in_def drained_def)

lemma connected_drained:
  "connected c uid q ReadHeader srv \<Longrightarrow> connected c uid [] ReadHeader (modify_session c drained srv)"
  "c \<noteq> d \<Longrightarrow> connected c uid q r (modify_session d drained srv) = connected c uid q r srv"
  by (auto simp: connected_def drained_def is_authenticated_def)

text \<open>What the clients write is whole frames.\<close>

lemma make_frame_frames: "msg_type_of k = t \<Longrightarrow> msg_code t = k \<Longrightarrow> make_frame k p = frames [(t, p)]"
  using make_frame_eq [of t p] by (simp add: frames_def)

lemma request_frames:
  "make_login_req u p = frames [(LOGIN_REQ, login_payload u p)]"
  "make_file_offer_req r n z k = frames [(FILE_OFFER_REQ, file_offer_payload r n z k)]"
  "make_file_accept_req tid b = frames [(FILE_ACCEPT_REQ, file_accept_payload tid b)]"
  by (simp_all add: make_login_req_def make_file_offer_req_def make_file_accept_req_def make_frame_frames)

lemma frames_append: "frames (ms @ ms') = frames ms @ frames ms'"
  by (simp add: frames_def)

lemma chunk_frames_frames:
  assumes "\<forall>b \<in> set bs. length b \<le> 16777204"
  shows "\<exists>ms. concat (chunk_frames tid k bs) = frames ms \<and> frames_ok ms"
  using assms
proof (induction bs arbitrary: k)
  case Nil
  then show ?case by (intro exI [of _ "[]"]) (simp add: frames_def frames_ok_def)
next
  case (Cons b bs)
  then obtain ms where ms: "concat (chunk_frames tid (k + 1) bs) = frames ms" "frames_ok ms" by auto
  have "make_file_chunk tid k b = frames [(FILE_CHUNK, file_chunk_payload tid k b)]"
    by (simp add: make_file_chunk_def make_frame_frames)
  moreover have "frames_ok ((FILE_CHUNK, file_chunk_payload tid k b) # ms)"
    using ms(2) Cons.prems by (simp add: frames_ok_def file_chunk_payload_def)
  ultimately show ?case
    using ms(1) by (intro exI [of _ "(FILE_CHUNK, file_chunk_payload tid k b) # ms"]) (simp add: frames_def)
qed

lemma upload_stream_frames: "\<exists>ms. upload_stream tid file = frames ms \<and> frames_ok ms"
proof -
  let ?bs = "blocks DEFAULT_CHUNK_SIZE file"
  let ?done = "(FILE_DONE, file_done_payload tid (total_chunks_of (length file) (word_of_nat (length ?bs)))
      (word_of_nat (length file)))"
  have "\<forall>b \<in> set ?bs. length b \<le> 16777204"
    using blocks_sizes [where n = DEFAULT_CHUNK_SIZE and xs = "file"] by (auto simp: DEFAULT_CHUNK_SIZE_def)
  then obtain ms where ms: "concat (chunk_frames tid 0 ?bs) = frames ms" "frames_ok ms"
    using chunk_frames_frames by blast
  have "upload_stream tid file = frames (ms @ [?done])"
    unfolding upload_stream_blocks ms(1) frames_append by (simp add: make_file_done_def make_frame_frames)
  moreover have "frames_ok (ms @ [?done])"
    using ms(2) by (auto simp: frames_ok_def file_done_payload_def)
  ultimately show ?thesis by blast
qed

section \<open>The stages of a transfer\<close>

abbreviation fresh_session :: TcpSession where
  "fresh_session \<equiv> TcpSession_new\<lparr>pending_read := ReadHeader\<rparr>"

abbreviation all_flowing :: "nat set \<Rightarrow> 'w network \<Rightarrow> bool" where
  "all_flowing C n \<equiv> \<forall>e \<in> C. flowing e (net_server n)"

lemma net_login:
  assumes n: "net_run X base clients srv0 n" and s: "sessions (net_server n) c = Some fresh_session"
    and fits: "length u < 65536" "length p < 65536"
    and login: "handle_login X \<lparr>lreq_username = u, lreq_password = p\<rparr> (world (net_server n)) = (Inr r, w)"
      "lresp_ok r" "lresp_token r \<noteq> []"
    and reg: "distinct (map fst (registry (net_server n)))" and fl: "all_flowing C n" "c \<in> C"
    and io: "net_read n c = []" "net_written n c = []" "clients c [] = make_login_req u p"
  obtains n' s' where "net_run X base clients srv0 n'"
    and "net_read n' = (net_read n)(c := make_login_req u p)" and "net_written n' = (net_written n)(c := login_frame r)"
    and "sessions (net_server n') c = Some s'" and "logged_in r [] s'"
    and "\<And>e. e \<noteq> c \<Longrightarrow> sessions (net_server n') e = sessions (net_server n) e"
    and "world (net_server n') = w" and "manager (net_server n') = manager (net_server n)"
    and "distinct (map fst (registry (net_server n')))" and "all_flowing C n'"
    and "get_session (sessions (net_server n')) (registry (net_server n')) (lresp_token r) = Some c"
    and "\<And>t e. t \<noteq> lresp_token r \<Longrightarrow> get_session (sessions (net_server n)) (registry (net_server n)) t = Some e \<Longrightarrow>
           get_session (sessions (net_server n')) (registry (net_server n')) t = Some e"
proof -
  have fresh: "pending_read fresh_session = ReadHeader" "outq fresh_session = []" by (simp_all add: TcpSession_new_def)
  obtain srv1 s1 where d: "deliver X os base c (make_login_req u p) (net_server n) = (Inr (), srv1)"
    and s1: "sessions srv1 c = Some s1" "logged_in r (outq fresh_session @ [login_frame r]) s1"
      "\<And>e. e \<noteq> c \<Longrightarrow> sessions srv1 e = sessions (net_server n) e"
    and w1: "world srv1 = w" "manager srv1 = manager (net_server n)" "distinct (map fst (registry srv1))"
    and g1: "get_session (sessions srv1) (registry srv1) (lresp_token r) = Some c"
      "\<And>t e. t \<noteq> lresp_token r \<Longrightarrow> get_session (sessions (net_server n)) (registry (net_server n)) t = Some e \<Longrightarrow>
           get_session (sessions srv1) (registry srv1) t = Some e"
    by (rule deliver_login [where os = os and base = base, OF s fresh(1) fits login reg]) (rule that)
  have r1: "pending_read s1 = ReadHeader" "outq s1 = [login_frame r]" using s1(2) fresh by (simp_all add: logged_in_def)
  obtain n' where n': "net_run X base clients srv0 n'" "net_server n' = modify_session c drained srv1"
    "net_read n' = (net_read n)(c := make_login_req u p)" "net_written n' = (net_written n)(c := login_frame r)"
    using net_exchange [OF n s fresh(1), of "[(LOGIN_REQ, login_payload u p)]" os srv1 s1] d s1(1) r1 fits fl io
    by (auto simp: request_frames frames_ok_def login_payload_def)
  have "flowing e srv1" if "e \<in> C" for e using that fl flowing_stable.inv_deliver [OF _ d] by blast
  then show thesis using s1 w1 g1 n'(2) logged_in_drained [OF s1(2)] by (intro that [OF n'(1,3,4)]) auto
qed

lemma net_offer:
  assumes n: "net_run X base clients srv0 n" and s: "sessions (net_server n) c = Some s" "logged_in ra [] s"
    "lresp_token ra \<noteq> []"
    and fits: "length ub < 65536" "length (cf_name g) < 65536"
    and user: "get_user_by_username X ub (world (net_server n)) = (Inr (Some row), world (net_server n))"
    and tid: "next_transfer_id (manager (net_server n)) = tid" "tid \<noteq> 0" and fl: "all_flowing C n" "c \<in> C"
    and io: "prefix (net_read n c @ offer_of ub g) (clients c (net_written n c))"
  obtains n' where "net_run X base clients srv0 n'"
    and "net_read n' = (net_read n)(c := net_read n c @ offer_of ub g)"
    and "net_written n' = (net_written n)(c := net_written n c @ offer_frame tid)"
    and "connected c (lresp_user_id ra) [] ReadHeader (net_server n')"
    and "offered base tid (cf_name g) (lresp_user_id ra) (u_id row) (lresp_token ra) (manager (net_server n'))"
    and "\<And>e. e \<noteq> c \<Longrightarrow> sessions (net_server n') e = sessions (net_server n) e"
    and "\<And>t. get_session (sessions (net_server n')) (registry (net_server n')) t =
           get_session (sessions (net_server n)) (registry (net_server n)) t"
    and "all_flowing C n'"
proof -
  let ?k = "word_of_nat DEFAULT_CHUNK_SIZE" and ?z = "word_of_nat (length (cf_contents g))"
  have a: "pending_read s = ReadHeader" "is_authenticated s" "sess_user_id s = lresp_user_id ra"
    "sess_token s = lresp_token ra" "outq s = []"
    using s(2,3) by (simp_all add: logged_in_def is_authenticated_def)
  obtain srv1 s1 where d: "deliver X os base c (make_file_offer_req ub (cf_name g) ?z ?k) (net_server n) = (Inr (), srv1)"
    and s1: "sessions srv1 c = Some s1" "sess_token s1 = sess_token s" "sess_user_id s1 = sess_user_id s"
      "outq s1 = outq s @ [offer_frame tid]" "pending_read s1 = ReadHeader"
    and o1: "offered base tid (cf_name g) (sess_user_id s) (u_id row) (sess_token s) (manager srv1)"
    and r1: "\<And>e. e \<noteq> c \<Longrightarrow> sessions srv1 e = sessions (net_server n) e" "registry srv1 = registry (net_server n)"
    by (rule deliver_offer [where os = os and base = base, OF s(1) a(1,2) fits user tid]) (rule that)
  obtain n' where n': "net_run X base clients srv0 n'" "net_server n' = modify_session c drained srv1"
    "net_read n' = (net_read n)(c := net_read n c @ offer_of ub g)"
    "net_written n' = (net_written n)(c := net_written n c @ offer_frame tid)"
    using net_exchange [OF n s(1) a(1), of "[(FILE_OFFER_REQ, file_offer_payload ub (cf_name g) ?z ?k)]" os srv1 s1]
      d s1(1,4,5) a(5) fits fl io
    by (auto simp: request_frames frames_ok_def file_offer_payload_def offer_of_def)
  have "flowing e srv1" if "e \<in> C" for e using that fl flowing_stable.inv_deliver [OF _ d] by blast
  moreover have "connected c (lresp_user_id ra) [] ReadHeader (net_server n')"
    using s1 a n'(2) by (auto simp: connected_def drained_def is_authenticated_def)
  moreover have "get_session (sessions srv1) (registry srv1) t = get_session (sessions (net_server n)) (registry (net_server n)) t" for t
  proof -
    have "sessions srv1 e = None \<longleftrightarrow> sessions (net_server n) e = None" for e
      using s1(1) r1(1) s(1) by (cases "e = c") simp_all
    then show ?thesis by (auto simp: get_session_def r1(2) split: option.split) (metis option.distinct(1))+
  qed
  ultimately show thesis using o1 r1(1) a(3,4) n'(2) by (intro that [OF n'(1,3,4)]) simp_all
qed

lemma net_accept:
  assumes n: "net_run X base clients srv0 n" and "disk_ok os" and "c \<noteq> d"
    and off: "offered base tid name uid rid token (manager (net_server n))" "token \<noteq> []"
      "get_session (sessions (net_server n)) (registry (net_server n)) token = Some c"
    and cc: "connected c uid [] ReadHeader (net_server n)" and cd: "connected d rid [] ReadHeader (net_server n)"
    and fl: "all_flowing C n" "c \<in> C" "d \<in> C"
    and io: "prefix (net_read n d @ make_file_accept_req tid True) (clients d (net_written n d))"
  obtains n' h f where "net_run X base clients srv0 n'"
    and "net_read n' = (net_read n)(d := net_read n d @ make_file_accept_req tid True)"
    and "net_written n' = (net_written n)(c := net_written n c @ accept_frame, d := net_written n d @ accept_frame)"
    and "receiving os base tid name uid h f [] 0 (manager (net_server n')) (store (net_server n'))"
    and "connected c uid [] ReadHeader (net_server n')" and "all_flowing C n'"
proof -
  obtain srv1 h f where d: "deliver X os base d (make_file_accept_req tid True) (net_server n) = (Inr (), srv1)"
    and rv: "receiving os base tid name uid h f [] 0 (manager srv1) (store srv1)"
    and c1: "connected c uid [accept_frame] ReadHeader srv1" "connected d rid [accept_frame] ReadHeader srv1"
    by (rule deliver_accept [OF assms(2) off(1) cc cd assms(3) off(2,3), where X = X]) auto
  have fl1: "flowing e srv1" if "e \<in> C" for e using that fl flowing_stable.inv_deliver [OF _ d] by blast
  obtain sd where sd: "sessions (net_server n) d = Some sd" "pending_read sd = ReadHeader"
    using cd by (auto simp: connected_def)
  obtain s1 s2 where s: "sessions srv1 c = Some s1" "pending_read s1 = ReadHeader" "outq s1 = [accept_frame]"
    "sessions srv1 d = Some s2" "pending_read s2 = ReadHeader" "outq s2 = [accept_frame]"
    using c1 by (auto simp: connected_def)
  obtain n1 where n1: "net_run X base clients srv0 n1" "net_server n1 = modify_session d drained srv1"
    "net_read n1 = (net_read n)(d := net_read n d @ make_file_accept_req tid True)"
    "net_written n1 = (net_written n)(d := net_written n d @ accept_frame)"
    using net_exchange [OF n sd, of "[(FILE_ACCEPT_REQ, file_accept_payload tid True)]" os srv1 s2] d s(4-6) fl io
    by (auto simp: request_frames frames_ok_def file_accept_payload_def)
  let ?n = "n1\<lparr>net_server := modify_session c drained (net_server n1),
      net_written := (net_written n1)(c := net_written n1 c @ accept_frame)\<rparr>"
  have "net_run X base clients srv0 ?n"
    using net_drain [OF n1(1), of c s1] s(1-3) n1(2) assms(3) fl1 fl by simp
  moreover have "connected c uid [] ReadHeader (net_server ?n)"
    using connected_drained(1) [of c uid "[accept_frame]" "net_server n1"] connected_drained(2) [OF assms(3), of uid "[accept_frame]" ReadHeader srv1]
      c1(1) n1(2) by simp
  ultimately show thesis
    using n1 rv assms(3) fl1 by (intro that [of ?n h f]) (simp_all add: fun_upd_twist)
qed

lemma net_upload:
  assumes n: "net_run X base clients srv0 n" and "disk_ok os"
    and rv: "receiving os base tid name uid h f [] 0 (manager (net_server n)) (store (net_server n))"
    and c: "connected c uid [] ReadHeader (net_server n)" and fl: "all_flowing C n" "c \<in> C"
    and io: "prefix (net_read n c @ upload_stream tid data) (clients c (net_written n c))"
  obtains n' where "net_run X base clients srv0 n'"
    and "net_read n' = (net_read n)(c := net_read n c @ upload_stream tid data)"
    and "net_written n' = (net_written n)(c := net_written n c @ result_frame base tid name)"
    and "stored_as os base tid name data (word_of_nat (length (blocks DEFAULT_CHUNK_SIZE data)))
           (manager (net_server n')) (store (net_server n'))"
proof -
  obtain srv1 where d: "deliver X os base c (upload_stream tid data) (net_server n) = (Inr (), srv1)"
    and st: "stored_as os base tid name data (word_of_nat (length (blocks DEFAULT_CHUNK_SIZE data)))
           (manager srv1) (store srv1)"
    and c1: "connected c uid [result_frame base tid name] ReadHeader srv1"
    by (rule upload_stored [OF assms(2) rv c, where X = X]) (rule that, simp_all)
  obtain s s1 where s: "sessions (net_server n) c = Some s" "pending_read s = ReadHeader"
    "sessions srv1 c = Some s1" "pending_read s1 = ReadHeader" "outq s1 = [result_frame base tid name]"
    using c c1 by (auto simp: connected_def)
  obtain ms where ms: "upload_stream tid data = frames ms" "frames_ok ms" using upload_stream_frames by blast
  obtain n' where "net_run X base clients srv0 n'" "net_server n' = modify_session c drained srv1"
    "net_read n' = (net_read n)(c := net_read n c @ upload_stream tid data)"
    "net_written n' = (net_written n)(c := net_written n c @ result_frame base tid name)"
    using net_exchange [OF n s(1,2) ms(2), of os srv1 s1] ms(1) d s(3-5) fl io by auto
  with st show thesis by (intro that [of n']) simp_all
qed

section \<open>Properties\<close>

text \<open>
  C1: The clients and the server work together. Two fresh connections: on one runs the transfer
  client with \<open>send\<close>, on the other the transfer client with \<open>recv\<close> and the id the transfer will
  have. Each program reads only what the server wrote to its connection, and the server reads only
  what the program had written by then. If the database grants both logins, the receiver's name
  leads to its user, and the disk takes what it is given, there is a run in which both programs
  exit with status 0, having had all their output read, and in which the server ends with the
  sender's file stored under its final name.
\<close>

theorem clients_and_server:
  assumes "disk_ok os" and "c \<noteq> d"
    and "sessions srv c = Some fresh_session" and "sessions srv d = Some fresh_session"
    and "distinct (map fst (registry srv))"
    and "length ua < 65536" and "length pa < 65536" and "length ub < 65536" and "length pb < 65536"
    and "length (cf_name (files path)) < 65536"
    and "length (get_file_path base tid (cf_name (files path))) < 65536" and "readable (files path)"
    and "handle_login X \<lparr>lreq_username = ua, lreq_password = pa\<rparr> (world srv) = (Inr ra, w1)"
    and "lresp_ok ra" and "lresp_token ra \<noteq> []" and "length (LoginResp_serialize ra) < 2 ^ 32"
    and "handle_login X \<lparr>lreq_username = ub, lreq_password = pb\<rparr> w1 = (Inr rb, w2)"
    and "lresp_ok rb" and "lresp_token rb \<noteq> []" and "length (LoginResp_serialize rb) < 2 ^ 32"
    and "lresp_token rb \<noteq> lresp_token ra"
    and "get_user_by_username X ub w2 = (Inr (Some row), w2)" and "u_id row = lresp_user_id rb"
    and "next_transfer_id (manager srv) = tid" and "tid \<noteq> 0"
    and "clients c = client_writes (sender_main files ua pa ub path)"
    and "clients d = client_writes (receiver_main files' ub pb tid out)"
  shows "\<exists>n. net_run X base clients srv n \<and>
    sender_main files ua pa ub path \<lparr>incoming = net_written n c, outgoing = []\<rparr> =
      (Inr 0, \<lparr>incoming = [], outgoing = net_read n c\<rparr>) \<and>
    receiver_main files' ub pb tid out \<lparr>incoming = net_written n d, outgoing = []\<rparr> =
      (Inr 0, \<lparr>incoming = [], outgoing = net_read n d\<rparr>) \<and>
    stored_as os base tid (cf_name (files path)) (cf_contents (files path))
      (word_of_nat (length (blocks DEFAULT_CHUNK_SIZE (cf_contents (files path)))))
      (manager (net_server n)) (store (net_server n))"
proof -
  let ?name = "cf_name (files path)" and ?data = "cf_contents (files path)"
  note ws = sender_writes [where files = files and path = path, OF assms(12,14,16), of ua pa ub] assms(26)
  note wr = receiver_writes [OF assms(18,20), of files' ub pb tid out] assms(27)
  have 0: "net_server (net_start srv) = srv" "net_read (net_start srv) e = []" "net_written (net_start srv) e = []" for e
    by (simp_all add: net_start_def)
  have fl0: "all_flowing {c, d} (net_start srv)"
    using assms(3,4) by (simp add: net_start_def flowing_def TcpSession_new_def)
  obtain n1 s1 where n1: "net_run X base clients srv n1"
      "net_read n1 = (net_read (net_start srv))(c := make_login_req ua pa)"
      "net_written n1 = (net_written (net_start srv))(c := login_frame ra)"
    and s1: "sessions (net_server n1) c = Some s1" "logged_in ra [] s1"
      "\<And>e. e \<noteq> c \<Longrightarrow> sessions (net_server n1) e = sessions srv e"
    and r1: "world (net_server n1) = w1" "manager (net_server n1) = manager srv"
      "distinct (map fst (registry (net_server n1)))" "all_flowing {c, d} n1"
    and g1: "get_session (sessions (net_server n1)) (registry (net_server n1)) (lresp_token ra) = Some c"
    by (rule net_login [OF net_run.start [of X base clients], of srv c ua pa ra w1, where C = "{c, d}"])
      (use assms(3,5-7,13-15) ws fl0 0 in simp_all)
  obtain n2 s2 where n2: "net_run X base clients srv n2"
      "net_read n2 = (net_read n1)(d := make_login_req ub pb)" "net_written n2 = (net_written n1)(d := login_frame rb)"
    and s2: "sessions (net_server n2) d = Some s2" "logged_in rb [] s2"
      "\<And>e. e \<noteq> d \<Longrightarrow> sessions (net_server n2) e = sessions (net_server n1) e"
    and r2: "world (net_server n2) = w2" "manager (net_server n2) = manager (net_server n1)" "all_flowing {c, d} n2"
    and g2: "\<And>t e. t \<noteq> lresp_token rb \<Longrightarrow> get_session (sessions (net_server n1)) (registry (net_server n1)) t = Some e \<Longrightarrow>
           get_session (sessions (net_server n2)) (registry (net_server n2)) t = Some e"
    by (rule net_login [OF n1(1), of d ub pb rb w2, where C = "{c, d}"])
      (use assms(2,4,8,9,17-19) wr r1 n1 s1(3) 0 in simp_all)
  obtain n3 where n3: "net_run X base clients srv n3"
      "net_read n3 = (net_read n2)(c := net_read n2 c @ offer_of ub (files path))"
      "net_written n3 = (net_written n2)(c := net_written n2 c @ offer_frame tid)"
    and c3: "connected c (lresp_user_id ra) [] ReadHeader (net_server n3)"
    and o3: "offered base tid ?name (lresp_user_id ra) (u_id row) (lresp_token ra) (manager (net_server n3))"
    and s3: "\<And>e. e \<noteq> c \<Longrightarrow> sessions (net_server n3) e = sessions (net_server n2) e"
      "\<And>t. get_session (sessions (net_server n3)) (registry (net_server n3)) t =
           get_session (sessions (net_server n2)) (registry (net_server n2)) t"
    and fl3: "all_flowing {c, d} n3"
    by (rule net_offer [OF n2(1) _ s1(2) assms(15,8,10), where c = c and row = row and tid = tid and C = "{c, d}"])
      (use assms(2,22,24,25) s1(1) s2(3) r1(2) r2 n1 n2 0 ws in simp_all)
  have d3: "connected d (lresp_user_id rb) [] ReadHeader (net_server n3)"
    using s2(1,2) s3(1) assms(2,19) by (auto simp: connected_def logged_in_def is_authenticated_def)
  obtain n4 h f where n4: "net_run X base clients srv n4"
      "net_read n4 = (net_read n3)(d := net_read n3 d @ make_file_accept_req tid True)"
      "net_written n4 = (net_written n3)(c := net_written n3 c @ accept_frame, d := net_written n3 d @ accept_frame)"
    and r4: "receiving os base tid ?name (lresp_user_id ra) h f [] 0 (manager (net_server n4)) (store (net_server n4))"
      "connected c (lresp_user_id ra) [] ReadHeader (net_server n4)" "all_flowing {c, d} n4"
    by (rule net_accept [OF n3(1) assms(1,2), where tid = tid and name = ?name and uid = "lresp_user_id ra" and
        rid = "lresp_user_id rb" and token = "lresp_token ra" and C = "{c, d}"])
      (use assms(2,15,21,23) o3 g1 g2 s3(2) c3 d3 fl3 n1 n2 n3 0 wr in simp_all)
  obtain n5 where n5: "net_run X base clients srv n5"
      "net_read n5 = (net_read n4)(c := net_read n4 c @ upload_stream tid ?data)"
      "net_written n5 = (net_written n4)(c := net_written n4 c @ result_frame base tid ?name)"
    and st: "stored_as os base tid ?name ?data (word_of_nat (length (blocks DEFAULT_CHUNK_SIZE ?data)))
           (manager (net_server n5)) (store (net_server n5))"
    by (rule net_upload [OF n4(1) assms(1) r4, where data = ?data]) (use assms(2) n1 n2 n3 n4 0 ws in simp_all)
  have "sender_main files ua pa ub path \<lparr>incoming = net_written n5 c, outgoing = []\<rparr> =
      (Inr 0, \<lparr>incoming = [], outgoing = net_read n5 c\<rparr>)"
    using transfer_client_sends [of files path base tid ?name ra "\<lparr>incoming = net_written n5 c, outgoing = []\<rparr>" "[]"]
      assms(2,11,12,14,16) n1 n2 n3 n4 n5 0 by (simp add: sender_main_def readable_def offer_of_def)
  moreover have "receiver_main files' ub pb tid out \<lparr>incoming = net_written n5 d, outgoing = []\<rparr> =
      (Inr 0, \<lparr>incoming = [], outgoing = net_read n5 d\<rparr>)"
    using wr(3) assms(2) n1 n2 n3 n4 n5 0 by simp
  ultimately show ?thesis using n5(1) st by auto
qed

definition scenario_files :: "string \<Rightarrow> client_file" where
  "scenario_files path =
     \<lparr>cf_exists = True, cf_size = 3, cf_name = ''a.txt'', cf_opens = True, cf_contents = [1, 2, 3]\<rparr>"

definition scenario_clients :: "nat \<Rightarrow> bytes \<Rightarrow> bytes" where
  "scenario_clients c =
     (if c = 0 then client_writes (sender_main scenario_files ''alice'' ''pa'' ''bob'' ''a.txt'')
      else client_writes (receiver_main scenario_files ''bob'' ''pb'' 1 ''out''))"

theorem clients_and_server_witness:
  "\<exists>n. net_run ref_externals ''d'' scenario_clients scenario_start n \<and>
     fst (sender_main scenario_files ''alice'' ''pa'' ''bob'' ''a.txt'' \<lparr>incoming = net_written n 0, outgoing = []\<rparr>) = Inr 0 \<and>
     fst (receiver_main scenario_files ''bob'' ''pb'' 1 ''out'' \<lparr>incoming = net_written n 1, outgoing = []\<rparr>) = Inr 0 \<and>
     stored_as sample_os ''d'' 1 ''a.txt'' [1, 2, 3] 1 (manager (net_server n)) (store (net_server n))"
proof -
  have len: "length (LoginResp_serialize (scenario_resp 0 1 ''alice'')) < 2 ^ 32"
    "length (LoginResp_serialize (scenario_resp 32 2 ''bob'')) < 2 ^ 32"
    by (simp_all add: LoginResp_serialize_def put_str_def scenario_resp_def scenario_token_def)
  have path: "length (get_file_path ''d'' 1 (cf_name (scenario_files ''a.txt''))) < 65536"
    by (simp add: get_file_path_def dec_string.simps scenario_files_def)
  have one: "length (blocks DEFAULT_CHUNK_SIZE [1, 2, 3]) = 1"
    by (simp add: length_blocks DEFAULT_CHUNK_SIZE_def)
  show ?thesis
    using clients_and_server [OF sample_disk_ok, of 0 1 scenario_start "''alice''" "''pa''" "''bob''" "''pb''"
        scenario_files "''a.txt''" "''d''" 1 ref_externals "scenario_resp 0 1 ''alice''" scenario_world1
        "scenario_resp 32 2 ''bob''" scenario_world2 "scenario_user 2 ''bob'' ''pb''" scenario_clients
        scenario_files "''out''"]
      scenario_connections scenario_login_alice scenario_login_bob scenario_bob scenario_tokens one len path
    by (auto simp: scenario_resp_def scenario_user_def scenario_clients_def scenario_files_def readable_def)
qed

end
