(* ===== verification/FsxOutcome.thy ===== *)
theory FsxOutcome
  imports FsxClosedLoop
begin

text \<open>
  What the transfer client (\<open>client/src/test_file_transfer.cpp\<close>) makes of whatever it reads: which
  answers let it go on, what it has written by then, and its exit status. Nothing is assumed of the
  other side, which need not be the server.
\<close>

section \<open>Answers\<close>

text \<open>The bytes \<open>bs\<close> are a frame of type \<open>t\<close> with payload \<open>p\<close>.\<close>

definition answer :: "u8 \<Rightarrow> bytes \<Rightarrow> bytes \<Rightarrow> bool" where
  "answer t p bs \<longleftrightarrow>
     (\<exists>hs. bs = hs @ p \<and> length hs = 12 \<and>
       (let h = header_of_bytes hs in ntohl (magic_be h) = MAGIC \<and> hdr_version h = VERSION \<and>
          hdr_type h = t \<and> unat (ntohl (len_be h)) = length p))"

text \<open>The input begins with answers that satisfy the given conditions, one after the other.\<close>

fun granted :: "(u8 \<times> (bytes \<Rightarrow> bool)) list \<Rightarrow> bytes \<Rightarrow> bool" where
  "granted [] inp \<longleftrightarrow> True"
| "granted ((t, good) # as) inp \<longleftrightarrow> (\<exists>p bs rest. inp = bs @ rest \<and> answer t p bs \<and> good p \<and> granted as rest)"

definition login_granted :: "bytes \<Rightarrow> bool" where
  "login_granted p \<longleftrightarrow> p \<noteq> [] \<and> p ! 0 \<noteq> 0"

definition offer_granted :: "u64 \<Rightarrow> bytes \<Rightarrow> bool" where
  "offer_granted tid p \<longleftrightarrow> 9 \<le> length p \<and> p ! 0 = 0 \<and> get64 p 1 = Inr tid"

definition accept_granted :: "bytes \<Rightarrow> bool" where
  "accept_granted p \<longleftrightarrow> p \<noteq> [] \<and> p ! 0 = 0"

definition result_granted :: "bytes \<Rightarrow> bool" where
  "result_granted p \<longleftrightarrow> 9 \<le> length p \<and> p ! 8 = 0"

text \<open>What the client reads first is determined by the input.\<close>

lemma answer_unique:
  assumes "bs @ rest = bs' @ rest'" and "answer t p bs" and "answer t' p' bs'"
  shows "t = t' \<and> p = p' \<and> rest = rest'"
proof -
  from assms(2,3) obtain hs hs' where h: "bs = hs @ p" "bs' = hs' @ p'" "length hs = 12" "length hs' = 12"
    and l: "hdr_type (header_of_bytes hs) = t" "unat (ntohl (len_be (header_of_bytes hs))) = length p"
    "hdr_type (header_of_bytes hs') = t'" "unat (ntohl (len_be (header_of_bytes hs'))) = length p'"
    unfolding answer_def Let_def by auto
  with assms(1) have "hs = hs'" "p @ rest = p' @ rest'" by auto
  with l show ?thesis by auto
qed

lemma granted_answer:
  "inp = bs @ rest \<Longrightarrow> answer t p bs \<Longrightarrow> granted ((t, good) # as) inp \<longleftrightarrow> good p \<and> granted as rest"
  by (auto dest: answer_unique)

lemma not_granted: "(\<And>p bs rest. inp = bs @ rest \<Longrightarrow> \<not> answer t p bs) \<Longrightarrow> \<not> granted ((t, good) # as) inp"
  by auto

section \<open>Reading an answer\<close>

lemma sock_read_cases:
  obtains bs rest where "incoming s = bs @ rest" "length bs = n" "sock_read n s = (Inr bs, s\<lparr>incoming := rest\<rparr>)"
  | "length (incoming s) < n" "sock_read n s = (throw ''read: End of file'', s\<lparr>incoming := []\<rparr>)"
proof (cases "n \<le> length (incoming s)")
  case True
  then show ?thesis using that(1) [of "take n (incoming s)" "drop n (incoming s)"] by (simp add: sock_read_def)
next
  case False
  then show ?thesis using that(2) by (simp add: sock_read_def)
qed

text \<open>Reading fails only by an exception, and writes nothing.\<close>

definition fails :: "(socket, 'a) action \<Rightarrow> socket \<Rightarrow> bool" where
  "fails m s \<longleftrightarrow> (\<exists>w s'. m s = (throw w, s') \<and> outgoing s' = outgoing s)"

lemma read_frame_cases:
  obtains p bs rest h s1 where "incoming s = bs @ rest" "answer t p bs" "read_header s = (Inr h, s1)" "hdr_type h = t"
    "read_payload (ntohl (len_be h)) s1 = (Inr p, s\<lparr>incoming := rest\<rparr>)"
  | "fails read_header s" "\<And>p bs rest. incoming s = bs @ rest \<Longrightarrow> \<not> answer t p bs"
  | h s1 where "read_header s = (Inr h, s1)" "outgoing s1 = outgoing s" "hdr_type h \<noteq> t"
    "\<And>p bs rest. incoming s = bs @ rest \<Longrightarrow> \<not> answer t p bs"
  | h s1 where "read_header s = (Inr h, s1)" "outgoing s1 = outgoing s" "hdr_type h = t"
    "fails (read_payload (ntohl (len_be h))) s1" "\<And>p bs rest. incoming s = bs @ rest \<Longrightarrow> \<not> answer t p bs"
proof (cases rule: sock_read_cases [of s 12])
  case 2
  then have "fails read_header s" by (simp add: fails_def read_header_def)
  moreover have "\<not> answer t p bs" if "incoming s = bs @ rest" for p bs rest
    using 2(1) that by (auto simp: answer_def)
  ultimately show ?thesis by (rule that(2))
next
  case (1 hs rest)
  let ?h = "header_of_bytes hs" and ?s = "s\<lparr>incoming := rest\<rparr>"
  have no: "\<not> answer t p bs" if "\<not> (ntohl (magic_be ?h) = MAGIC \<and> hdr_version ?h = VERSION \<and> hdr_type ?h = t \<and>
      unat (ntohl (len_be ?h)) \<le> length rest)" "incoming s = bs @ rest'" for p bs rest'
    using that 1(1,2) by (auto simp: answer_def Let_def append_eq_append_conv2)
  show ?thesis
  proof (cases "ntohl (magic_be ?h) = MAGIC \<and> hdr_version ?h = VERSION")
    case False
    then have "fails read_header s" by (auto simp: fails_def read_header_def 1(3) Let_def)
    with no False show ?thesis by (intro that(2)) blast+
  next
    case True
    then have h: "read_header s = (Inr ?h, ?s)" by (simp add: read_header_def 1(3))
    show ?thesis
    proof (cases "hdr_type ?h = t")
      case False
      with no show ?thesis by (intro that(3) [OF h]) simp_all
    next
      case type: True
      let ?n = "unat (ntohl (len_be ?h))"
      show ?thesis
      proof (cases "?n \<le> length rest")
        case False
        then have "fails (read_payload (ntohl (len_be ?h))) ?s"
          by (auto simp: fails_def read_payload_def sock_read_def word_gt_0 unat_eq_0 [symmetric])
        with no False show ?thesis by (intro that(4) [OF h]) (simp_all add: type)
      next
        case long: True
        have "answer t (take ?n rest) (hs @ take ?n rest)"
          using True type long 1(2) by (auto simp: answer_def Let_def)
        moreover have "read_payload (ntohl (len_be ?h)) ?s = (Inr (take ?n rest), s\<lparr>incoming := drop ?n rest\<rparr>)"
          using long by (auto simp: read_payload_def sock_read_def word_gt_0 unat_eq_0 [symmetric])
        ultimately show ?thesis using type h 1(1) by (intro that(1) [of "hs @ take ?n rest" "drop ?n rest"]) simp_all
      qed
    qed
  qed
qed

lemma expect_frame_cases:
  obtains p bs rest where "incoming s = bs @ rest" "answer t p bs" "expect_frame t name s = (Inr p, s\<lparr>incoming := rest\<rparr>)"
  | "fails (expect_frame t name) s" "\<And>p bs rest. incoming s = bs @ rest \<Longrightarrow> \<not> answer t p bs"
proof (cases rule: read_frame_cases [of s t])
  case (1 p bs rest h s1)
  then show ?thesis by (intro that(1)) (simp_all add: expect_frame_def)
next
  case 2
  then show ?thesis by (intro that(2)) (auto simp: expect_frame_def fails_def)
next
  case (3 h s1)
  then show ?thesis by (intro that(2)) (auto simp: expect_frame_def fails_def)
next
  case (4 h s1)
  then show ?thesis by (intro that(2)) (auto simp: expect_frame_def fails_def)
qed

lemma do_login_cases:
  obtains p bs rest where "incoming s = bs @ rest" "answer 13 p bs" "login_granted p"
    "do_login u pw s = (Inr True, s\<lparr>incoming := rest, outgoing := outgoing s @ make_login_req u pw\<rparr>)"
  | "fst (do_login u pw s) = Inr False \<or> (\<exists>w. fst (do_login u pw s) = throw w)"
    "outgoing (snd (do_login u pw s)) = outgoing s @ make_login_req u pw" "\<And>as. \<not> granted ((13, login_granted) # as) (incoming s)"
proof -
  let ?s = "s\<lparr>outgoing := outgoing s @ make_login_req u pw\<rparr>"
  have w: "sock_write (make_login_req u pw) s = (Inr (), ?s)" by (simp add: sock_write_def)
  show ?thesis
  proof (cases rule: read_frame_cases [of ?s 13])
    case (1 p bs rest h s1)
    then have i: "incoming s = bs @ rest" by simp
    have d: "do_login u pw s = ((if length p < 1 then Inr False else rbind (get8 p 0) (\<lambda>b. Inr (b \<noteq> 0))),
        s\<lparr>incoming := rest, outgoing := outgoing s @ make_login_req u pw\<rparr>)"
      using 1 by (simp add: do_login_def w)
    show ?thesis
    proof (cases "login_granted p")
      case True
      with d show ?thesis by (intro that(1) [OF i 1(2)]) (auto simp: login_granted_def get8_def)
    next
      case False
      then have "\<not> granted ((13, login_granted) # as) (incoming s)" for as by (simp add: granted_answer [OF i 1(2)] del: granted.simps)
      with d False show ?thesis by (intro that(2)) (auto simp: login_granted_def get8_def)
    qed
  next
    case 2
    then show ?thesis by (intro that(2)) (auto simp: do_login_def w fails_def)
  next
    case (3 h s1)
    then show ?thesis by (intro that(2)) (auto simp: do_login_def w fails_def)
  next
    case (4 h s1)
    then show ?thesis by (intro that(2)) (auto simp: do_login_def w fails_def)
  qed
qed

section \<open>The sender\<close>

text \<open>The offer and the upload of a file whose size, when it was asked for, need not be what it holds.\<close>

definition present :: "client_file \<Rightarrow> bool" where
  "present f \<longleftrightarrow> cf_exists f \<and> cf_opens f"

definition offer_for :: "string \<Rightarrow> client_file \<Rightarrow> bytes" where
  "offer_for receiver f =
     make_file_offer_req receiver (cf_name f) (word_of_nat (cf_size f)) (word_of_nat DEFAULT_CHUNK_SIZE)"

definition upload_for :: "u64 \<Rightarrow> client_file \<Rightarrow> bytes" where
  "upload_for tid f =
     (let (frames, chunk_idx, total_sent) = chunk_loop tid (cf_size f) (cf_contents f) 0 0
      in concat frames @ make_file_done tid (total_chunks_of (cf_size f) chunk_idx) (word_of_nat (cf_size f)))"

lemma upload_for_readable:
  "readable f \<Longrightarrow> offer_for receiver f = offer_of receiver f \<and> upload_for tid f = upload_stream tid (cf_contents f)"
  by (simp add: readable_def offer_for_def offer_of_def upload_for_def upload_stream_def)

text \<open>The answers in the order in which the sender reads them, from the one to its login on.\<close>

definition before_upload :: "u64 \<Rightarrow> (u8 \<times> (bytes \<Rightarrow> bool)) list" where
  "before_upload tid = [(31, offer_granted tid), (33, accept_granted)]"

definition after_upload :: "(u8 \<times> (bytes \<Rightarrow> bool)) list" where
  "after_upload = [(36, result_granted)]"

lemma optional_text_total:
  obtains x where "optional_text p n = Inr x"
proof -
  have "\<exists>x. optional_text p n = Inr x"
    by (auto simp: optional_text_def get16_def get_str_def)
  with that show ?thesis by blast
qed

text \<open>The end of \<open>do_send\<close>: the answer to FILE_DONE.\<close>

definition await_result :: "(socket, string) action" where
  "await_result =
     sbind (expect_frame 36 ''FILE_RESULT'') (\<lambda>result.
     if length result < 9 then slift (throw ''FILE_RESULT too short'') else
     sbind (slift (get8 result 8)) (\<lambda>failed.
     sbind (slift (optional_text result 9)) (\<lambda>text.
     if failed = 0 then sreturn text else slift (throw (''FILE_RESULT failed: '' @ text)))))"

lemma await_result_run:
  "(\<exists>x. fst (await_result s) = Inr x) \<and> granted after_upload (incoming s) \<or>
   (\<exists>w. fst (await_result s) = throw w) \<and> \<not> granted after_upload (incoming s)"
  "outgoing (snd (await_result s)) = outgoing s"
proof (atomize (full), cases rule: expect_frame_cases [of s 36 "''FILE_RESULT''"])
  case (1 p bs rest)
  obtain x where x: "optional_text p 9 = Inr x" by (rule optional_text_total)
  have "granted after_upload (incoming s) \<longleftrightarrow> result_granted p"
    by (simp add: after_upload_def granted_answer [OF 1(1,2)] del: granted.simps(2))
  with 1(3) x show "((\<exists>x. fst (await_result s) = Inr x) \<and> granted after_upload (incoming s) \<or>
      (\<exists>w. fst (await_result s) = throw w) \<and> \<not> granted after_upload (incoming s)) \<and>
      outgoing (snd (await_result s)) = outgoing s"
    by (simp add: await_result_def sbind_def result_granted_def get8_def)
next
  case 2
  then have "\<not> granted after_upload (incoming s)" by (auto simp: after_upload_def)
  with 2(1) show "((\<exists>x. fst (await_result s) = Inr x) \<and> granted after_upload (incoming s) \<or>
      (\<exists>w. fst (await_result s) = throw w) \<and> \<not> granted after_upload (incoming s)) \<and>
      outgoing (snd (await_result s)) = outgoing s"
    by (auto simp: await_result_def sbind_def fails_def)
qed

text \<open>The file goes out when the offer is granted and accepted, for the transfer of that offer.\<close>

definition uploads :: "client_file \<Rightarrow> bytes \<Rightarrow> bytes \<Rightarrow> bool" where
  "uploads f inp out \<longleftrightarrow>
     (\<forall>tid. granted (before_upload tid) inp \<longrightarrow> out = upload_for tid f) \<and>
     ((\<nexists>tid. granted (before_upload tid) inp) \<longrightarrow> out = [])"

lemma do_send_unreadable:
  "\<not> present f \<Longrightarrow> \<exists>w. do_send receiver path f s = (throw w, s)"
  by (auto simp: do_send_def present_def)

lemma do_send_run:
  assumes "present f"
  obtains r s' out where "do_send receiver path f s = (r, s')" "outgoing s' = outgoing s @ offer_for receiver f @ out"
    "uploads f (incoming s) out"
    "(\<exists>x. r = Inr x) \<and> (\<exists>tid. granted (before_upload tid @ after_upload) (incoming s)) \<or>
     (\<exists>w. r = throw w) \<and> (\<nexists>tid. granted (before_upload tid @ after_upload) (incoming s))"
proof -
  note main = that
  let ?s = "s\<lparr>outgoing := outgoing s @ offer_for receiver f\<rparr>"
  have w: "sbind (sock_write (offer_for receiver f)) k s = k () ?s" for k :: "unit \<Rightarrow> (socket, string) action"
    by (simp add: sbind_def sock_write_def)
  note send = do_send_def offer_for_def [symmetric] assms [unfolded present_def] w
  have stop: thesis if "\<exists>w s'. do_send receiver path f s = (throw w, s') \<and> outgoing s' = outgoing ?s"
    "\<And>tid as. \<not> granted (before_upload tid @ as) (incoming s)"
  proof -
    from that(1) obtain w s' where "do_send receiver path f s = (throw w, s')" "outgoing s' = outgoing ?s" by blast
    moreover have "\<not> granted (before_upload tid) (incoming s)" for tid using that(2) [of tid "[]"] by simp
    ultimately show thesis using that(2) main [of "throw w" s' "[]"] by (simp add: uploads_def)
  qed
  show thesis
  proof (cases rule: expect_frame_cases [of ?s 31 "''FILE_OFFER_RESP''"])
    case 2
    then show thesis by (intro stop) (auto simp: send fails_def before_upload_def)
  next
    case (1 p bs rest)
    then have i: "incoming s = bs @ rest" by simp
    note g1 = granted_answer [OF i 1(2)]
    show thesis
    proof (cases "9 \<le> length p \<and> p ! 0 = 0")
      case False
      moreover obtain x where "optional_text p 9 = Inr x" by (rule optional_text_total)
      moreover have "\<exists>tid. 9 \<le> length p \<longrightarrow> get64 p 1 = Inr tid" by (simp add: get64_def)
      then obtain tid where "9 \<le> length p \<longrightarrow> get64 p 1 = Inr tid" ..
      ultimately show thesis
        by (intro stop) (auto simp: send 1(3) get8_def before_upload_def g1 offer_granted_def simp del: granted.simps(2))
    next
      case offer: True
      then obtain tid where tid: "get64 p 1 = Inr tid" by (auto simp: get64_def)
      have ne: "p \<noteq> []" using offer by auto
      from offer tid have off: "offer_granted tid' p \<longleftrightarrow> tid' = tid" for tid' by (auto simp: offer_granted_def)
      let ?s1 = "s\<lparr>outgoing := outgoing s @ offer_for receiver f, incoming := rest\<rparr>"
      have here: "granted (before_upload tid' @ as) (incoming s) \<longleftrightarrow> tid' = tid \<and> granted ((33, accept_granted) # as) rest" for tid' as
        by (simp add: before_upload_def g1 off del: granted.simps(2))
      show thesis
      proof (cases rule: expect_frame_cases [of ?s1 33 "''FILE_ACCEPT_RESP''"])
        case 2
        have no: "\<not> granted ((33, accept_granted) # as) rest" for as using 2(2) by auto
        show thesis using 2(1) offer tid
          by (intro stop) (auto simp: send 1(3) get8_def here no fails_def simp del: granted.simps(2))
      next
        case acc: (1 a bs' rest')
        then have i': "rest = bs' @ rest'" by simp
        note g2 = granted_answer [OF i' acc(2)]
        show thesis
        proof (cases "accept_granted a")
          case False
          moreover obtain x where "optional_text a 1 = Inr x" by (rule optional_text_total)
          ultimately show thesis using offer tid acc(3)
            by (intro stop) (auto simp: send 1(3) get8_def here g2 accept_granted_def Suc_le_eq simp del: granted.simps(2))
        next
          case True
          let ?s2 = "s\<lparr>incoming := rest', outgoing := outgoing s @ offer_for receiver f @ upload_for tid f\<rparr>"
          obtain frames k n where loop: "chunk_loop tid (cf_size f) (cf_contents f) 0 0 = (frames, k, n)"
            by (cases "chunk_loop tid (cf_size f) (cf_contents f) 0 0")
          have "do_send receiver path f s = await_result ?s2"
            using offer ne tid acc(3) True loop
            by (simp add: send 1(3) get8_def accept_granted_def Suc_le_eq sbind_def sock_write_def upload_for_def
                await_result_def)
          moreover have "uploads f (incoming s) (upload_for tid f)"
            using here [of _ "[]"] True by (auto simp: uploads_def g2 simp del: granted.simps(2))
          moreover have "(\<exists>tid. granted (before_upload tid @ after_upload) (incoming s)) \<longleftrightarrow> granted after_upload rest'"
            using True by (simp add: here g2 del: granted.simps(2))
          ultimately show thesis
            using await_result_run [of ?s2] main [of "fst (await_result ?s2)" "snd (await_result ?s2)"] by simp
        qed
      qed
    qed
  qed
qed

lemma granted_append_False: "\<not> granted as inp \<Longrightarrow> \<not> granted (as @ bs) inp"
proof (induction as arbitrary: inp)
  case (Cons a as)
  then show ?case by (cases a) auto
qed simp

lemma answer_frame: "length p < 2 ^ 32 \<Longrightarrow> answer (msg_code t) p (frame t p)"
  unfolding answer_def
  by (rule exI [of _ "header_bytes (make_header t (word_of_nat (length p)))"])
    (simp add: frame_def make_header_def Let_def unat_of_nat take_bit_eq_mod)

lemma granted_Nil: "\<not> granted ((t, good) # as) []"
  by (auto simp: answer_def)

section \<open>Properties\<close>

text \<open>
  C9: What the sender does with any input, from whatever server. It ends with exit status 0 or 1,
  never in undefined behaviour or with an exception. It has written its login, and only when that
  was granted and the file is there, its offer; and the file only when the offer was granted and an
  acceptance followed: then all blocks of the file and FILE_DONE, under the id of the granted offer.
  It exits with 0 exactly when a FILE_RESULT of success followed, too.
\<close>

theorem sender_outcome:
  assumes "transfer_args argv = Inr (SendFile u p receiver path host port)" and "connect_error host port = None"
    and "transfer_main connect_error files argv s = (r, s')"
  shows "(r = Inr 0 \<or> r = Inr 1) \<and>
    (r = Inr 0 \<longleftrightarrow> present (files path) \<and> (\<exists>tid. granted ((13, login_granted) # before_upload tid @ after_upload) (incoming s))) \<and>
    (\<exists>out. outgoing s' = outgoing s @ make_login_req u p @ out \<and>
      (if present (files path) \<and> granted [(13, login_granted)] (incoming s)
       then \<exists>sent. out = offer_for receiver (files path) @ sent \<and>
         (\<forall>tid. granted ((13, login_granted) # before_upload tid) (incoming s) \<longrightarrow> sent = upload_for tid (files path)) \<and>
         ((\<nexists>tid. granted ((13, login_granted) # before_upload tid) (incoming s)) \<longrightarrow> sent = [])
       else out = []))"
proof -
  let ?login = "do_login u p"
  let ?after = "\<lambda>ok. if \<not> ok then sreturn 1 else sbind (do_send receiver path (files path)) (\<lambda>_. sreturn 0)"
  have run: "transfer_main connect_error files argv s = scatch (sbind ?login ?after) (\<lambda>_. sreturn 1) s"
    using assms(1,2) by (simp add: transfer_main_def connect_to_def scatch_def sbind_def split: prod.split)
  show ?thesis
  proof (cases rule: do_login_cases [of s u p])
    case 2
    have "\<not> granted ((13, login_granted) # as) (incoming s)" for as using 2(3) .
    moreover have "r = Inr 1 \<and> s' = snd (?login s)"
      using 2(1) assms(3) unfolding run by (cases "?login s") (auto simp: scatch_def sbind_def)
    ultimately show ?thesis using 2(2) by (simp del: granted.simps(2))
  next
    case (1 a bs rest)
    let ?s = "s\<lparr>incoming := rest, outgoing := outgoing s @ make_login_req u p\<rparr>"
    have here: "granted ((13, login_granted) # as) (incoming s) \<longleftrightarrow> granted as rest" for as
      using 1(3) by (simp add: granted_answer [OF 1(1,2)] del: granted.simps(2))
    have run_sent: "(r, s') = scatch (sbind (do_send receiver path (files path)) (\<lambda>_. sreturn 0)) (\<lambda>_. sreturn 1) ?s"
      using assms(3) 1(4) unfolding run by (simp add: scatch_def sbind_def)
    show ?thesis
    proof (cases "present (files path)")
      case False
      then obtain w where "do_send receiver path (files path) ?s = (throw w, ?s)"
        using do_send_unreadable by blast
      with run_sent False show ?thesis by (simp add: scatch_def sbind_def)
    next
      case True
      obtain r1 s1 sent where d: "do_send receiver path (files path) ?s = (r1, s1)"
        "outgoing s1 = outgoing ?s @ offer_for receiver (files path) @ sent" "uploads (files path) rest sent"
        "(\<exists>x. r1 = Inr x) \<and> (\<exists>tid. granted (before_upload tid @ after_upload) rest) \<or>
         (\<exists>w. r1 = throw w) \<and> (\<nexists>tid. granted (before_upload tid @ after_upload) rest)"
        by (rule do_send_run [OF True, of receiver path ?s]) (rule that, simp_all)
      from d(1,4) run_sent have "s' = s1" and
        "r = Inr 0 \<and> (\<exists>tid. granted (before_upload tid @ after_upload) rest) \<or>
         r = Inr 1 \<and> (\<nexists>tid. granted (before_upload tid @ after_upload) rest)"
        by (auto simp: scatch_def sbind_def)
      with d(2,3) True show ?thesis
        unfolding here by (auto simp: uploads_def)
    qed
  qed
qed

theorem sender_outcome_witness:
  "\<exists>s'. transfer_main (\<lambda>_ _. None)
      (\<lambda>_. \<lparr>cf_exists = True, cf_size = 3, cf_name = ''a.txt'', cf_opens = True, cf_contents = [1, 2, 3]\<rparr>)
      [''client'', ''send'', ''alice'', ''pa'', ''bob'', ''a.txt'']
      \<lparr>incoming = login_frame (scenario_resp 0 1 ''alice'') @ offer_frame 7 @ accept_frame, outgoing = []\<rparr> = (Inr 1, s') \<and>
    outgoing s' = make_login_req ''alice'' ''pa'' @ make_file_offer_req ''bob'' ''a.txt'' 3 (word_of_nat DEFAULT_CHUNK_SIZE) @
      upload_stream 7 [1, 2, 3]"
proof -
  let ?f = "\<lparr>cf_exists = True, cf_size = 3, cf_name = ''a.txt'', cf_opens = True, cf_contents = [1, 2, 3]\<rparr>"
  let ?argv = "[''client'', ''send'', ''alice'', ''pa'', ''bob'', ''a.txt'']"
  let ?inp = "login_frame (scenario_resp 0 1 ''alice'') @ offer_frame 7 @ accept_frame"
  let ?s = "\<lparr>incoming = ?inp, outgoing = []\<rparr>"
  let ?l = "LoginResp_serialize (scenario_resp 0 1 ''alice'')" and ?a = "FileAcceptResp_serialize accept_ok"
  let ?o = "FileOfferResp_serialize \<lparr>oresp_ok = True, oresp_transfer_id = 7, oresp_reason = []\<rparr>"
  have ans: "answer 13 ?l (login_frame (scenario_resp 0 1 ''alice''))" "answer 31 ?o (offer_frame 7)" "answer 33 ?a accept_frame"
    using answer_frame [of ?l LOGIN_RESP] answer_frame [of ?o FILE_OFFER_RESP] answer_frame [of ?a FILE_ACCEPT_RESP]
    by (simp_all add: LoginResp_serialize_def FileOfferResp_serialize_def FileAcceptResp_serialize_def put_str_def
        scenario_resp_def scenario_token_def accept_ok_def)
  have good: "login_granted ?l" "\<And>tid. offer_granted tid ?o \<longleftrightarrow> tid = 7" "accept_granted ?a"
    by (auto simp: login_granted_def offer_granted_def accept_granted_def LoginResp_serialize_def
        FileOfferResp_serialize_def FileAcceptResp_serialize_def scenario_resp_def accept_ok_def codec_simps)
  have g: "granted ((13, login_granted) # before_upload tid @ as) ?inp \<longleftrightarrow> tid = 7 \<and> granted as []" for tid as
    using good granted_answer [OF refl ans(1)] granted_answer [OF refl ans(2)] granted_answer [of accept_frame, OF _ ans(3)]
    by (simp add: before_upload_def del: granted.simps(2))
  have g0: "granted [(13, login_granted)] ?inp"
    using good(1) by (simp add: granted_answer [OF refl ans(1)] del: granted.simps(2))
  have args: "transfer_args ?argv = Inr (SendFile ''alice'' ''pa'' ''bob'' ''a.txt'' ''127.0.0.1'' 9000)"
    by (simp add: transfer_args_def port_argument_def argument_def)
  obtain r s' where run: "transfer_main (\<lambda>_ _. None) (\<lambda>_. ?f) ?argv ?s = (r, s')" by force
  have "upload_for 7 ?f = upload_stream 7 [1, 2, 3]"
    using upload_for_readable [of ?f] by (simp add: readable_def)
  then show ?thesis
    using sender_outcome [OF args _ run] g [of _ after_upload] g [of _ "[]"] g0 run
    by (auto simp: present_def offer_for_def after_upload_def granted_Nil simp del: granted.simps(2))
qed

end
