(* ===== verification/FsxRestart.thy ===== *)
theory FsxRestart
  imports FsxLifecycle
begin

text \<open>
  Interruptions: a server that is stopped and started again, and a sender that loses its
  connection. A process that ends takes its sessions, transfers, tokens and streams with it; the
  database and the files stay. It ends between two events, by a signal (\<open>io_context::run\<close> does not
  return while the acceptor listens); a handler that was cut short is not modelled. What was still
  in the buffer of a stream, because \<open>write_chunk\<close> could not flush it, is lost.
\<close>

section \<open>Restarts\<close>

text \<open>\<open>main\<close> again, over the files that are there.\<close>

definition server_restart :: "'w server \<Rightarrow> 'w server" where
  "server_restart srv = (server_init (world srv))\<lparr>store := (store srv)\<lparr>streams := (\<lambda>_. None), buffer := (\<lambda>_. [])\<rparr>\<rparr>"

lemma server_restart_fields [simp]:
  "world (server_restart srv) = world srv" "manager (server_restart srv) = TransferManager_init"
  "registry (server_restart srv) = []" "sessions (server_restart srv) = (\<lambda>_. None)"
  "next_conn (server_restart srv) = 0"
  "names (store (server_restart srv)) = names (store srv)"
  "contents (store (server_restart srv)) = contents (store srv)"
  by (simp_all add: server_restart_def server_init_def)

text \<open>The states of a server that may be restarted at any time.\<close>

inductive lifetime :: "'w externals \<Rightarrow> string \<Rightarrow> 'w \<Rightarrow> 'w server \<Rightarrow> bool"
  for X :: "'w externals" and base :: string and w0 :: 'w where
  start: "lifetime X base w0 (server_init w0)"
| step: "lifetime X base w0 srv \<Longrightarrow> server_step X base srv ev srv' \<Longrightarrow> lifetime X base w0 srv'"
| restart: "lifetime X base w0 srv \<Longrightarrow> lifetime X base w0 (server_restart srv)"

locale lifetime_invariant = server_invariant X base w0 inv
  for X :: "'w externals" and base :: string and w0 :: 'w and inv :: "'w server \<Rightarrow> bool" +
  assumes inv_restart: "inv srv \<Longrightarrow> inv (server_restart srv)"
begin

lemma inv_lifetime: "lifetime X base w0 srv \<Longrightarrow> inv srv"
  by (induction rule: lifetime.induct) (auto intro: inv_init inv_step inv_restart)

end

interpretation transfers_life: lifetime_invariant X base w0 "transfers_ok base" for X base w0
proof unfold_locales
  fix srv :: "'a server"
  assume "transfers_ok base srv"
  then have "stdio_wf (store (server_restart srv))"
    by (auto simp: transfers_ok_def stdio_wf_def server_restart_def)
  moreover have "transfers_ok base (server_init (world srv))" by (rule transfers.inv_init)
  ultimately show "transfers_ok base (server_restart srv)"
    by (simp add: transfers_ok_def server_init_def handles_ok_def TransferManager_init_def get_transfer_def)
qed

interpretation queues_life: lifetime_invariant X base w0 queues_ok for X base w0
  by unfold_locales (simp add: queues_ok_def)

interpretation registry_life: lifetime_invariant X base w0 registry_ok for X base w0
  by unfold_locales (simp add: registry_ok_def conns_ok_def)

lemma reachable_lifetime: "reachable X base w0 srv \<Longrightarrow> lifetime X base w0 srv"
  by (induction rule: reachable.induct) (auto intro: lifetime.intros)

section \<open>A connection that breaks\<close>

lemma connection_lost:
  assumes "sessions srv c = Some s" and "distinct (map fst (registry srv))"
  obtains srv' where "run_event X os base (HeaderDone c True bs) srv = (Inr (), srv')"
    and "world srv' = world srv" and "manager srv' = manager srv" and "store srv' = store srv"
    and "\<And>d. d \<noteq> c \<Longrightarrow> sessions srv' d = sessions srv d" and "distinct (map fst (registry srv'))"
proof -
  let ?srv1 = "modify_session c (\<lambda>s. s\<lparr>pending_read := NoRead,
      sess_header := header_of_bytes (transferred bs (header_bytes (sess_header s)))\<rparr>) srv"
  let ?srv' = "release c (online_remove c ?srv1)"
  have "run_event X os base (HeaderDone c True bs) srv = (Inr (), ?srv')"
  proof -
    have "sessions ?srv1 c \<noteq> None" using assms(1) by simp
    then have "on_header X os base c True bs srv = (Inr (), online_remove c ?srv1)"
      by (auto simp: on_header_def Let_def simp del: sessions_modify split: option.split)
    then show ?thesis by (simp add: sbind_def)
  qed
  then show thesis
  proof (rule that)
    show "distinct (map fst (registry ?srv'))"
      using assms(2) by (simp add: online_remove_def release_def case_prod_unfold Let_def remove_session_def
          distinct_delete distinct_unexpired split: option.split)
  qed (use assms(1) in \<open>auto simp: online_remove_def release_def case_prod_unfold Let_def split: option.split\<close>)
qed

section \<open>Properties\<close>

text \<open>
  C4: In every state of a server, which may have been stopped and started again any number of
  times, a transfer that takes chunks has its own open stream of the running process, which no
  other transfer has; and unless its id is 0 (which takes \<open>2^64\<close> transfers), its paths are those
  of its own id.
\<close>

theorem streams_open_after_restarts:
  assumes "lifetime X base w0 srv" and "get_transfer (manager srv) tid = Some t"
    and "tstate t = ACCEPTED \<or> tstate t = RECEIVING"
  shows "\<exists>h. file_handle t = Some h \<and> is_open (store srv) h \<and>
    (\<forall>tid' t'. get_transfer (manager srv) tid' = Some t' \<longrightarrow> file_handle t' = Some h \<longrightarrow> tid' = tid) \<and>
    (tid \<noteq> 0 \<longrightarrow> temp_file_path t = get_temp_path base tid (filename t) \<and>
       final_file_path t = get_file_path base tid (filename t))"
proof -
  have ok: "transfers_ok base srv" by (rule transfers_life.inv_lifetime [OF assms(1)])
  have "\<exists>h. file_handle t = Some h \<and> is_open (store srv) h \<and>
      (\<forall>tid' t'. get_transfer (manager srv) tid' = Some t' \<longrightarrow> file_handle t' = Some h \<longrightarrow> tid' = tid)"
    using ok assms(2,3) unfolding transfers_ok_def handles_ok_def live_state_def by metis
  moreover have "tid \<noteq> 0 \<longrightarrow> temp_file_path t = get_temp_path base tid (filename t) \<and>
      final_file_path t = get_file_path base tid (filename t)"
    using ok assms(2) unfolding transfers_ok_def paths_ok_def by blast
  ultimately show ?thesis by blast
qed

text \<open>
  C5: An upload can be resumed. The connection of the sender breaks when a part \<open>got\<close> of the file
  has arrived; the same user logs in on another connection, and sends the rest from the next chunk
  index and FILE_DONE. The file is stored as if nothing had happened.
\<close>

theorem upload_resumes:
  assumes "disk_ok os" and "receiving os base tid name uid h f got n (manager srv) (store srv)"
    and "connected c uid q ReadHeader srv" and "distinct (map fst (registry srv))"
    and "c \<noteq> d" and "sessions srv d = Some s" and "pending_read s = ReadHeader"
    and "length u < 65536" and "length p < 65536"
    and "handle_login X \<lparr>lreq_username = u, lreq_password = p\<rparr> (world srv) = (Inr r, w)"
    and "lresp_ok r" and "lresp_token r \<noteq> []" and "lresp_user_id r = uid"
  shows "\<exists>srv1 srv2 srv3. run_event X os base (HeaderDone c True []) srv = (Inr (), srv1) \<and>
    deliver X os base d (make_login_req u p) srv1 = (Inr (), srv2) \<and>
    deliver X os base d (concat (chunk_frames tid n (blocks DEFAULT_CHUNK_SIZE rest)) @ make_file_done tid k z) srv2 =
      (Inr (), srv3) \<and>
    stored_as os base tid name (got @ rest) (n + word_of_nat (length (blocks DEFAULT_CHUNK_SIZE rest)))
      (manager srv3) (store srv3)"
proof -
  have pos: "0 < DEFAULT_CHUNK_SIZE" by (simp add: DEFAULT_CHUNK_SIZE_def)
  obtain sc where "sessions srv c = Some sc" using assms(3) by (auto simp: connected_def)
  then obtain srv1 where e: "run_event X os base (HeaderDone c True []) srv = (Inr (), srv1)"
    and 1: "world srv1 = world srv" "manager srv1 = manager srv" "store srv1 = store srv"
      "\<And>d. d \<noteq> c \<Longrightarrow> sessions srv1 d = sessions srv d" "distinct (map fst (registry srv1))"
    by (rule connection_lost [OF _ assms(4)]) (rule that)
  have s1: "sessions srv1 d = Some s" using 1(4) assms(5,6) by simp
  have l1: "handle_login X \<lparr>lreq_username = u, lreq_password = p\<rparr> (world srv1) = (Inr r, w)" using assms(10) 1(1) by simp
  obtain srv2 s2 where d2: "deliver X os base d (make_login_req u p) srv1 = (Inr (), srv2)"
    and s2: "sessions srv2 d = Some s2" "logged_in r (outq s @ [frame LOGIN_RESP (LoginResp_serialize r)]) s2"
    and 2: "manager srv2 = manager srv1" "store srv2 = store srv1"
    by (rule deliver_login [where os = os and base = base, OF s1 assms(7-9) l1 assms(11,12) 1(5)]) (rule that)
  have rv: "receiving os base tid name uid h f got n (manager srv2) (store srv2)" using assms(2) 1 2 by simp
  have cd: "connected d uid (outq s @ [frame LOGIN_RESP (LoginResp_serialize r)]) ReadHeader srv2"
    using s2 assms(12,13) by (auto simp: connected_def logged_in_def is_authenticated_def)
  have "\<forall>b \<in> set (blocks DEFAULT_CHUNK_SIZE rest). b \<noteq> [] \<and> length b \<le> 16777204"
    using blocks_sizes [where n = DEFAULT_CHUNK_SIZE and xs = rest, OF pos] by (auto simp: DEFAULT_CHUNK_SIZE_def)
  then obtain srv3 where d3: "deliver X os base d (concat (chunk_frames tid n (blocks DEFAULT_CHUNK_SIZE rest)) @
        make_file_done tid k z) srv2 = deliver X os base d (make_file_done tid k z) srv3"
    and r3: "receiving os base tid name uid h f (got @ rest) (n + word_of_nat (length (blocks DEFAULT_CHUNK_SIZE rest)))
        (manager srv3) (store srv3)"
    and c3: "connected d uid (outq s @ [frame LOGIN_RESP (LoginResp_serialize r)]) ReadHeader srv3"
    by (rule deliver_chunks [OF assms(1) rv cd, of "blocks DEFAULT_CHUNK_SIZE rest" X "make_file_done tid k z"])
      (simp add: concat_blocks [OF pos])
  show ?thesis using deliver_done [OF assms(1) r3 c3, of X k z] d3 e d2 by metis
qed

text \<open>The run of the protocol that \<open>file_transfer_end_to_end\<close> is about.\<close>

definition transfer_run ::
  "'w externals \<Rightarrow> os_answers \<Rightarrow> string \<Rightarrow> nat \<Rightarrow> nat \<Rightarrow> string \<times> string \<Rightarrow> string \<times> string \<Rightarrow> u64 \<Rightarrow> string \<Rightarrow> bytes \<Rightarrow>
    'w server \<Rightarrow> 'w server \<Rightarrow> bool" where
  "transfer_run X os base c d a b tid name data srv srv' \<longleftrightarrow> (\<exists>srv1 srv2 srv3 srv4.
    deliver X os base c (make_login_req (fst a) (snd a)) srv = (Inr (), srv1) \<and>
    deliver X os base d (make_login_req (fst b) (snd b)) srv1 = (Inr (), srv2) \<and>
    deliver X os base c (make_file_offer_req (fst b) name (word_of_nat (length data))
      (word_of_nat DEFAULT_CHUNK_SIZE)) srv2 = (Inr (), srv3) \<and>
    deliver X os base d (make_file_accept_req tid True) srv3 = (Inr (), srv4) \<and>
    deliver X os base c (upload_stream tid data) srv4 = (Inr (), srv'))"

text \<open>
  C39: After a restart the ids begin at 1 again, and with them the paths. A file that the first
  transfer of an earlier run stored under some name survives the restart, and is replaced when the
  first transfer of the new run, whoever makes it, has a file of that name.
\<close>

theorem restart_overwrites_files:
  assumes "disk_ok os" and "names (store srv0) (resolve os (c_str (get_file_path base 1 name))) = Some f"
    and "contents (store srv0) f = old" and "length name < 65536"
    and "length ua < 65536" and "length pa < 65536" and "length ub < 65536" and "length pb < 65536"
    and "handle_login X \<lparr>lreq_username = ua, lreq_password = pa\<rparr> (world srv0) = (Inr ra, w1)"
    and "lresp_ok ra" and "lresp_token ra \<noteq> []"
    and "handle_login X \<lparr>lreq_username = ub, lreq_password = pb\<rparr> w1 = (Inr rb, w2)"
    and "lresp_ok rb" and "lresp_token rb \<noteq> []" and "lresp_token rb \<noteq> lresp_token ra"
    and "get_user_by_username X ub w2 = (Inr (Some row), w2)" and "u_id row = lresp_user_id rb"
  shows "names (store (server_restart srv0)) (resolve os (c_str (get_file_path base 1 name))) = Some f \<and>
    contents (store (server_restart srv0)) f = old \<and>
    (\<exists>srv' f'. transfer_run X os base 0 1 (ua, pa) (ub, pb) 1 name data
        (on_accept False (on_accept False (server_restart srv0))) srv' \<and>
      names (store srv') (resolve os (c_str (get_file_path base 1 name))) = Some f' \<and> contents (store srv') f' = data)"
proof -
  let ?srv = "on_accept False (on_accept False (server_restart srv0))"
  have s: "sessions ?srv 0 = Some (TcpSession_new\<lparr>pending_read := ReadHeader\<rparr>)"
    "sessions ?srv 1 = Some (TcpSession_new\<lparr>pending_read := ReadHeader\<rparr>)"
    "distinct (map fst (registry ?srv))" "world ?srv = world srv0" "next_transfer_id (manager ?srv) = 1"
    by (simp_all add: on_accept_def TcpSession_start_def do_read_header_def TransferManager_init_def Let_def)
  have r: "pending_read (TcpSession_new\<lparr>pending_read := ReadHeader\<rparr>) = ReadHeader" and neq: "(0 :: nat) \<noteq> 1"
    and la: "handle_login X \<lparr>lreq_username = ua, lreq_password = pa\<rparr> (world ?srv) = (Inr ra, w1)"
    using s(4) assms(9) by simp_all
  from file_transfer_end_to_end [OF assms(1) neq s(1) r s(2) r s(3) assms(5-8,4) la assms(10-17) s(5) one_neq_zero,
      of base data]
  have "\<exists>srv'. transfer_run X os base 0 1 (ua, pa) (ub, pb) 1 name data ?srv srv' \<and>
      stored_as os base 1 name data (word_of_nat (length (blocks DEFAULT_CHUNK_SIZE data))) (manager srv') (store srv')"
    unfolding transfer_run_def fst_conv snd_conv by blast
  then show ?thesis using assms(2,3) by (auto simp: stored_as_def)
qed

section \<open>Witnesses\<close>

theorem streams_open_after_restarts_witness:
  "\<exists>srv t h. lifetime ref_externals ''d'' scenario_world (srv :: pg_world server) \<and>
     get_transfer (manager srv) 1 = Some t \<and> file_handle t = Some h \<and> is_open (store srv) h"
proof -
  obtain srv h f q where r: "reachable ref_externals ''d'' scenario_world srv"
    and rec: "receiving sample_os ''d'' 1 ''a.txt'' 1 h f [] 0 (manager srv) (store srv)"
    by (rule scenario_until_accepted)
  from rec obtain t where t: "get_transfer (manager srv) 1 = Some t" "live_state (tstate t)"
    by (auto simp: receiving_def)
  with streams_open_after_restarts [OF reachable_lifetime [OF r] t(1)] reachable_lifetime [OF r] show ?thesis
    unfolding live_state_def by blast
qed

text \<open>Alice has sent two bytes on connection 0; connection 1 was just accepted.\<close>

definition interrupted_server :: "pg_world server" where
  "interrupted_server = guarded_server\<lparr>world := scenario_world,
     manager := \<lparr>next_transfer_id = 8,
       transfers = [(7, guarded_transfer\<lparr>expected_chunk_index := 1, bytes_received := 2\<rparr>)]\<rparr>,
     store := \<lparr>names = [get_temp_path ''d'' 7 ''a.txt'' \<mapsto> 0], contents = (\<lambda>_. [1, 2]), next_file = 1,
       streams = [0 \<mapsto> (0, 2)], next_stream = 1, buffer = (\<lambda>_. [])\<rparr>,
     registry := [(''t'', 0)],
     sessions := [0 \<mapsto> (set_auth ''t'' 1 ''alice'' TcpSession_new)\<lparr>pending_read := ReadHeader\<rparr>,
       1 \<mapsto> TcpSession_new\<lparr>pending_read := ReadHeader\<rparr>]\<rparr>"

theorem upload_resumes_witness:
  "\<exists>srv1 srv2 srv3. run_event ref_externals sample_os ''d'' (HeaderDone 0 True []) interrupted_server = (Inr (), srv1) \<and>
     deliver ref_externals sample_os ''d'' 1 (make_login_req ''alice'' ''pa'') srv1 = (Inr (), srv2) \<and>
     deliver ref_externals sample_os ''d'' 1 (concat (chunk_frames 7 1 (blocks DEFAULT_CHUNK_SIZE [3])) @
       make_file_done 7 2 3) srv2 = (Inr (), srv3) \<and>
     stored_as sample_os ''d'' 7 ''a.txt'' [1, 2, 3] 2 (manager srv3) (store srv3)"
proof -
  have rec: "receiving sample_os ''d'' 7 ''a.txt'' 1 0 0 [1, 2] 1 (manager interrupted_server) (store interrupted_server)"
    using crossed_paths(2) by (simp add: receiving_def interrupted_server_def get_transfer_def guarded_transfer_def
        sample_transfer_def live_state_def sample_os_def)
  have con: "connected 0 1 [] ReadHeader interrupted_server"
    by (simp add: connected_def interrupted_server_def set_auth_def is_authenticated_def TcpSession_new_def)
  have s: "sessions interrupted_server 1 = Some (TcpSession_new\<lparr>pending_read := ReadHeader\<rparr>)"
    "world interrupted_server = scenario_world" "distinct (map fst (registry interrupted_server))"
    by (simp_all add: interrupted_server_def)
  have one: "length (blocks DEFAULT_CHUNK_SIZE [3]) = 1" by (simp add: length_blocks DEFAULT_CHUNK_SIZE_def)
  have la: "handle_login ref_externals \<lparr>lreq_username = ''alice'', lreq_password = ''pa''\<rparr> (world interrupted_server) =
      (Inr (scenario_resp 0 1 ''alice''), scenario_world1)"
    using scenario_login_alice s(2) scenario_connections(4) by simp
  show ?thesis
    using upload_resumes [OF sample_disk_ok rec con s(3) _ s(1) _ _ _ la, of "[3]" 2 3] one scenario_tokens(1)
    by (simp add: scenario_resp_def)
qed

text \<open>A file of an earlier run, and a run of two users after it.\<close>

definition earlier_server :: "pg_world server" where
  "earlier_server = scenario_start\<lparr>store := \<lparr>names = [get_file_path ''d'' 1 ''a.txt'' \<mapsto> 0],
     contents = (\<lambda>_. [9, 9]), next_file = 1, streams = (\<lambda>_. None), next_stream = 1, buffer = (\<lambda>_. [])\<rparr>\<rparr>"

theorem restart_overwrites_files_witness:
  "contents (store (server_restart earlier_server)) 0 = [9, 9] \<and>
   (\<exists>srv' f'. transfer_run ref_externals sample_os ''d'' 0 1 (''alice'', ''pa'') (''bob'', ''pb'') 1 ''a.txt'' [1]
       (on_accept False (on_accept False (server_restart earlier_server))) srv' \<and>
     names (store srv') (c_str (get_file_path ''d'' 1 ''a.txt'')) = Some f' \<and> contents (store srv') f' = [1])"
proof -
  have p: "c_str (get_file_path ''d'' 1 ''a.txt'') = get_file_path ''d'' 1 ''a.txt''"
    by (intro c_str_file_path) (simp_all add: plain_name_def)
  have e: "names (store earlier_server) (resolve sample_os (c_str (get_file_path ''d'' 1 ''a.txt''))) = Some 0"
    "contents (store earlier_server) 0 = [9, 9]" "world earlier_server = world scenario_start"
    using p by (simp_all add: earlier_server_def sample_os_def)
  show ?thesis
    using restart_overwrites_files [OF sample_disk_ok e(1,2), of "''alice''" "''pa''" "''bob''" "''pb''" ref_externals
        "scenario_resp 0 1 ''alice''" scenario_world1 "scenario_resp 32 2 ''bob''" scenario_world2
        "scenario_user 2 ''bob'' ''pb''" "[1]"]
      scenario_connections(4) scenario_login_alice scenario_login_bob scenario_bob scenario_tokens e(3)
    by (auto simp: scenario_resp_def scenario_user_def sample_os_def)
qed

end
