(* ===== verification/FsxRelogin.thy ===== *)
theory FsxRelogin
  imports FsxScenario
begin

text \<open>
  What becomes of the offers of a session that logs in again as another user: the registry still
  leads from the old token to the session (\<open>SessionManager\<close>), the transfers still belong to the old
  user (\<open>handle_file_accept_req\<close>, \<open>handle_file_chunk\<close>, \<open>handle_file_done\<close>).
\<close>

section \<open>Messages that are ignored\<close>

text \<open>Nothing but the buffers of session \<open>c\<close> of user \<open>uid\<close> has changed.\<close>

definition ignored :: "nat \<Rightarrow> int \<Rightarrow> bytes list \<Rightarrow> 'w server \<Rightarrow> 'w server \<Rightarrow> bool" where
  "ignored c uid q srv srv' \<longleftrightarrow>
     connected c uid q ReadHeader srv' \<and> (\<forall>d. d \<noteq> c \<longrightarrow> sessions srv' d = sessions srv d) \<and>
     world srv' = world srv \<and> manager srv' = manager srv \<and> store srv' = store srv \<and> registry srv' = registry srv"

lemma ignored_trans: "ignored c uid q srv srv1 \<Longrightarrow> ignored c uid q srv1 srv2 \<Longrightarrow> ignored c uid q srv srv2"
  by (simp add: ignored_def)

text \<open>
  Messages of a user who is not the sender of \<open>tid\<close> are dropped, and so are chunks of a transfer that
  is neither accepted nor receiving.
\<close>

lemma dropped_message:
  assumes "get_transfer (manager srv) tid = Some t"
    and "sender_user_id t \<noteq> uid \<or> ty = FILE_CHUNK \<and> \<not> live_state (tstate t)"
    and "connected c uid q ReadHeader srv"
    and "ty = FILE_CHUNK \<and> p = file_chunk_payload tid n b \<or> ty = FILE_DONE \<and> p = file_done_payload tid k z"
  shows "\<exists>srv'. message_body X os base c ty p srv = (Inr (), srv') \<and> ignored c uid q srv srv'"
proof -
  obtain s where s: "sessions srv c = Some s" "is_authenticated s" "sess_user_id s = uid" "outq s = q"
    using assms(3) by (auto simp: connected_def)
  let ?srv1 = "modify_session c (stored_frame ty p) srv"
  have des: "FileChunk_deserialize (file_chunk_payload tid n b) =
      Inr \<lparr>chunk_transfer_id = tid, chunk_index = n, chunk_data = b\<rparr>"
    "FileDone_deserialize (file_done_payload tid k z) =
      Inr \<lparr>done_transfer_id = tid, done_total_chunks = k, done_file_size = z\<rparr>"
    using FileChunk_roundtrip FileDone_roundtrip by (simp_all add: client_file_payloads)
  have "handle_message X os base c (stored_frame ty p s) ty p ?srv1 = (Inr (), ?srv1)"
    using assms(1,2,4) s(2,3) des
    by (intro wp_run) (auto simp: handle_message_def handle_file_chunk_def handle_file_done_def wp_simps
        stored_frame_def is_authenticated_def live_state_def)
  then have "message_body X os base c ty p srv = (Inr (), do_read_header c ?srv1)"
    using s(1) by (simp add: message_body_def sbind_def)
  moreover have "ignored c uid q srv (do_read_header c ?srv1)"
    using s by (auto simp: ignored_def connected_def do_read_header_def stored_frame_def is_authenticated_def)
  ultimately show ?thesis by blast
qed

lemma dropped_chunks:
  assumes "get_transfer (manager srv) tid = Some t" and "sender_user_id t \<noteq> uid \<or> \<not> live_state (tstate t)"
    and "connected c uid q ReadHeader srv" and "\<forall>b \<in> set bs. length b \<le> 16777204"
  shows "\<exists>srv'. deliver X os base c (concat (chunk_frames tid n bs) @ rest) srv = deliver X os base c rest srv' \<and>
    ignored c uid q srv srv'"
  using assms
proof (induction bs arbitrary: n srv)
  case Nil
  then show ?case by (auto simp: ignored_def)
next
  case (Cons b bs)
  obtain srv1 where m: "message_body X os base c FILE_CHUNK (file_chunk_payload tid n b) srv = (Inr (), srv1)"
    and i: "ignored c uid q srv srv1"
    using dropped_message [OF Cons.prems(1) _ Cons.prems(3), of FILE_CHUNK "file_chunk_payload tid n b" n b] Cons.prems(2)
    by blast
  obtain s where s: "sessions srv c = Some s" "pending_read s = ReadHeader"
    using Cons.prems(3) by (auto simp: connected_def)
  have "length (file_chunk_payload tid n b) \<le> 16777216"
    using Cons.prems(4) by (simp add: file_chunk_payload_def)
  from deliver_frame [OF s this, of FILE_CHUNK X os base "concat (chunk_frames tid (n + 1) bs) @ rest"] m
  have "deliver X os base c (concat (chunk_frames tid n (b # bs)) @ rest) srv =
          deliver X os base c (concat (chunk_frames tid (n + 1) bs) @ rest) srv1"
    using make_frame_eq [of FILE_CHUNK] by (simp add: make_file_chunk_def)
  moreover obtain srv' where "deliver X os base c (concat (chunk_frames tid (n + 1) bs) @ rest) srv1 =
      deliver X os base c rest srv'" "ignored c uid q srv1 srv'"
    using Cons.IH [of srv1 "n + 1"] Cons.prems(1,2,4) i by (auto simp: ignored_def)
  ultimately show ?case using ignored_trans [OF i] by metis
qed

lemma foreign_upload:
  assumes "get_transfer (manager srv) tid = Some t" and "sender_user_id t \<noteq> uid"
    and "connected c uid q ReadHeader srv"
  shows "\<exists>srv'. deliver X os base c (upload_stream tid data) srv = (Inr (), srv') \<and> ignored c uid q srv srv'"
proof -
  let ?bs = "blocks DEFAULT_CHUNK_SIZE data"
  let ?k = "total_chunks_of (length data) (word_of_nat (length ?bs))" and ?z = "word_of_nat (length data) :: u64"
  have "\<forall>b \<in> set ?bs. length b \<le> 16777204"
    using blocks_sizes [where n = DEFAULT_CHUNK_SIZE and xs = data] by (auto simp: DEFAULT_CHUNK_SIZE_def)
  then obtain srv1 where d: "deliver X os base c (upload_stream tid data) srv =
      deliver X os base c (make_file_done tid ?k ?z) srv1" and i: "ignored c uid q srv srv1"
    unfolding upload_stream_blocks using dropped_chunks [OF assms(1) disjI1 [OF assms(2)] assms(3)] by blast
  obtain srv2 where m: "message_body X os base c FILE_DONE (file_done_payload tid ?k ?z) srv1 = (Inr (), srv2)"
    and i2: "ignored c uid q srv1 srv2"
  proof -
    have "get_transfer (manager srv1) tid = Some t" "connected c uid q ReadHeader srv1"
      using assms(1) i by (simp_all add: ignored_def)
    from dropped_message [OF this(1) disjI1 [OF assms(2)] this(2), of FILE_DONE "file_done_payload tid ?k ?z" _ _ ?k ?z X os base]
    show thesis using that by blast
  qed
  obtain s1 where s1: "sessions srv1 c = Some s1" "pending_read s1 = ReadHeader"
    using i by (auto simp: ignored_def connected_def)
  have "length (file_done_payload tid ?k ?z) \<le> 16777216" by (simp add: file_done_payload_def)
  from deliver_frame [OF s1 this, of FILE_DONE X os base "[]"] m
  have "deliver X os base c (make_file_done tid ?k ?z) srv1 = deliver X os base c [] srv2"
    using make_frame_eq [of FILE_DONE] by (simp add: make_file_done_def)
  also have "\<dots> = (Inr (), srv2)"
    using i2 by (auto simp: ignored_def connected_def intro: deliver_nothing)
  finally show ?thesis using d ignored_trans [OF i i2] by metis
qed

section \<open>Properties\<close>

text \<open>
  C33: A login as another user strands the offers of the session. The user of connection \<open>c\<close> has
  offered a file and logs in on \<open>c\<close> as somebody else; then the receiver accepts. The acceptance
  still reaches \<open>c\<close>, by the entry of the old token, and is put before its new user; but whatever
  that connection uploads for the transfer is ignored, without an answer: the transfer stays
  accepted, and its file open and empty.
\<close>

theorem relogin_strands_transfer:
  assumes "disk_ok os" and "c \<noteq> d" and "sessions srv c = Some s" and "pending_read s = ReadHeader"
    and "sess_token s \<noteq> []" and "get_session (sessions srv) (registry srv) (sess_token s) = Some c"
    and "distinct (map fst (registry srv))"
    and "offered base tid name (sess_user_id s) rid (sess_token s) (manager srv)"
    and "connected d rid q ReadHeader srv"
    and "length u < 65536" and "length p < 65536"
    and "handle_login X \<lparr>lreq_username = u, lreq_password = p\<rparr> (world srv) = (Inr r, w)"
    and "lresp_ok r" and "lresp_token r \<noteq> []" and "lresp_token r \<noteq> sess_token s"
    and "lresp_user_id r \<noteq> sess_user_id s"
  shows "\<exists>srv1 srv2 srv3 h f. deliver X os base c (make_login_req u p) srv = (Inr (), srv1) \<and>
    deliver X os base d (make_file_accept_req tid True) srv1 = (Inr (), srv2) \<and>
    connected c (lresp_user_id r) (outq s @ [frame LOGIN_RESP (LoginResp_serialize r), accept_frame]) ReadHeader srv2 \<and>
    receiving os base tid name (sess_user_id s) h f [] 0 (manager srv2) (store srv2) \<and>
    deliver X os base c (upload_stream tid data) srv2 = (Inr (), srv3) \<and>
    connected c (lresp_user_id r) (outq s @ [frame LOGIN_RESP (LoginResp_serialize r), accept_frame]) ReadHeader srv3 \<and>
    manager srv3 = manager srv2 \<and> store srv3 = store srv2"
proof -
  let ?q = "outq s @ [frame LOGIN_RESP (LoginResp_serialize r)]"
  obtain srv1 s1 where d1: "deliver X os base c (make_login_req u p) srv = (Inr (), srv1)"
    and s1: "sessions srv1 c = Some s1" "logged_in r ?q s1"
    and o1: "\<And>e. e \<noteq> c \<Longrightarrow> sessions srv1 e = sessions srv e" "manager srv1 = manager srv"
    and g1: "\<And>t e. t \<noteq> lresp_token r \<Longrightarrow> get_session (sessions srv) (registry srv) t = Some e \<Longrightarrow>
        get_session (sessions srv1) (registry srv1) t = Some e"
    by (rule deliver_login [where os = os and base = base, OF assms(3,4,10-14,7)]) (rule that)
  have cc: "connected c (lresp_user_id r) ?q ReadHeader srv1"
    using s1 assms(14) by (auto simp: connected_def logged_in_def is_authenticated_def)
  have cd: "connected d rid q ReadHeader srv1" using assms(2,9) o1(1) by (simp add: connected_def)
  have off: "offered base tid name (sess_user_id s) rid (sess_token s) (manager srv1)" using assms(8) o1(2) by simp
  have g: "get_session (sessions srv1) (registry srv1) (sess_token s) = Some c"
    using g1 assms(6,15) by metis
  obtain srv2 h f where d2: "deliver X os base d (make_file_accept_req tid True) srv1 = (Inr (), srv2)"
    and r2: "receiving os base tid name (sess_user_id s) h f [] 0 (manager srv2) (store srv2)"
    and c2: "connected c (lresp_user_id r) (?q @ [accept_frame]) ReadHeader srv2"
    by (rule deliver_accept [OF assms(1) off cc cd assms(2,5) g, where X = X]) (rule that)
  obtain t where t: "get_transfer (manager srv2) tid = Some t" "sender_user_id t = sess_user_id s"
    using r2 by (auto simp: receiving_def)
  with assms(16) have "sender_user_id t \<noteq> lresp_user_id r" by simp
  with foreign_upload [OF t(1) this c2, of X os base data] d1 d2 c2 r2 show ?thesis
    by (auto simp: ignored_def)
qed

text \<open>Alice, on connection 0, has offered a file to Bob, on connection 1; then Bob logs in on 0.\<close>

definition offering_server :: "pg_world server" where
  "offering_server = scenario_start\<lparr>world := scenario_world1,
     sessions := [0 \<mapsto> set_auth (scenario_token 0) 1 ''alice'' (TcpSession_new\<lparr>pending_read := ReadHeader\<rparr>),
       1 \<mapsto> set_auth ''b'' 2 ''bob'' (TcpSession_new\<lparr>pending_read := ReadHeader\<rparr>)],
     registry := [(scenario_token 0, 0), (''b'', 1)],
     manager := \<lparr>next_transfer_id = 2, transfers = [(1, sample_transfer\<lparr>transfer_id := 1, sender_token := scenario_token 0,
       tstate := OFFERED, temp_file_path := get_temp_path ''d'' 1 ''a.txt'', final_file_path := get_file_path ''d'' 1 ''a.txt'',
       file_handle := None\<rparr>)]\<rparr>\<rparr>"

theorem relogin_strands_transfer_witness:
  "\<exists>srv1 srv2 srv3. deliver ref_externals sample_os ''d'' 0 (make_login_req ''bob'' ''pb'') offering_server = (Inr (), srv1) \<and>
    deliver ref_externals sample_os ''d'' 1 (make_file_accept_req 1 True) srv1 = (Inr (), srv2) \<and>
    deliver ref_externals sample_os ''d'' 0 (upload_stream 1 [1, 2, 3]) srv2 = (Inr (), srv3) \<and>
    manager srv3 = manager srv2 \<and> store srv3 = store srv2"
proof -
  have len: "scenario_token 0 \<noteq> ''b''"
  proof
    assume "scenario_token 0 = ''b''"
    then have "length (scenario_token 0) = length ''b''" by simp
    then show False by (simp add: scenario_token_def)
  qed
  have off: "offered ''d'' 1 ''a.txt'' 1 2 (scenario_token 0) (manager offering_server)"
    by (simp add: offered_def offering_server_def get_transfer_def sample_transfer_def)
  have conn: "connected 1 2 [] ReadHeader offering_server"
    by (simp add: connected_def offering_server_def set_auth_def TcpSession_new_def is_authenticated_def)
  let ?s = "set_auth (scenario_token 0) 1 ''alice'' (TcpSession_new\<lparr>pending_read := ReadHeader\<rparr>)"
  have s: "sessions offering_server 0 = Some ?s" "world offering_server = scenario_world1"
    "registry offering_server = [(scenario_token 0, 0), (''b'', 1)]"
    by (simp_all add: offering_server_def)
  have fields: "sess_token ?s = scenario_token 0" "sess_user_id ?s = 1" "pending_read ?s = ReadHeader"
    by (simp_all add: set_auth_def)
  have g: "get_session (sessions offering_server) (registry offering_server) (scenario_token 0) = Some 0"
    using s by (simp add: get_session_Some)
  show ?thesis
    using relogin_strands_transfer [OF sample_disk_ok _ s(1), of 1 "''d''" 1 "''a.txt''" 2 "[]" "''bob''" "''pb''"
        ref_externals "scenario_resp 32 2 ''bob''" scenario_world2 "[1, 2, 3]"]
      fields off conn s g len scenario_login_bob scenario_tokens
    by (auto simp: scenario_resp_def)
qed

end
