(* ===== verification/FsxService.thy ===== *)
theory FsxService
  imports FsxIsolation FsxRelogin
begin

text \<open>
  What the file transfer promises to its users, without a file store: a service that keeps, for
  each transfer, its parties, what has arrived of the file, and what was stored of it. The server
  (\<open>net/tcp_session.cpp\<close> over \<open>transfer/transfer_manager.cpp\<close> and \<open>storage/file_store.cpp\<close>) refines
  the service, whatever its clients send and whatever the disk answers, as long as the names of the
  offered files have no separator.
\<close>

section \<open>The service\<close>

text \<open>
  \<open>sv_part\<close> is what has arrived of a file that was accepted and not finished. \<open>sv_stored\<close> is what
  the final name leads to, once the transfer has stored something.
\<close>

record served =
  sv_sender :: int
  sv_receiver :: int
  sv_name :: string
  sv_open :: bool
  sv_part :: "bytes option"
  sv_stored :: "bytes option"

type_synonym service = "u64 \<Rightarrow> served option"

definition service_at :: "u64 \<Rightarrow> (served \<Rightarrow> served set) \<Rightarrow> service \<Rightarrow> service set" where
  "service_at tid f sv = (case sv tid of None \<Rightarrow> {sv} | Some a \<Rightarrow> (\<lambda>a'. sv(tid \<mapsto> a')) ` f a)"

text \<open>
  What a message of user \<open>uid\<close> does. An acceptance starts the file anew, in whatever state the
  transfer is, unless no file can be opened; a chunk is appended, or the disk takes only a part of
  it, and the transfer takes no more; FILE_DONE stores what is there, unless the file cannot be
  renamed. What was still in a buffer may be lost then, so that only a beginning of it is stored.
  When the disk is sound, none of this fails. An offer makes a new transfer, from the user to the
  one that the directory \<open>dir\<close> has under the name of the receiver.
\<close>

definition serve_accept :: "bool \<Rightarrow> int \<Rightarrow> bool \<Rightarrow> served \<Rightarrow> served set" where
  "serve_accept sound uid accept a =
     (if sv_receiver a \<noteq> uid then {a}
      else if \<not> accept then {a\<lparr>sv_open := False\<rparr>}
      else insert (a\<lparr>sv_open := True, sv_part := Some []\<rparr>) (if sound then {} else {a\<lparr>sv_open := False\<rparr>}))"

definition serve_chunk :: "bool \<Rightarrow> int \<Rightarrow> bytes \<Rightarrow> served \<Rightarrow> served set" where
  "serve_chunk sound uid d a =
     (if sv_sender a \<noteq> uid \<or> \<not> sv_open a then {a}
      else if d = [] then {a\<lparr>sv_open := False\<rparr>}
      else insert (a\<lparr>sv_part := map_option (\<lambda>got. got @ d) (sv_part a)\<rparr>)
        (if sound then {} else
           {a\<lparr>sv_open := False, sv_part := map_option (\<lambda>got. got @ take k d) (sv_part a)\<rparr> | k. k < length d}))"

definition serve_done :: "bool \<Rightarrow> int \<Rightarrow> served \<Rightarrow> served set" where
  "serve_done sound uid a =
     (if sv_sender a \<noteq> uid then {a}
      else case sv_part a of
        None \<Rightarrow> {a\<lparr>sv_open := False\<rparr>}
      | Some got \<Rightarrow>
          insert (a\<lparr>sv_open := False, sv_part := None, sv_stored := Some got\<rparr>)
            (if sound then {} else
               insert (a\<lparr>sv_open := False, sv_part := None\<rparr>)
                 {a\<lparr>sv_open := False, sv_part := None, sv_stored := Some (take k got)\<rparr> | k. k < length got}))"

type_synonym directory = "string \<Rightarrow> int option"

definition serve_offer :: "directory \<Rightarrow> int \<Rightarrow> FileOfferReq \<Rightarrow> service \<Rightarrow> service set" where
  "serve_offer dir uid m sv =
     (case dir (oreq_receiver_username m) of
        None \<Rightarrow> {sv}
      | Some r \<Rightarrow> {sv(tid \<mapsto> \<lparr>sv_sender = uid, sv_receiver = r, sv_name = oreq_filename m, sv_open = False,
           sv_part = None, sv_stored = None\<rparr>) | tid. sv tid = None})"

definition service_next ::
  "bool \<Rightarrow> directory \<Rightarrow> int option \<Rightarrow> MsgType \<Rightarrow> bytes \<Rightarrow> service \<Rightarrow> service set" where
  "service_next sound dir who t p sv =
     (case who of
        None \<Rightarrow> {sv}
      | Some uid \<Rightarrow>
          if t = FILE_OFFER_REQ then
            (case FileOfferReq_deserialize p of Inl _ \<Rightarrow> {sv} | Inr m \<Rightarrow> serve_offer dir uid m sv)
          else if t = FILE_ACCEPT_REQ then
            (case FileAcceptReq_deserialize p of Inl _ \<Rightarrow> {sv}
             | Inr m \<Rightarrow> service_at (areq_transfer_id m) (serve_accept sound uid (areq_accept m)) sv)
          else if t = FILE_CHUNK then
            (case FileChunk_deserialize p of Inl _ \<Rightarrow> {sv}
             | Inr m \<Rightarrow> service_at (chunk_transfer_id m) (serve_chunk sound uid (chunk_data m)) sv)
          else if t = FILE_DONE then
            (case FileDone_deserialize p of Inl _ \<Rightarrow> {sv}
             | Inr m \<Rightarrow> service_at (done_transfer_id m) (serve_done sound uid) sv)
          else {sv})"

lemma service_atI: "sv tid = Some a \<Longrightarrow> a' \<in> f a \<Longrightarrow> sv(tid \<mapsto> a') \<in> service_at tid f sv"
  by (auto simp: service_at_def)

lemma service_at_same: "(\<And>a. sv tid = Some a \<Longrightarrow> a \<in> f a) \<Longrightarrow> sv \<in> service_at tid f sv"
  by (cases "sv tid") (auto simp: service_at_def image_def, metis fun_upd_idem)

section \<open>The server as the service\<close>

text \<open>Different plain names in different directories lead to different files.\<close>

definition paths_distinct :: "(string \<Rightarrow> string) \<Rightarrow> string \<Rightarrow> bool" where
  "paths_distinct res base \<longleftrightarrow>
     (\<forall>tid n tid' n'. plain_name n \<longrightarrow> plain_name n' \<longrightarrow>
        res (c_str (get_file_path base tid n)) = res (c_str (get_file_path base tid' n')) \<longrightarrow> tid = tid' \<and> n = n')"

lemma paths_distinct_separates: "paths_distinct res base \<Longrightarrow> separates res base"
  unfolding paths_distinct_def separates_def by metis

lemma paths_distinct_id: "CHR 0x00 \<notin> set base \<Longrightarrow> paths_distinct (\<lambda>p. p) base"
  by (simp add: paths_distinct_def c_str_file_path get_file_path_inject)

abbreviation part_path :: "(string \<Rightarrow> string) \<Rightarrow> string \<Rightarrow> u64 \<Rightarrow> string \<Rightarrow> string" where
  "part_path res base tid name \<equiv> res (c_str (get_temp_path base tid name))"

abbreviation stored_path :: "(string \<Rightarrow> string) \<Rightarrow> string \<Rightarrow> u64 \<Rightarrow> string \<Rightarrow> string" where
  "stored_path res base tid name \<equiv> res (c_str (get_file_path base tid name))"

lemma part_is_not_stored:
  "paths_distinct res base \<Longrightarrow> plain_name name \<Longrightarrow> part_path res base tid name \<noteq> stored_path res base tid name"
  using plain_part [of name] unfolding paths_distinct_def get_temp_path_eq by fastforce

definition shows_transfer ::
  "(string \<Rightarrow> string) \<Rightarrow> string \<Rightarrow> stdio \<Rightarrow> u64 \<Rightarrow> served \<Rightarrow> TransferSession \<Rightarrow> bool" where
  "shows_transfer res base st tid a t \<longleftrightarrow>
     sv_sender a = sender_user_id t \<and> sv_receiver a = receiver_user_id t \<and> sv_name a = filename t \<and>
     (sv_open a \<longleftrightarrow> live_state (tstate t)) \<and> (sv_open a \<longrightarrow> sv_part a \<noteq> None) \<and>
     (sv_part a = None \<longrightarrow> (\<forall>h. file_handle t = Some h \<longrightarrow> streams st h = None)) \<and>
     (\<forall>got. sv_part a = Some got \<longrightarrow> (\<exists>h f. file_handle t = Some h \<and>
        streams st h = Some (f, length (contents st f)) \<and> contents st f @ buffer st h = got \<and>
        names st (part_path res base tid (filename t)) = Some f)) \<and>
     (\<forall>d. sv_stored a = Some d \<longrightarrow> (\<exists>f. names st (stored_path res base tid (filename t)) = Some f \<and> contents st f = d))"

definition represents ::
  "(string \<Rightarrow> string) \<Rightarrow> string \<Rightarrow> service \<Rightarrow> TransferManager \<Rightarrow> stdio \<Rightarrow> bool" where
  "represents res base sv tm st \<longleftrightarrow>
     (\<forall>tid. (sv tid = None \<longleftrightarrow> get_transfer tm tid = None) \<and>
        (\<forall>a t. sv tid = Some a \<longrightarrow> get_transfer tm tid = Some t \<longrightarrow> shows_transfer res base st tid a t))"

abbreviation srv_represents :: "(string \<Rightarrow> string) \<Rightarrow> string \<Rightarrow> service \<Rightarrow> 'w server \<Rightarrow> bool" where
  "srv_represents res base sv srv \<equiv> represents res base sv (manager srv) (store srv)"

lemma shows_kept:
  assumes s: "shows_transfer res base st tid a t" and t: "get_transfer tm tid = Some t"
    and own: "owned res base own tm st" and sep: "separates res base" and wf: "stdio_wf st" "handles_ok tm st"
    and kept: "kept own tid st st'"
  shows "shows_transfer res base st' tid a t"
proof -
  have names: "names_owned res base own st" and streams: "streams_owned own tm st" and name: "plain_name (filename t)"
    using own t by (auto simp: owned_def plain_names_def)
  have bound: "f < next_file st" if "names st p = Some f" for p f
    using wf that by (auto simp: stdio_wf_def)
  have stored: "names st' (stored_path res base tid (filename t)) = Some f \<and> contents st' f = contents st f"
    if "names st (stored_path res base tid (filename t)) = Some f" for f
    using names_owned_at [OF names sep name that] bound [OF that] that kept unfolding kept_def by blast
  have part: "streams st' h = Some (f, off) \<and> buffer st' h = buffer st h \<and> contents st' f = contents st f \<and>
      names st' p = Some f"
    if "file_handle t = Some h" "streams st h = Some (f, off)" "names st p = Some f" for h f off p
  proof -
    have "own f = tid" using streams t that unfolding streams_owned_def by blast
    with kept bound [OF that(3)] that show ?thesis unfolding kept_def by blast
  qed
  have closed: "streams st' h = None" if "file_handle t = Some h" "streams st h = None" for h
    using that t wf(2) kept unfolding handles_ok_def kept_def by blast
  show ?thesis
    unfolding shows_transfer_def
  proof (intro conjI allI impI)
    fix got assume "sv_part a = Some got"
    then obtain h f where f: "file_handle t = Some h" "streams st h = Some (f, length (contents st f))"
      "contents st f @ buffer st h = got" "names st (part_path res base tid (filename t)) = Some f"
      using s unfolding shows_transfer_def by blast
    from part [OF f(1,2,4)] f show "\<exists>h f. file_handle t = Some h \<and> streams st' h = Some (f, length (contents st' f)) \<and>
        contents st' f @ buffer st' h = got \<and> names st' (part_path res base tid (filename t)) = Some f" by auto
  next
    fix d assume "sv_stored a = Some d"
    with s stored show "\<exists>f. names st' (stored_path res base tid (filename t)) = Some f \<and> contents st' f = d"
      unfolding shows_transfer_def by metis
  qed (use s closed in \<open>simp_all add: shows_transfer_def\<close>)
qed

text \<open>One transfer has changed, the others are kept.\<close>

lemma represents_update:
  assumes r: "represents res base sv tm st" and own: "owned res base own tm st" and sep: "separates res base"
    and wf: "stdio_wf st" "handles_ok tm st" and c: "changes res base own {tid} tm st tm' st'"
    and old: "\<And>tid'. tid' \<noteq> tid \<Longrightarrow> get_transfer tm' tid' = get_transfer tm tid'"
    and new: "get_transfer tm' tid = Some t'" "shows_transfer res base st' tid a' t'"
  shows "represents res base (sv(tid \<mapsto> a')) tm' st'"
  unfolding represents_def
proof (intro allI conjI impI)
  fix tid'
  show "((sv(tid \<mapsto> a')) tid' = None) = (get_transfer tm' tid' = None)"
    using r new(1) old [of tid'] by (auto simp: represents_def)
  fix a t assume at: "(sv(tid \<mapsto> a')) tid' = Some a" "get_transfer tm' tid' = Some t"
  show "shows_transfer res base st' tid' a t"
  proof (cases "tid' = tid")
    case True
    with at new show ?thesis by simp
  next
    case False
    with at old have 1: "sv tid' = Some a" "get_transfer tm tid' = Some t" by auto
    with r have "shows_transfer res base st tid' a t" unfolding represents_def by blast
    moreover have "kept own tid' st st'" using c 1(2) False unfolding changes_def by blast
    ultimately show ?thesis using shows_kept [OF _ 1(2) own sep wf] by blast
  qed
qed

text \<open>No file has two names.\<close>

definition names_distinct :: "stdio \<Rightarrow> bool" where
  "names_distinct st \<longleftrightarrow> (\<forall>p q f. names st p = Some f \<longrightarrow> names st q = Some f \<longrightarrow> p = q)"

lemma names_distinct_open:
  assumes "stdio_wf st" and "names_distinct st" and "open_for_write os base tid name st = (fp, st')"
  shows "names_distinct st'"
proof (cases fp)
  case None
  with assms open_for_write_fails show ?thesis by blast
next
  case (Some h)
  have "names st p \<noteq> Some (next_file st)" for p using assms(1) by (auto simp: stdio_wf_def)
  with assms(2) show ?thesis
    unfolding opened_state(2) [OF assms(3) [unfolded Some]] names_distinct_def
    by (auto simp: Let_def split: option.splits)
qed

lemma names_distinct_write: "names_distinct st \<Longrightarrow> names_distinct (snd (write_chunk os fp d st))"
  by (simp add: names_distinct_def)

lemma names_distinct_finalize:
  "names_distinct st \<Longrightarrow> names_distinct (snd (finalize_file os base tid name fp st))"
  by (auto simp: names_distinct_def snd_finalize_file rename_file_def split: option.splits; metis)

text \<open>What each operation on the store does to the transfer it is for.\<close>

lemma shows_state:
  assumes "shows_transfer res base st tid a t" and "\<not> live_state s"
  shows "shows_transfer res base st tid (a\<lparr>sv_open := False\<rparr>) (t\<lparr>tstate := s\<rparr>)"
  using assms by (auto simp: shows_transfer_def)

lemma shows_open:
  assumes s: "shows_transfer res base st tid a t" and "resolve os = res" and "paths_distinct res base"
    and "plain_name (filename t)" and "names_distinct st" and wf: "stdio_wf st"
    and o: "open_for_write os base tid (filename t) st = (Some h, st')"
  shows "shows_transfer res base st' tid (a\<lparr>sv_open := True, sv_part := Some []\<rparr>)
    (t\<lparr>file_handle := Some h, tstate := ACCEPTED\<rparr>)"
proof -
  have other: "names st p = Some f \<Longrightarrow> p \<noteq> part_path res base tid (filename t) \<Longrightarrow>
      names st' p = Some f \<and> contents st' f = contents st f" for p f
    using assms(5) wf unfolding opened_state(2) [OF o] names_distinct_def stdio_wf_def
    by (auto simp: Let_def assms(2) split: option.split)
  have "\<exists>f. streams st' h = Some (f, 0) \<and> contents st' f = [] \<and> buffer st' h = [] \<and>
      names st' (part_path res base tid (filename t)) = Some f"
    unfolding opened_state(1) [OF o] opened_state(2) [OF o]
    by (auto simp: Let_def assms(2) split: option.split)
  then show ?thesis
    using s other part_is_not_stored [OF assms(3,4), of tid] unfolding shows_transfer_def
    by (auto simp: live_state_def)
qed

text \<open>A call on the stream of the transfer, after which file and buffer hold \<open>got\<close>.\<close>

lemma touches_shows:
  assumes s: "shows_transfer res base st tid a t" and paths: "paths_distinct res base" "plain_name (filename t)"
    and nd: "names_distinct st" and h: "file_handle t = Some h" "streams st h = Some (f, off)"
    and p: "names st (part_path res base tid (filename t)) = Some f"
    and tch: "touches h st st'" and w: "written_to st' (Some h) = Some got"
  shows "shows_transfer res base st' tid (a\<lparr>sv_part := Some got\<rparr>) t"
proof -
  have stored: "f' \<noteq> f" if "names st (stored_path res base tid (filename t)) = Some f'" for f'
    using p nd that part_is_not_stored [OF paths, of tid] unfolding names_distinct_def by blast
  from w obtain f' where f': "streams st' h = Some (f', length (contents st' f'))" "got = contents st' f' @ buffer st' h"
    by (auto simp: written_to_Some)
  with touches_stream [OF tch, of h f'] h(2) have "f' = f" by auto
  moreover have "names st' = names st" using tch by (simp add: touches_def)
  moreover have "contents st' x = contents st x" if "x \<noteq> f" for x using tch h(2) that by (simp add: touches_def)
  ultimately show ?thesis using s f' h p stored unfolding shows_transfer_def by auto
qed

lemma shows_part:
  assumes "shows_transfer res base st tid a t" and "sv_part a = Some got"
  obtains h f where "file_handle t = Some h" and "streams st h = Some (f, length (contents st f))"
    and "contents st f @ buffer st h = got" and "names st (part_path res base tid (filename t)) = Some f"
  using assms unfolding shows_transfer_def by blast

lemma shows_write:
  fixes os :: os_answers
  assumes s: "shows_transfer res base st tid a t" and live: "sv_open a"
    and paths: "paths_distinct res base" "plain_name (filename t)" "names_distinct st" and d: "d \<noteq> []"
  defines "w \<equiv> write_chunk os (file_handle t) d st"
  shows "fst w = Inr (int (length d)) \<and> shows_transfer res base (snd w) tid
      (a\<lparr>sv_part := map_option (\<lambda>got. got @ d) (sv_part a)\<rparr>) t \<or>
    \<not> disk_ok os \<and> fst w = Inr (- 1) \<and> (\<exists>k < length d. shows_transfer res base (snd w) tid
      (a\<lparr>sv_open := False, sv_part := map_option (\<lambda>got. got @ take k d) (sv_part a)\<rparr>) (t\<lparr>tstate := FAILED\<rparr>))"
proof -
  obtain got where got: "sv_part a = Some got" using s live unfolding shows_transfer_def by auto
  obtain h f where g: "file_handle t = Some h" "streams st h = Some (f, length (contents st f))"
    "contents st f @ buffer st h = got" "names st (part_path res base tid (filename t)) = Some f"
    by (rule shows_part [OF s got])
  let ?k = "fwrite_takes os (length d)"
  have "written_to st (Some h) = Some got" using g by (simp add: written_to_Some)
  from written_write_chunk [OF this d, of os]
  have sh: "shows_transfer res base (snd w) tid (a\<lparr>sv_part := Some (got @ take ?k d)\<rparr>) t"
    unfolding w_def g(1) by (rule touches_shows [OF s paths g(1,2,4) touches_write_chunk])
  show ?thesis
  proof (cases "length d \<le> ?k")
    case True
    then have "fst w = Inr (int (length d))" by (simp add: w_def g(1,2) fst_write_chunk d)
    with True sh got show ?thesis by simp
  next
    case False
    then have "\<not> disk_ok os" unfolding disk_ok_def by blast
    moreover have "fst w = Inr (- 1)" using False by (simp add: w_def g(1,2) fst_write_chunk d)
    moreover have "shows_transfer res base (snd w) tid (a\<lparr>sv_open := False, sv_part := Some (got @ take ?k d)\<rparr>)
        (t\<lparr>tstate := FAILED\<rparr>)"
      using shows_state [OF sh, of FAILED] by (cases a) (simp add: live_state_def)
    moreover have "?k < length d" using False by simp
    ultimately show ?thesis using got by auto
  qed
qed

text \<open>FILE_DONE without a stream fails and changes nothing.\<close>

lemma finalize_nothing:
  assumes "shows_transfer res base st tid a t" and "sv_part a = None"
    and "fst (finalize_file os base tid name (file_handle t) st) = Inr ok"
  shows "\<not> ok \<and> snd (finalize_file os base tid name (file_handle t) st) = st"
  using assms by (auto simp: shows_transfer_def finalize_file_def fclose_def fflush_def split: option.splits)

lemma fclose_at_end:
  assumes "streams st h = Some (f, length (contents st f))"
  shows "fst (fclose os h st) \<in> range Inr" and "snd (fclose os h st) = st\<lparr>contents :=
      (contents st)(f := contents st f @ take (fflush_through os (length (buffer st h))) (buffer st h)),
      streams := (streams st)(h := None), buffer := (buffer st)(h := [])\<rparr>"
  using assms by (simp_all add: fclose_def fflush_def write_out_def write_at_end Let_def)

text \<open>FILE_DONE stores what had arrived; when a flush fails, only a beginning of it.\<close>

lemma shows_finalize:
  assumes s: "shows_transfer res base st tid a t" and res: "resolve os = res" and got: "sv_part a = Some got"
    and paths: "paths_distinct res base" "plain_name (filename t)" and nd: "names_distinct st"
    and f: "finalize_file os base tid (filename t) (file_handle t) st = (Inr ok, st')"
  shows "\<exists>k. shows_transfer res base st' tid
      (if ok then a\<lparr>sv_open := False, sv_part := None, sv_stored := Some (take k got)\<rparr>
       else a\<lparr>sv_open := False, sv_part := None\<rparr>)
      (t\<lparr>tstate := (if ok then COMPLETED else FAILED)\<rparr>) \<and> (disk_ok os \<longrightarrow> ok \<and> take k got = got)"
proof -
  obtain h g where h: "file_handle t = Some h" "streams st h = Some (g, length (contents st g))"
    "contents st g @ buffer st h = got" and gp: "names st (part_path res base tid (filename t)) = Some g"
    by (rule shows_part [OF s got])
  let ?part = "part_path res base tid (filename t)" and ?stored = "stored_path res base tid (filename t)"
  let ?n = "fflush_through os (length (buffer st h))" and ?k = "length (contents st g) + fflush_through os (length (buffer st h))"
  let ?c = "contents st g @ take ?n (buffer st h)"
  let ?st = "st\<lparr>contents := (contents st)(g := ?c), streams := (streams st)(h := None), buffer := (buffer st)(h := [])\<rparr>"
  have ne: "?part \<noteq> ?stored" by (rule part_is_not_stored [OF paths])
  have c: "?c = take ?k got" using h(3) by auto
  have fc: "\<exists>b. fclose os h st = (Inr b, ?st)"
    using fclose_at_end [OF h(2), of os] by (metis (no_types, lifting) prod.collapse rangeE)
  have old: "f' \<noteq> g" if "names st ?stored = Some f'" for f'
    using gp nd that ne unfolding names_distinct_def by blast
  have stored': "\<exists>f. names st ?stored = Some f \<and> contents ?st f = d" if "sv_stored a = Some d" for d
    using s that old unfolding shows_transfer_def by fastforce
  show ?thesis
  proof (cases ok)
    case True
    with f fc h(1) res gp have st': "st' = ?st\<lparr>names := ((names st)(?part := None))(?stored \<mapsto> g)\<rparr>"
      by (auto simp: finalize_file_def rename_file_def Let_def split: if_splits)
    have "take ?k got = got" if "disk_ok os" using that h(3) by (auto simp: disk_ok_def)
    moreover have "shows_transfer res base st' tid (a\<lparr>sv_open := False, sv_part := None, sv_stored := Some (take ?k got)\<rparr>)
        (t\<lparr>tstate := COMPLETED\<rparr>)"
      using s h(1) ne c unfolding shows_transfer_def by (auto simp: st' live_state_def)
    ultimately show ?thesis using True by (intro exI [of _ ?k]) simp
  next
    case False
    with f fc h(1) res have st': "st' = ?st"
      by (auto simp: finalize_file_def rename_file_def Let_def split: if_splits option.splits)
    have "\<not> disk_ok os" using False f fc h(1) res gp by (auto simp: finalize_file_def rename_file_def disk_ok_def Let_def)
    moreover have "shows_transfer res base st' tid (a\<lparr>sv_open := False, sv_part := None\<rparr>) (t\<lparr>tstate := FAILED\<rparr>)"
      using s h(1) stored' unfolding shows_transfer_def by (simp add: st' live_state_def)
    ultimately show ?thesis using False by simp
  qed
qed

section \<open>The handlers as the service\<close>

text \<open>All that the simulation needs of a state of the server.\<close>

definition serves :: "(string \<Rightarrow> string) \<Rightarrow> string \<Rightarrow> service \<Rightarrow> 'w server \<Rightarrow> bool" where
  "serves res base sv srv \<longleftrightarrow> transfers_ok base srv \<and> (\<exists>own. srv_owned res base own srv) \<and>
     names_distinct (store srv) \<and> srv_represents res base sv srv"

definition actor :: "TcpSession \<Rightarrow> int option" where
  "actor s = (if is_authenticated s then Some (sess_user_id s) else None)"

lemma service_next_simps [simp]:
  "service_next sound dir None t p sv = {sv}"
  "service_next sound dir (Some uid) FILE_CHUNK p sv = (case FileChunk_deserialize p of Inl _ \<Rightarrow> {sv}
     | Inr m \<Rightarrow> service_at (chunk_transfer_id m) (serve_chunk sound uid (chunk_data m)) sv)"
  "service_next sound dir (Some uid) FILE_DONE p sv = (case FileDone_deserialize p of Inl _ \<Rightarrow> {sv}
     | Inr m \<Rightarrow> service_at (done_transfer_id m) (serve_done sound uid) sv)"
  "service_next sound dir (Some uid) FILE_ACCEPT_REQ p sv = (case FileAcceptReq_deserialize p of Inl _ \<Rightarrow> {sv}
     | Inr m \<Rightarrow> service_at (areq_transfer_id m) (serve_accept sound uid (areq_accept m)) sv)"
  "service_next sound dir (Some uid) FILE_OFFER_REQ p sv = (case FileOfferReq_deserialize p of Inl _ \<Rightarrow> {sv}
     | Inr m \<Rightarrow> serve_offer dir uid m sv)"
  by (simp_all add: service_next_def)

text \<open>The transfer \<open>tid\<close> goes on as \<open>t'\<close>, the store as \<open>st'\<close>: a step of the service for it.\<close>

lemma serves_update:
  assumes "serves res base sv srv" and "separates res base"
    and "\<And>own. srv_owned res base own srv \<Longrightarrow> changes res base own {tid} (manager srv) (store srv) tm' st'"
    and "\<And>tid'. tid' \<noteq> tid \<Longrightarrow> get_transfer tm' tid' = get_transfer (manager srv) tid'"
    and "get_transfer tm' tid = Some t'" and "shows_transfer res base st' tid a' t'"
  shows "represents res base (sv(tid \<mapsto> a')) tm' st'"
proof -
  obtain own where own: "srv_owned res base own srv" using assms(1) by (auto simp: serves_def)
  have r: "srv_represents res base sv srv" and wf: "stdio_wf (store srv)" "handles_ok (manager srv) (store srv)"
    using assms(1) by (simp_all add: serves_def transfers_ok_def)
  show ?thesis by (rule represents_update [OF r own assms(2) wf assms(3) [OF own] assms(4-6)])
qed

lemma shows_same:
  "shows_transfer res base st tid a t \<Longrightarrow> sender_user_id t' = sender_user_id t \<Longrightarrow> receiver_user_id t' = receiver_user_id t \<Longrightarrow>
     filename t' = filename t \<Longrightarrow> live_state (tstate t') = live_state (tstate t) \<Longrightarrow> file_handle t' = file_handle t \<Longrightarrow>
     shows_transfer res base st tid a t'"
  by (simp add: shows_transfer_def)

lemma serves_transfer:
  assumes "serves res base sv srv" and "get_transfer (manager srv) tid = Some t"
  obtains a where "sv tid = Some a" and "shows_transfer res base (store srv) tid a t" and "plain_name (filename t)"
proof -
  have "sv tid \<noteq> None" using assms by (auto simp: serves_def represents_def)
  then obtain a where a: "sv tid = Some a" by blast
  with assms show thesis by (intro that [OF a]) (auto simp: serves_def represents_def owned_def plain_names_def)
qed

lemma represents_parties:
  assumes "represents res base sv tm st" and "sv tid = Some a"
  shows "\<exists>t. get_transfer tm tid = Some t \<and> sv_sender a = sender_user_id t \<and> sv_receiver a = receiver_user_id t \<and>
    (sv_open a \<longleftrightarrow> live_state (tstate t))"
proof -
  have "get_transfer tm tid \<noteq> None" using assms unfolding represents_def by (metis option.distinct(1))
  then obtain t where "get_transfer tm tid = Some t" by blast
  with assms show ?thesis unfolding represents_def shows_transfer_def by blast
qed

lemma get_marked:
  assumes "get_transfer tm tid = Some t" and "live_state (tstate t)"
  shows "\<exists>t'. get_transfer (snd (mark_chunk_received tid i n tm)) tid = Some t' \<and>
    sender_user_id t' = sender_user_id t \<and> receiver_user_id t' = receiver_user_id t \<and> filename t' = filename t \<and>
    live_state (tstate t') = live_state (tstate t) \<and> file_handle t' = file_handle t"
proof (cases "i = expected_chunk_index t")
  case True
  with assms show ?thesis by (auto simp: snd_mark_chunk live_state_def)
next
  case False
  with assms show ?thesis by (simp add: snd_mark_chunk)
qed

lemma chunk_serves:
  assumes sv: "serves res base sv srv" and paths: "paths_distinct res base"
    and sound: "sound \<Longrightarrow> disk_ok os"
  shows "keeps (\<lambda>srv'. \<exists>sv' \<in> service_next sound dir (actor s) FILE_CHUNK p sv. srv_represents res base sv' srv')
    (handle_file_chunk os s p) srv"
proof -
  note sep = paths_distinct_separates [OF paths]
  have r: "srv_represents res base sv srv" and nd: "names_distinct (store srv)" using sv by (simp_all add: serves_def)
  show ?thesis
  proof (cases "\<exists>m t. is_authenticated s \<and> FileChunk_deserialize p = Inr m \<and>
      get_transfer (manager srv) (chunk_transfer_id m) = Some t \<and> sender_user_id t = sess_user_id s \<and> live_state (tstate t)")
    case False
    have "sv \<in> service_next sound dir (actor s) FILE_CHUNK p sv"
      using False represents_parties [OF r]
      by (auto simp: actor_def serve_chunk_def intro!: service_at_same split: sum.split) metis+
    moreover have "handle_file_chunk os s p srv = (Inr (), srv) \<or> (\<exists>e. handle_file_chunk os s p srv = (Inl e, srv))"
      using False
      by (auto simp: handle_file_chunk_def scatch_def sbind_def find_transfer_def slift_def sreturn_def live_state_def
          split: sum.split exn.split option.split)
    ultimately show ?thesis using r by (auto simp: wp_def)
  next
    case True
    then obtain m t where m: "is_authenticated s" "FileChunk_deserialize p = Inr m"
      and t: "get_transfer (manager srv) (chunk_transfer_id m) = Some t" "sender_user_id t = sess_user_id s"
        "live_state (tstate t)" by blast
    let ?tid = "chunk_transfer_id m" and ?d = "chunk_data m"
    let ?w = "write_chunk os (file_handle t) ?d (store srv)"
    obtain a where a: "sv ?tid = Some a" "shows_transfer res base (store srv) ?tid a t" "plain_name (filename t)"
      by (rule serves_transfer [OF sv t(1)])
    have open_a: "sv_open a" "sv_sender a = sess_user_id s" using a(2) t(2,3) by (simp_all add: shows_transfer_def)
    note step = service_atI [where f = "serve_chunk sound (sess_user_id s) ?d" and sv = sv, OF a(1)]
    have failed: "represents res base (sv(?tid \<mapsto> a')) (modify_transfer ?tid (\<lambda>t. t\<lparr>tstate := FAILED\<rparr>) (manager srv)) (snd ?w)"
      if "shows_transfer res base (snd ?w) ?tid a' (t\<lparr>tstate := FAILED\<rparr>)" for a'
      using that t(1)
      by (intro serves_update [OF sv sep, where t' = "t\<lparr>tstate := FAILED\<rparr>"]) (auto intro!: changes_modify changes_write)
    have marked: "represents res base (sv(?tid \<mapsto> a'))
        (snd (mark_chunk_received ?tid (chunk_index m) (length ?d) (manager srv))) (snd ?w)"
      if "shows_transfer res base (snd ?w) ?tid a' t" for a'
    proof -
      obtain t' where t': "get_transfer (snd (mark_chunk_received ?tid (chunk_index m) (length ?d) (manager srv))) ?tid = Some t'"
        and same: "sender_user_id t' = sender_user_id t" "receiver_user_id t' = receiver_user_id t" "filename t' = filename t"
          "live_state (tstate t') = live_state (tstate t)" "file_handle t' = file_handle t"
        using get_marked [OF t(1,3)] by blast
      show ?thesis
        using t(1) by (intro serves_update [OF sv sep _ _ t' shows_same [OF that same]])
          (simp_all add: changes_mark changes_write, simp add: snd_mark_chunk)
    qed
    have run: "wp (handle_file_chunk os s p) Q srv \<longleftrightarrow> (case fst ?w of
        Inl e \<Rightarrow> (case e of StdException _ \<Rightarrow> Q (Inr ()) (srv\<lparr>store := snd ?w\<rparr>) | UndefinedBehaviour \<Rightarrow> Q (Inl e) (srv\<lparr>store := snd ?w\<rparr>))
      | Inr n \<Rightarrow> Q (Inr ()) (if n < 0
          then srv\<lparr>store := snd ?w, manager := modify_transfer ?tid (\<lambda>t. t\<lparr>tstate := FAILED\<rparr>) (manager srv)\<rparr>
          else srv\<lparr>store := snd ?w, manager := snd (mark_chunk_received ?tid (chunk_index m) (length ?d) (manager srv))\<rparr>))" for Q
      using m t by (auto simp: handle_file_chunk_def wp_simps live_state_def split: sum.split exn.split)
    have who: "actor s = Some (sess_user_id s)" using m(1) by (simp add: actor_def)
    show ?thesis
    proof (cases "?d = []")
      case True
      then have w: "fst ?w = Inr (- 1)" "snd ?w = store srv" by (simp_all add: write_chunk_def split: option.split)
      with failed shows_state [OF a(2), of FAILED]
      have "represents res base (sv(?tid \<mapsto> a\<lparr>sv_open := False\<rparr>))
          (modify_transfer ?tid (\<lambda>t. t\<lparr>tstate := FAILED\<rparr>) (manager srv)) (snd ?w)" by (simp add: live_state_def)
      moreover have "a\<lparr>sv_open := False\<rparr> \<in> serve_chunk sound (sess_user_id s) ?d a"
        using open_a True by (simp add: serve_chunk_def)
      ultimately show ?thesis using w who m(2) step by (auto simp: run)
    next
      case False
      let ?short = "\<lambda>k. a\<lparr>sv_open := False, sv_part := map_option (\<lambda>got. got @ take k ?d) (sv_part a)\<rparr>"
      have next_a: "a\<lparr>sv_part := map_option (\<lambda>got. got @ ?d) (sv_part a)\<rparr> \<in> serve_chunk sound (sess_user_id s) ?d a"
        "\<not> sound \<Longrightarrow> k < length ?d \<Longrightarrow> ?short k \<in> serve_chunk sound (sess_user_id s) ?d a" for k
        using open_a False by (auto simp: serve_chunk_def)
      from shows_write [OF a(2) open_a(1) paths a(3) nd False, of os] show ?thesis
      proof (elim disjE conjE exE)
        assume w: "fst ?w = Inr (int (length ?d))" and sh: "shows_transfer res base (snd ?w) ?tid
            (a\<lparr>sv_part := map_option (\<lambda>got. got @ ?d) (sv_part a)\<rparr>) t"
        show ?thesis using w marked [OF sh] step [OF next_a(1)] who m(2) by (auto simp: run)
      next
        fix k
        assume "\<not> disk_ok os" and w: "fst ?w = Inr (- 1)" and k: "k < length ?d"
          and sh: "shows_transfer res base (snd ?w) ?tid (?short k) (t\<lparr>tstate := FAILED\<rparr>)"
        with sound have "\<not> sound" by blast
        then show ?thesis using w failed [OF sh] step [OF next_a(2) [OF _ k]] who m(2) by (auto simp: run)
      qed
    qed
  qed
qed

lemma accept_serves:
  assumes sv: "serves res base sv srv" and paths: "paths_distinct res base" and res: "resolve os = res"
    and sound: "sound \<Longrightarrow> disk_ok os"
  shows "keeps (\<lambda>srv'. \<exists>sv' \<in> service_next sound dir (actor s) FILE_ACCEPT_REQ p sv. srv_represents res base sv' srv')
    (handle_file_accept_req os base c s p) srv"
proof -
  note sep = paths_distinct_separates [OF paths]
  have r: "srv_represents res base sv srv" and nd: "names_distinct (store srv)" and wf: "stdio_wf (store srv)"
    and handles: "handles_ok (manager srv) (store srv)"
    using sv by (simp_all add: serves_def transfers_ok_def)
  show ?thesis
  proof (cases "\<exists>m t. is_authenticated s \<and> FileAcceptReq_deserialize p = Inr m \<and>
      get_transfer (manager srv) (areq_transfer_id m) = Some t \<and> receiver_user_id t = sess_user_id s")
    case False
    have "sv \<in> service_next sound dir (actor s) FILE_ACCEPT_REQ p sv"
      using False represents_parties [OF r]
      by (auto simp: actor_def serve_accept_def intro!: service_at_same split: sum.split) metis+
    then show ?thesis
      using False r by (auto simp: handle_file_accept_req_def wp_simps split: sum.split exn.split option.split)
  next
    case True
    then obtain m t where m: "is_authenticated s" "FileAcceptReq_deserialize p = Inr m"
      and t: "get_transfer (manager srv) (areq_transfer_id m) = Some t" "receiver_user_id t = sess_user_id s" by blast
    let ?tid = "areq_transfer_id m"
    let ?open = "open_for_write os base ?tid (filename t) (store srv)"
    obtain a where a: "sv ?tid = Some a" "shows_transfer res base (store srv) ?tid a t" "plain_name (filename t)"
      by (rule serves_transfer [OF sv t(1)])
    have ra: "sv_receiver a = sess_user_id s" using a(2) t(2) by (simp add: shows_transfer_def)
    have who: "actor s = Some (sess_user_id s)" using m(1) by (simp add: actor_def)
    have next_a: "sv(?tid \<mapsto> a') \<in> service_next sound dir (actor s) FILE_ACCEPT_REQ p sv"
      if "a' \<in> serve_accept sound (sess_user_id s) (areq_accept m) a" for a'
      using who m(2) service_atI [where f = "serve_accept sound (sess_user_id s) (areq_accept m)" and sv = sv, OF a(1) that]
      by simp
    have closed: "represents res base (sv(?tid \<mapsto> a\<lparr>sv_open := False\<rparr>))
        (modify_transfer ?tid (\<lambda>t. t\<lparr>tstate := FAILED\<rparr>) (manager srv)) (store srv)"
      using shows_state [OF a(2), of FAILED] t(1)
      by (intro serves_update [OF sv sep, where t' = "t\<lparr>tstate := FAILED\<rparr>"])
        (auto intro!: changes_modify changes_refl simp: live_state_def)
    have opened: "represents res base (sv(?tid \<mapsto> a\<lparr>sv_open := True, sv_part := Some []\<rparr>))
        (modify_transfer ?tid ((\<lambda>t. t\<lparr>tstate := ACCEPTED\<rparr>) \<circ> (\<lambda>t. t\<lparr>file_handle := Some h\<rparr>)) (manager srv)) (snd ?open)"
      if o: "fst ?open = Some h" for h
    proof -
      have o': "?open = (Some h, snd ?open)" using o by (simp add: prod_eq_iff)
      from shows_open [OF a(2) res paths a(3) nd wf o'] show ?thesis
        using t(1) changes_open [OF _ o' t(1) res sep wf handles]
        by (intro serves_update [OF sv sep, where t' = "t\<lparr>file_handle := Some h, tstate := ACCEPTED\<rparr>"]) simp_all
    qed
    have nopen: "snd ?open = store srv \<and> \<not> sound" if "fst ?open = None"
      using open_for_write_fails [of os base ?tid "filename t" "store srv"] that sound
        open_receiving [of os base ?tid "filename t" "store srv"] by (auto simp: prod_eq_iff)
    show ?thesis
    proof (cases "areq_accept m")
      case False
      from next_a [of "a\<lparr>sv_open := False\<rparr>"] closed False ra m t show ?thesis
        by (auto simp: handle_file_accept_req_def wp_simps serve_accept_def split: option.split)
    next
      case True
      then have "sv(?tid \<mapsto> a\<lparr>sv_open := True, sv_part := Some []\<rparr>) \<in> service_next sound dir (actor s) FILE_ACCEPT_REQ p sv"
        "\<not> sound \<Longrightarrow> sv(?tid \<mapsto> a\<lparr>sv_open := False\<rparr>) \<in> service_next sound dir (actor s) FILE_ACCEPT_REQ p sv"
        by - (rule next_a, use True ra in \<open>simp add: serve_accept_def\<close>)+
      with opened closed nopen True m t show ?thesis
        by (auto simp: handle_file_accept_req_def wp_simps case_prod_unfold Let_def simp del: service_next_simps
            split: option.split)
    qed
  qed
qed

lemma done_serves:
  assumes sv: "serves res base sv srv" and paths: "paths_distinct res base" and res: "resolve os = res"
    and sound: "sound \<Longrightarrow> disk_ok os"
  shows "keeps (\<lambda>srv'. \<exists>sv' \<in> service_next sound dir (actor s) FILE_DONE p sv. srv_represents res base sv' srv')
    (handle_file_done os base c s p) srv"
proof -
  note sep = paths_distinct_separates [OF paths]
  have r: "srv_represents res base sv srv" and nd: "names_distinct (store srv)" using sv by (simp_all add: serves_def)
  show ?thesis
  proof (cases "\<exists>m t. is_authenticated s \<and> FileDone_deserialize p = Inr m \<and>
      get_transfer (manager srv) (done_transfer_id m) = Some t \<and> sender_user_id t = sess_user_id s")
    case False
    have "sv \<in> service_next sound dir (actor s) FILE_DONE p sv"
      using False represents_parties [OF r]
      by (auto simp: actor_def serve_done_def intro!: service_at_same split: sum.split) metis+
    then show ?thesis
      using False r by (auto simp: handle_file_done_def wp_simps split: sum.split exn.split option.split)
  next
    case True
    then obtain m t where m: "is_authenticated s" "FileDone_deserialize p = Inr m"
      and t: "get_transfer (manager srv) (done_transfer_id m) = Some t" "sender_user_id t = sess_user_id s" by blast
    let ?tid = "done_transfer_id m"
    let ?fin = "finalize_file os base ?tid (filename t) (file_handle t) (store srv)"
    obtain a where a: "sv ?tid = Some a" "shows_transfer res base (store srv) ?tid a t" "plain_name (filename t)"
      by (rule serves_transfer [OF sv t(1)])
    have sa: "sv_sender a = sess_user_id s" using a(2) t(2) by (simp add: shows_transfer_def)
    have who: "actor s = Some (sess_user_id s)" using m(1) by (simp add: actor_def)
    have closed: "represents res base (sv(?tid \<mapsto> a\<lparr>sv_open := False\<rparr>))
        (modify_transfer ?tid (\<lambda>t. t\<lparr>tstate := FAILED\<rparr>) (manager srv)) (store srv)"
      using shows_state [OF a(2), of FAILED] t(1)
      by (intro serves_update [OF sv sep, where t' = "t\<lparr>tstate := FAILED\<rparr>"])
        (auto intro!: changes_modify changes_refl simp: live_state_def)
    have next_a: "sv(?tid \<mapsto> a') \<in> service_next sound dir (actor s) FILE_DONE p sv"
      if "a' \<in> serve_done sound (sess_user_id s) a" for a'
      using who m(2) service_atI [where f = "serve_done sound (sess_user_id s)" and sv = sv, OF a(1) that] by simp
    have finished: "\<exists>sv' \<in> service_next sound dir (actor s) FILE_DONE p sv. represents res base sv'
        (modify_transfer ?tid (\<lambda>t. t\<lparr>tstate := (if ok then COMPLETED else FAILED)\<rparr>) (manager srv)) (snd ?fin)"
      if f: "fst ?fin = Inr ok" for ok
    proof (cases "sv_part a")
      case None
      have "sv(?tid \<mapsto> a\<lparr>sv_open := False\<rparr>) \<in> service_next sound dir (actor s) FILE_DONE p sv"
        by (rule next_a) (simp add: serve_done_def sa None)
      with finalize_nothing [OF a(2) None f] closed show ?thesis by auto
    next
      case (Some got)
      have "?fin = (Inr ok, snd ?fin)" using f by (simp add: prod_eq_iff)
      from shows_finalize [OF a(2) res Some paths a(3) nd this] obtain k where
        k: "shows_transfer res base (snd ?fin) ?tid (if ok then a\<lparr>sv_open := False, sv_part := None, sv_stored := Some (take k got)\<rparr>
            else a\<lparr>sv_open := False, sv_part := None\<rparr>) (t\<lparr>tstate := (if ok then COMPLETED else FAILED)\<rparr>)"
          (is "shows_transfer _ _ _ _ ?a' _")
        and exact: "disk_ok os \<longrightarrow> ok \<and> take k got = got" by blast
      have "k < length got \<or> take k got = got" by auto
      then have "?a' \<in> serve_done sound (sess_user_id s) a"
        using sound exact by (auto simp: serve_done_def sa Some)
      moreover have "represents res base (sv(?tid \<mapsto> ?a'))
          (modify_transfer ?tid (\<lambda>t. t\<lparr>tstate := (if ok then COMPLETED else FAILED)\<rparr>) (manager srv)) (snd ?fin)"
        using k t(1) res sep
        by (intro serves_update [OF sv sep, where t' = "t\<lparr>tstate := (if ok then COMPLETED else FAILED)\<rparr>"])
          (auto intro!: changes_modify changes_finalize)
      ultimately show ?thesis using next_a by blast
    qed
    show ?thesis
      using m t finished [of True] finished [of False]
        finalize_file_no_throw [of os base ?tid "filename t" "file_handle t" "store srv"]
      by (auto simp: handle_file_done_def wp_simps simp del: service_next_simps split: sum.split exn.split)
  qed
qed

text \<open>The users as the server finds them: by name, the id.\<close>

definition directory_of :: "'w externals \<Rightarrow> 'w server \<Rightarrow> directory" where
  "directory_of X srv name =
     (case fst (get_user_by_username X name (world srv)) of
        Inr (Some row) \<Rightarrow> Some (u_id row)
      | _ \<Rightarrow> None)"

lemma offer_serves:
  assumes sv: "serves res base sv srv" and plain: "plain_offer FILE_OFFER_REQ p"
  shows "keeps (\<lambda>srv'. \<exists>sv' \<in> service_next sound (directory_of X srv) (actor s) FILE_OFFER_REQ p sv. srv_represents res base sv' srv')
    (handle_file_offer_req X base c s p) srv"
proof -
  have r: "srv_represents res base sv srv" and fresh: "ids_fresh (manager srv)"
    using sv by (auto simp: serves_def owned_def)
  let ?tid = "next_transfer_id (manager srv)"
  have none: "sv ?tid = None" "get_transfer (manager srv) ?tid = None"
    using r fresh by (auto simp: ids_fresh_def represents_def)
  let ?new = "\<lambda>uid r name. \<lparr>sv_sender = uid, sv_receiver = r, sv_name = name, sv_open = False, sv_part = None, sv_stored = None\<rparr>"
  have created: "represents res base (sv(?tid \<mapsto> ?new uid rid name))
      (modify_transfer ?tid g (snd (create_transfer uid n k rid rn name z cs (manager srv)))) (store srv)"
    if "\<And>t. sender_user_id (g t) = sender_user_id t \<and> receiver_user_id (g t) = receiver_user_id t \<and>
        filename (g t) = filename t \<and> tstate (g t) = tstate t \<and> file_handle (g t) = file_handle t" for uid rid name n k rn z cs g
    using r that by (auto simp: represents_def shows_transfer_def live_state_def)
  have created0: "represents res base (sv(?tid \<mapsto> ?new uid rid name))
      (snd (create_transfer uid n k rid rn name z cs (manager srv))) (store srv)" for uid rid name n k rn z cs
    using r by (auto simp: represents_def shows_transfer_def live_state_def)
  show ?thesis
  proof (cases "is_authenticated s \<and> (\<exists>m. FileOfferReq_deserialize p = Inr m)")
    case False
    with r show ?thesis
      by (auto simp: handle_file_offer_req_def wp_simps actor_def split: sum.split exn.split option.split)
  next
    case True
    then obtain m where m: "is_authenticated s" "FileOfferReq_deserialize p = Inr m" by blast
    let ?dir = "directory_of X srv" and ?name = "oreq_receiver_username m"
    have who: "service_next sound ?dir (actor s) FILE_OFFER_REQ p sv = serve_offer ?dir (sess_user_id s) m sv"
      using m by (simp add: actor_def)
    have nobody: "sv \<in> serve_offer ?dir (sess_user_id s) m sv" if "?dir ?name = None"
      using that by (simp add: serve_offer_def)
    have offered: "sv(?tid \<mapsto> ?new (sess_user_id s) rid (oreq_filename m)) \<in> serve_offer ?dir (sess_user_id s) m sv"
      if "?dir ?name = Some rid" for rid
      using none that by (auto simp: serve_offer_def)
    note steps = bexI [where P = "\<lambda>sv'. represents res base sv' _ _", OF r nobody]
      bexI [where P = "\<lambda>sv'. represents res base sv' _ _", OF created offered]
      bexI [where P = "\<lambda>sv'. represents res base sv' _ _", OF created0 offered]
    show ?thesis
      unfolding who using m steps
      by (auto simp: handle_file_offer_req_def wp_simps wp_def [of "get_user_by_username X _"] directory_of_def
          split: sum.split exn.split option.split)
  qed
qed

lemma message_serves:
  assumes sv: "serves res base sv srv" and paths: "paths_distinct res base" and res: "resolve os = res"
    and sound: "sound \<Longrightarrow> disk_ok os" and plain: "plain_offer t p"
  shows "keeps (\<lambda>srv'. \<exists>sv' \<in> service_next sound (directory_of X srv) (actor s) t p sv. srv_represents res base sv' srv')
    (handle_message X os base c s t p) srv"
proof -
  have r: "srv_represents res base sv srv" using sv by (simp add: serves_def)
  have other: "service_next sound (directory_of X srv) (actor s) t p sv = {sv}"
    if "t \<noteq> FILE_OFFER_REQ" "t \<noteq> FILE_ACCEPT_REQ" "t \<noteq> FILE_CHUNK" "t \<noteq> FILE_DONE"
    using that by (simp add: service_next_def split: option.split)
  have auth: "keeps (srv_represents res base sv) (handle_register_req X c p) srv"
    "keeps (srv_represents res base sv) (handle_login_req X c p) srv"
    using r
    by (auto simp: handle_register_req_def handle_login_req_def wp_simps Let_def
        wp_def [of "handle_register X _"] wp_def [of "handle_login X _"] split: sum.split exn.split)
  note file_messages = offer_serves [OF sv, where sound = sound and s = s and X = X and c = c and p = p]
    chunk_serves [OF sv paths sound, where dir = "directory_of X srv" and sound = sound and s = s and p = p]
    accept_serves [OF sv paths res sound, where dir = "directory_of X srv" and sound = sound and s = s and p = p and c = c]
    done_serves [OF sv paths res sound, where dir = "directory_of X srv" and sound = sound and s = s and p = p and c = c]
  show ?thesis
  proof (cases "t = FILE_OFFER_REQ \<or> t = FILE_ACCEPT_REQ \<or> t = FILE_CHUNK \<or> t = FILE_DONE")
    case True
    with plain file_messages show ?thesis
      by (elim disjE) (simp_all add: handle_message_def wp_simps del: service_next_simps)
  next
    case False
    with other r auth show ?thesis by (simp add: handle_message_def wp_simps del: service_next_simps)
  qed
qed

lemma message_names_distinct:
  assumes "stdio_wf (store srv)" and "names_distinct (store srv)"
  shows "keeps (\<lambda>srv'. names_distinct (store srv')) (handle_message X os base c s t p) srv"
proof (rule keeps_message)
  have opened: "names_distinct (snd (open_for_write os base tid name (store srv)))" for tid name
    using names_distinct_open [OF assms, of os base tid name "fst (open_for_write os base tid name (store srv))"
        "snd (open_for_write os base tid name (store srv))"] by simp
  show "keeps (\<lambda>srv'. names_distinct (store srv')) (handle_file_accept_req os base c s p) srv"
    using assms opened
    by (auto simp: handle_file_accept_req_def wp_simps case_prod_unfold Let_def split: sum.split exn.split option.split)
qed (use assms in \<open>auto simp: handle_register_req_def handle_login_req_def handle_file_offer_req_def
    handle_file_chunk_def handle_file_done_def wp_simps Let_def names_distinct_write names_distinct_finalize
    wp_def [of "handle_register X _"] wp_def [of "handle_login X _"] wp_def [of "get_user_by_username X _"]
    split: sum.split exn.split option.split\<close>)

section \<open>Runs\<close>

text \<open>
  A run of the server with the messages it handled, each with the user it came from and the users
  there were when it came; \<open>sound\<close> means that the disk takes what it is given.
\<close>

type_synonym request = "int option \<times> MsgType \<times> bytes"

definition requests :: "'w externals \<Rightarrow> 'w server \<Rightarrow> event \<Rightarrow> (request \<times> directory) list" where
  "requests X srv ev =
     (case message_of srv ev of
        None \<Rightarrow> []
      | Some (s, t, p) \<Rightarrow> [((actor s, t, p), directory_of X srv)])"

inductive served_run ::
  "'w externals \<Rightarrow> string \<Rightarrow> (string \<Rightarrow> string) \<Rightarrow> bool \<Rightarrow> 'w server \<Rightarrow> (request \<times> directory) list \<Rightarrow> 'w server
    \<Rightarrow> bool"
  for X :: "'w externals" and base :: string and res :: "string \<Rightarrow> string" and sound :: bool and srv0 :: "'w server" where
  stop: "served_run X base res sound srv0 [] srv0"
| step: "served_run X base res sound srv0 rs srv1 \<Longrightarrow> enabled srv1 ev \<Longrightarrow>
    run_event X os base ev srv1 = (Inr (), srv2) \<Longrightarrow> resolve os = res \<Longrightarrow> (sound \<longrightarrow> disk_ok os) \<Longrightarrow>
    next_transfer_id (manager srv1) \<noteq> - 1 \<Longrightarrow>
    (\<And>s t p. message_of srv1 ev = Some (s, t, p) \<Longrightarrow> plain_offer t p) \<Longrightarrow>
    served_run X base res sound srv0 (rs @ requests X srv1 ev) srv2"

fun service_runs :: "bool \<Rightarrow> (request \<times> directory) list \<Rightarrow> service \<Rightarrow> service set" where
  "service_runs sound [] sv = {sv}"
| "service_runs sound (((who, t, p), dir) # rs) sv =
     (\<Union>sv' \<in> service_next sound dir who t p sv. service_runs sound rs sv')"

lemma service_runs_append:
  "service_runs sound (rs @ rs') sv = (\<Union>sv' \<in> service_runs sound rs sv. service_runs sound rs' sv')"
  by (induction rs arbitrary: sv) (simp_all add: split_paired_all)

lemma serves_same: "same_files srv srv' \<Longrightarrow> serves res base sv srv = serves res base sv srv'"
  by (simp add: same_files_def serves_def transfers_ok_def)

lemma actor_same:
  "is_authenticated s = is_authenticated s' \<Longrightarrow> sess_user_id s = sess_user_id s' \<Longrightarrow> actor s = actor s'"
  by (simp add: actor_def)

lemma serves_step:
  assumes sv: "serves res base sv srv" and paths: "paths_distinct res base"
    and ev: "enabled srv ev" "run_event X os base ev srv = (Inr (), srv')" and res: "resolve os = res"
    and sound: "sound \<longrightarrow> disk_ok os" and ids: "next_transfer_id (manager srv) \<noteq> - 1"
    and plain: "\<And>s t p. message_of srv ev = Some (s, t, p) \<Longrightarrow> plain_offer t p"
  shows "\<exists>sv' \<in> service_runs sound (requests X srv ev) sv. serves res base sv' srv'"
proof -
  note sep = paths_distinct_separates [OF paths]
  have ok: "transfers_ok base srv" and wf: "stdio_wf (store srv)" and nd: "names_distinct (store srv)"
    using sv by (simp_all add: serves_def transfers_ok_def)
  obtain own where own: "srv_owned res base own srv" using sv by (auto simp: serves_def)
  have ok': "transfers_ok base srv'" by (rule transfers.inv_step [OF ok server_step.run [OF ev]])
  have own': "\<exists>own. srv_owned res base own srv'"
    using apart_step [OF ok own sep ev res ids, of "{}"] plain unfolding changes_def by auto
  from event_handled [OF ev] show ?thesis unfolding handled_def
  proof (elim disjE exE conjE)
    assume "message_of srv ev = None" "same_files srv srv'"
    then show ?thesis using sv serves_same [of srv srv' res base sv] by (simp add: requests_def)
  next
    fix c s s0 t p srv1 srv2
    assume 1: "message_of srv ev = Some (s0, t, p)" "is_authenticated s = is_authenticated s0"
      "sess_user_id s = sess_user_id s0" "same_files srv srv1"
      "handle_message X os base c s t p srv1 = (Inr (), srv2)" "same_files srv2 srv'"
    have sv1: "serves res base sv srv1" using sv serves_same [OF 1(4)] by simp
    have nd': "names_distinct (store srv')"
      using wp_apply [OF message_names_distinct 1(5)] sv1 1(6) by (simp add: serves_def transfers_ok_def same_files_def)
    have dir: "directory_of X srv1 = directory_of X srv" using 1(4) by (simp add: same_files_def directory_of_def fun_eq_iff)
    obtain sv' where sv': "sv' \<in> service_next sound (directory_of X srv) (actor s) t p sv" "srv_represents res base sv' srv2"
      using wp_apply [OF message_serves [OF sv1 paths res, where s = s and t = t and p = p] 1(5)] sound plain [OF 1(1)]
      unfolding dir by blast
    show ?thesis
      using nd' sv' ok' own' 1(1,6) actor_same [OF 1(2,3)] by (auto simp: serves_def requests_def same_files_def)
  qed
qed

lemma serves_run:
  assumes "served_run X base res sound srv0 rs srv" and "serves res base sv0 srv0" and "paths_distinct res base"
  shows "\<exists>sv \<in> service_runs sound rs sv0. serves res base sv srv"
  using assms(1)
proof (induction rule: served_run.induct)
  case stop
  with assms(2) show ?case by simp
next
  case (step rs srv1 ev os srv2)
  then obtain sv1 where sv1: "sv1 \<in> service_runs sound rs sv0" "serves res base sv1 srv1" by blast
  from serves_step [OF sv1(2) assms(3) step.hyps(2-6)] step.hyps(7)
  obtain sv2 where "sv2 \<in> service_runs sound (requests X srv1 ev) sv1" "serves res base sv2 srv2" by blast
  with sv1(1) show ?case by (auto simp: service_runs_append)
qed


section \<open>One transfer among others\<close>

text \<open>The requests that may act on transfer \<open>tid\<close> of sender \<open>u\<close> and receiver \<open>r\<close>.\<close>

fun request_of_transfer :: "u64 \<Rightarrow> int \<Rightarrow> int \<Rightarrow> request \<Rightarrow> bool" where
  "request_of_transfer tid u r (who, t, p) \<longleftrightarrow>
     (if t = FILE_CHUNK then who = Some u \<and>
        (case FileChunk_deserialize p of Inr m \<Rightarrow> chunk_transfer_id m = tid | Inl _ \<Rightarrow> False)
      else if t = FILE_DONE then who = Some u \<and>
        (case FileDone_deserialize p of Inr m \<Rightarrow> done_transfer_id m = tid | Inl _ \<Rightarrow> False)
      else t = FILE_ACCEPT_REQ \<and> who = Some r \<and>
        (case FileAcceptReq_deserialize p of Inr m \<Rightarrow> areq_transfer_id m = tid | Inl _ \<Rightarrow> False))"

text \<open>What such a request makes of the transfer.\<close>

fun serve_one :: "bool \<Rightarrow> request \<Rightarrow> served \<Rightarrow> served set" where
  "serve_one sound (who, t, p) a =
     (case who of
        None \<Rightarrow> {a}
      | Some uid \<Rightarrow>
          if t = FILE_ACCEPT_REQ then
            (case FileAcceptReq_deserialize p of Inl _ \<Rightarrow> {a} | Inr m \<Rightarrow> serve_accept sound uid (areq_accept m) a)
          else if t = FILE_CHUNK then
            (case FileChunk_deserialize p of Inl _ \<Rightarrow> {a} | Inr m \<Rightarrow> serve_chunk sound uid (chunk_data m) a)
          else if t = FILE_DONE then serve_done sound uid a
          else {a})"

fun serve_runs :: "bool \<Rightarrow> request list \<Rightarrow> served \<Rightarrow> served set" where
  "serve_runs sound [] a = {a}"
| "serve_runs sound (q # rs) a = (\<Union>a' \<in> serve_one sound q a. serve_runs sound rs a')"

lemma serve_one_parties:
  "a' \<in> serve_one sound q a \<Longrightarrow> sv_sender a' = sv_sender a \<and> sv_receiver a' = sv_receiver a"
  by (cases q) (auto simp: serve_accept_def serve_chunk_def serve_done_def split: option.splits sum.splits if_splits)

lemma service_at_other: "sv' \<in> service_at tid' f sv \<Longrightarrow> sv tid = Some a \<Longrightarrow> tid' \<noteq> tid \<Longrightarrow> sv' tid = Some a"
  by (auto simp: service_at_def split: option.splits)

lemma service_at_this: "sv' \<in> service_at tid f sv \<Longrightarrow> sv tid = Some a \<Longrightarrow> \<exists>a' \<in> f a. sv' tid = Some a'"
  by (auto simp: service_at_def)

lemma service_next_other:
  assumes "sv' \<in> service_next sound dir who t p sv" and "sv tid = Some a"
    and "\<not> request_of_transfer tid (sv_sender a) (sv_receiver a) (who, t, p)"
  shows "sv' tid = Some a"
  using assms
  by (auto simp: service_next_def serve_offer_def serve_accept_def serve_chunk_def serve_done_def service_at_def
      split: option.splits sum.splits if_splits)

lemma service_next_this:
  assumes "sv' \<in> service_next sound dir who t p sv" and "sv tid = Some a"
    and "request_of_transfer tid (sv_sender a) (sv_receiver a) (who, t, p)"
  shows "\<exists>a' \<in> serve_one sound (who, t, p) a. sv' tid = Some a'"
  using assms
  by (auto simp: service_next_def service_at_def split: option.splits sum.splits if_splits)

lemma service_runs_one:
  assumes "sv' \<in> service_runs sound rs sv" and "sv tid = Some a"
  shows "\<exists>a' \<in> serve_runs sound (filter (request_of_transfer tid (sv_sender a) (sv_receiver a)) (map fst rs)) a. sv' tid = Some a'"
  using assms
proof (induction rs arbitrary: sv a)
  case Nil
  then show ?case by simp
next
  case (Cons q rs)
  obtain who t p dir where q: "q = ((who, t, p), dir)" by (metis prod.collapse)
  with Cons.prems obtain sv1 where sv1: "sv1 \<in> service_next sound dir who t p sv" "sv' \<in> service_runs sound rs sv1" by auto
  show ?case
  proof (cases "request_of_transfer tid (sv_sender a) (sv_receiver a) (fst q)")
    case True
    with service_next_this [OF sv1(1) Cons.prems(2)] q
    obtain a1 where a1: "a1 \<in> serve_one sound (fst q) a" "sv1 tid = Some a1" by auto
    from Cons.IH [OF sv1(2) a1(2)] serve_one_parties [OF a1(1)] a1(1) True show ?thesis by auto
  next
    case False
    with service_next_other [OF sv1(1) Cons.prems(2)] q have "sv1 tid = Some a" by simp
    from Cons.IH [OF sv1(2) this] False show ?thesis by simp
  qed
qed

text \<open>An acceptance, the chunks and FILE_DONE, as requests.\<close>

fun chunk_requests :: "u64 \<Rightarrow> int \<Rightarrow> u32 \<Rightarrow> bytes list \<Rightarrow> request list" where
  "chunk_requests tid u n [] = []"
| "chunk_requests tid u n (b # bs) = (Some u, FILE_CHUNK, file_chunk_payload tid n b) # chunk_requests tid u (n + 1) bs"

definition upload_requests :: "u64 \<Rightarrow> int \<Rightarrow> int \<Rightarrow> bytes list \<Rightarrow> u32 \<Rightarrow> u64 \<Rightarrow> request list" where
  "upload_requests tid u r bs k z =
     (Some r, FILE_ACCEPT_REQ, file_accept_payload tid True) # chunk_requests tid u 0 bs @
     [(Some u, FILE_DONE, file_done_payload tid k z)]"

lemma payload_requests:
  "FileAcceptReq_deserialize (file_accept_payload tid b) = Inr \<lparr>areq_transfer_id = tid, areq_accept = b\<rparr>"
  "FileChunk_deserialize (file_chunk_payload tid n d) = Inr \<lparr>chunk_transfer_id = tid, chunk_index = n, chunk_data = d\<rparr>"
  "FileDone_deserialize (file_done_payload tid k z) = Inr \<lparr>done_transfer_id = tid, done_total_chunks = k, done_file_size = z\<rparr>"
  using FileAcceptReq_roundtrip FileChunk_roundtrip FileDone_roundtrip by (simp_all add: client_file_payloads)

lemma serve_chunk_requests:
  assumes "a' \<in> serve_runs True (chunk_requests tid u n bs @ rs) a" and "sv_sender a = u" and "sv_open a"
    and "sv_part a = Some got" and "\<forall>b \<in> set bs. b \<noteq> []"
  shows "a' \<in> serve_runs True rs (a\<lparr>sv_part := Some (got @ concat bs)\<rparr>)"
  using assms
proof (induction bs arbitrary: a n got)
  case Nil
  then show ?case by (cases a) simp
next
  case (Cons b bs)
  then have "a' \<in> serve_runs True (chunk_requests tid u (n + 1) bs @ rs) (a\<lparr>sv_part := Some (got @ b)\<rparr>)"
    by (simp add: payload_requests serve_chunk_def)
  from Cons.IH [OF this, of "got @ b"] Cons.prems show ?case by simp
qed

lemma serve_upload:
  assumes "a' \<in> serve_runs True (upload_requests tid (sv_sender a) (sv_receiver a) bs k z) a" and "\<forall>b \<in> set bs. b \<noteq> []"
  shows "sv_stored a' = Some (concat bs) \<and> sv_name a' = sv_name a"
proof -
  let ?a = "a\<lparr>sv_open := True, sv_part := Some []\<rparr>" and ?done = "(Some (sv_sender a), FILE_DONE, file_done_payload tid k z)"
  have "a' \<in> serve_runs True (chunk_requests tid (sv_sender a) 0 bs @ [?done]) ?a"
    using assms(1) by (simp add: upload_requests_def payload_requests serve_accept_def)
  from serve_chunk_requests [OF this _ _ _ assms(2), of "[]"]
  have "a' \<in> serve_runs True [?done] (?a\<lparr>sv_part := Some (concat bs)\<rparr>)" by simp
  then show ?thesis by (auto simp: serve_done_def)
qed

section \<open>Frames as requests\<close>

text \<open>A frame that is read from an idle connection is one request of its session.\<close>

lemma served_frame:
  assumes r: "served_run X base res sound srv0 rs srv" and s: "sessions srv c = Some s" "pending_read s = ReadHeader"
    and fits: "length p \<le> 16777216" "msg_type_of (msg_code t) = t" "plain_offer t p"
    and os: "resolve os = res" "sound \<longrightarrow> disk_ok os" and ids: "next_transfer_id (manager srv) \<noteq> - 1"
    and m: "message_body X os base c t p srv = (Inr (), srv')"
  shows "served_run X base res sound srv0 (rs @ [((actor s, t, p), directory_of X srv)]) srv'"
proof -
  let ?h = "header_bytes (make_header t (word_of_nat (length p)))"
  have en: "enabled srv (HeaderDone c False ?h)" using s by (simp add: HEADER_SIZE_def)
  have type: "msg_type_of (hdr_type (make_header t n)) = t" for n using fits(2) by (simp add: make_header_def)
  have len: "payload_len (make_header t (word_of_nat (length p))) = word_of_nat (length p)" by simp
  show ?thesis
  proof (cases "p = []")
    case True
    then have run: "run_event X os base (HeaderDone c False ?h) srv = (Inr (), srv')"
      using run_header_empty [OF s(1) fits(2), of X os base] m by simp
    have msg: "message_of srv (HeaderDone c False ?h) = Some (s, t, p)"
      using s True type by (simp add: HEADER_SIZE_def Let_def)
    from served_run.step [OF r en run os ids] msg fits(3) show ?thesis by (simp add: requests_def)
  next
    case False
    let ?srv = "modify_session c (reading_body t (length p)) srv"
    have zero: "(word_of_nat (length p) :: u32) \<noteq> 0"
      using False payload_length_ok(1) [OF fits(1)] by (metis length_0_conv unsigned_0)
    have msg: "message_of srv (HeaderDone c False ?h) = None"
      using s zero by (simp add: HEADER_SIZE_def Let_def)
    have r1: "served_run X base res sound srv0 rs ?srv"
      using served_run.step [OF r en run_header [OF s(1) False fits(1)] os ids] msg by (simp add: requests_def)
    have en1: "enabled ?srv (BodyDone c False p)" using s(1) by (simp add: reading_body_def)
    have run: "run_event X os base (BodyDone c False p) ?srv = (Inr (), srv')"
      using run_body [OF s(1) False fits(2)] m by simp
    have msg1: "message_of ?srv (BodyDone c False p) = Some (reading_body t (length p) s, t, p)"
      using s(1) type by (simp add: reading_body_def)
    have "actor (reading_body t (length p) s) = actor s"
      by (simp add: actor_def reading_body_def is_authenticated_def)
    moreover have "directory_of X ?srv = directory_of X srv" by (simp add: directory_of_def fun_eq_iff)
    ultimately show ?thesis using served_run.step [OF r1 en1 run os] ids msg1 fits(3) by (simp add: requests_def)
  qed
qed

lemma served_deliver:
  assumes r: "served_run X base res sound srv0 rs srv" and s: "sessions srv c = Some s" "pending_read s = ReadHeader"
    and fits: "length p \<le> 16777216" "msg_type_of (msg_code t) = t" "plain_offer t p"
    and os: "resolve os = res" "sound \<longrightarrow> disk_ok os" and ids: "next_transfer_id (manager srv) \<noteq> - 1"
    and d: "deliver X os base c (make_frame (msg_code t) p) srv = (Inr (), srv')"
  shows "served_run X base res sound srv0 (rs @ [((actor s, t, p), directory_of X srv)]) srv'"
proof -
  obtain r1 srv1 where m: "message_body X os base c t p srv = (r1, srv1)" by force
  with d deliver_frame [OF s fits(1,2), of X os base "[]"] make_frame_eq [of t p]
  have ok: "r1 = Inr ()" and d1: "deliver X os base c [] srv1 = (Inr (), srv')" by (auto split: sum.splits)
  with m message_body_reads_on [OF s(1)] deliver_nothing have "srv' = srv1" by (metis prod.inject)
  with served_frame [OF r s fits os ids] m ok show ?thesis by simp
qed

section \<open>Properties\<close>


text \<open>
  C3: Uploads do not get in each other's way. On a disk that takes what it is given, from a state
  of such a run on, let the receiver of a transfer accept it, its sender send chunks that are not
  empty, and then FILE_DONE, each once, while other users, and these two on other transfers, do
  whatever they like in between: then the final name of the transfer leads to a file that holds the
  chunks in the order in which they were sent.
\<close>

theorem interleaved_upload_stored:
  assumes "paths_distinct res base" and "serves res base sv0 srv0" and "served_run X base res True srv0 rs srv"
    and "get_transfer (manager srv0) tid = Some t"
    and "filter (request_of_transfer tid (sender_user_id t) (receiver_user_id t)) (map fst rs) =
      upload_requests tid (sender_user_id t) (receiver_user_id t) bs k z"
    and "\<forall>b \<in> set bs. b \<noteq> []"
  shows "\<exists>f. names (store srv) (res (c_str (get_file_path base tid (filename t)))) = Some f \<and>
    contents (store srv) f = concat bs"
proof -
  obtain a where a: "sv0 tid = Some a" "shows_transfer res base (store srv0) tid a t"
    by (rule serves_transfer [OF assms(2,4)])
  then have p: "sv_sender a = sender_user_id t" "sv_receiver a = receiver_user_id t" "sv_name a = filename t"
    by (simp_all add: shows_transfer_def)
  obtain sv where sv: "sv \<in> service_runs True rs sv0" "serves res base sv srv"
    using serves_run [OF assms(3,2,1)] by blast
  from service_runs_one [OF sv(1) a(1)] assms(5) p obtain a' where a': "sv tid = Some a'"
    "a' \<in> serve_runs True (upload_requests tid (sv_sender a) (sv_receiver a) bs k z) a" by auto
  obtain t' where "get_transfer (manager srv) tid = Some t'" "shows_transfer res base (store srv) tid a' t'"
    using sv(2) a'(1) represents_parties [of res base sv "manager srv" "store srv" tid a']
    unfolding serves_def represents_def by blast
  with serve_upload [OF a'(2) assms(6)] p(3) show ?thesis by (auto simp: shows_transfer_def)
qed

section \<open>Witnesses\<close>

lemma next_id_mark: "next_transfer_id (snd (mark_chunk_received tid i n tm)) = next_transfer_id tm"
  by (simp add: snd_mark_chunk)

lemma chunk_next_id:
  assumes "message_body X os base c FILE_CHUNK p srv = (Inr (), srv')"
  shows "next_transfer_id (manager srv') = next_transfer_id (manager srv)"
proof -
  let ?srv1 = "modify_session c (stored_frame FILE_CHUNK p) srv"
  have h: "keeps (\<lambda>srv'. next_transfer_id (manager srv') = next_transfer_id (manager srv0)) (handle_file_chunk os s p) srv0"
    for s and srv0 :: "'a server"
    by (auto simp: handle_file_chunk_def wp_simps next_id_mark split: sum.split exn.split option.split)
  show ?thesis
  proof (cases "sessions ?srv1 c")
    case None
    with assms show ?thesis by (auto simp: message_body_def Let_def)
  next
    case (Some s)
    with assms obtain srv2 where "handle_file_chunk os s p ?srv1 = (Inr (), srv2)" "srv' = do_read_header c srv2"
      by (auto simp: message_body_def handle_message_def sbind_def split: prod.splits sum.splits)
    with wp_apply [OF h this(1)] show ?thesis by (simp add: do_read_header_def)
  qed
qed

text \<open>Runs by their requests only.\<close>

definition requested ::
  "'w externals \<Rightarrow> string \<Rightarrow> (string \<Rightarrow> string) \<Rightarrow> bool \<Rightarrow> 'w server \<Rightarrow> request list \<Rightarrow> 'w server \<Rightarrow> bool" where
  "requested X base res sound srv0 rs srv \<longleftrightarrow> (\<exists>rs'. served_run X base res sound srv0 rs' srv \<and> map fst rs' = rs)"

lemma requested_stop: "requested X base res sound srv [] srv"
  unfolding requested_def by (intro exI [of _ "[]"]) (simp add: served_run.stop)

lemma requested_frame:
  assumes "requested X base res sound srv0 rs srv" and s: "sessions srv c = Some s" "pending_read s = ReadHeader"
    and fits: "length p \<le> 16777216" "msg_type_of (msg_code t) = t" "plain_offer t p"
    and os: "resolve os = res" "sound \<longrightarrow> disk_ok os" and ids: "next_transfer_id (manager srv) \<noteq> - 1"
    and m: "message_body X os base c t p srv = (Inr (), srv')"
  shows "requested X base res sound srv0 (rs @ [(actor s, t, p)]) srv'"
proof -
  obtain rs' where "served_run X base res sound srv0 rs' srv" "map fst rs' = rs"
    using assms(1) by (auto simp: requested_def)
  with served_frame [OF _ s fits os ids m] show ?thesis
    unfolding requested_def by (intro exI [of _ "rs' @ [((actor s, t, p), directory_of X srv)]"]) simp
qed

lemma requested_deliver:
  assumes "requested X base res sound srv0 rs srv" and s: "sessions srv c = Some s" "pending_read s = ReadHeader"
    and fits: "length p \<le> 16777216" "msg_type_of (msg_code t) = t" "plain_offer t p"
    and os: "resolve os = res" "sound \<longrightarrow> disk_ok os" and ids: "next_transfer_id (manager srv) \<noteq> - 1"
    and d: "deliver X os base c (make_frame (msg_code t) p) srv = (Inr (), srv')"
  shows "requested X base res sound srv0 (rs @ [(actor s, t, p)]) srv'"
proof -
  obtain rs' where "served_run X base res sound srv0 rs' srv" "map fst rs' = rs"
    using assms(1) by (auto simp: requested_def)
  with served_deliver [OF _ s fits os ids d] show ?thesis
    unfolding requested_def by (intro exI [of _ "rs' @ [((actor s, t, p), directory_of X srv)]"]) simp
qed



text \<open>Alice's offer to Bob (\<open>offering_server\<close>); Bob sends a chunk, too, which is not for him to send.\<close>

lemma offering_serves:
  "serves (\<lambda>p. p) ''d'' [1 \<mapsto> \<lparr>sv_sender = 1, sv_receiver = 2, sv_name = ''a.txt'', sv_open = False, sv_part = None,
     sv_stored = None\<rparr>] offering_server"
proof -
  have st: "store offering_server = stdio_init"
    by (simp add: offering_server_def scenario_start_def server_init_def on_accept_def TcpSession_start_def
        do_read_header_def Let_def)
  have get: "get_transfer (manager offering_server) tid = (if tid = 1 then Some (sample_transfer\<lparr>transfer_id := 1,
      sender_token := scenario_token 0, tstate := OFFERED, temp_file_path := get_temp_path ''d'' 1 ''a.txt'',
      final_file_path := get_file_path ''d'' 1 ''a.txt'', file_handle := None\<rparr>) else None)" for tid
    by (simp add: offering_server_def get_transfer_def)
  have "transfers_ok ''d'' offering_server"
    by (simp add: transfers_ok_def st stdio_wf_init tm_wf_def handles_ok_def paths_ok_def live_state_def get sample_transfer_def)
      (simp add: offering_server_def sample_transfer_def)
  moreover have "srv_owned (\<lambda>p. p) ''d'' (\<lambda>_. 0) offering_server"
    by (simp add: owned_def ids_fresh_def plain_names_def names_owned_def streams_owned_def get st stdio_init_def
        sample_transfer_def plain_name_def) (simp add: offering_server_def)
  moreover have "names_distinct (store offering_server)" by (simp add: names_distinct_def st stdio_init_def)
  ultimately show ?thesis
    by (auto simp: serves_def represents_def shows_transfer_def get live_state_def sample_transfer_def)
qed

theorem interleaved_upload_stored_witness:
  "\<exists>srv rs f. served_run ref_externals ''d'' (\<lambda>p. p) True offering_server rs srv \<and>
    (Some 2, FILE_CHUNK, file_chunk_payload 1 0 [9]) \<in> set (map fst rs) \<and>
    names (store srv) (get_file_path ''d'' 1 ''a.txt'') = Some f \<and> contents (store srv) f = [1, 2, 3]"
proof -
  note One_nat_def [simp del]
  let ?run = "\<lambda>rs. requested ref_externals ''d'' (\<lambda>p. p) True offering_server rs"
  have os: "resolve sample_os = (\<lambda>p. p)" "True \<longrightarrow> disk_ok sample_os" using sample_disk_ok by (simp_all add: sample_os_def)
  let ?sa = "set_auth (scenario_token 0) 1 ''alice'' (TcpSession_new\<lparr>pending_read := ReadHeader\<rparr>)"
    and ?sb = "set_auth ''b'' 2 ''bob'' (TcpSession_new\<lparr>pending_read := ReadHeader\<rparr>)"
  have s: "sessions offering_server 0 = Some ?sa" "sessions offering_server 1 = Some ?sb"
    "pending_read ?sb = ReadHeader" "actor ?sb = Some 2"
    by (simp_all add: offering_server_def set_auth_def actor_def is_authenticated_def)
  have conn: "connected 0 1 [] ReadHeader offering_server" "connected 1 2 [] ReadHeader offering_server"
    using scenario_tokens(1) by (simp_all add: connected_def s) (simp_all add: set_auth_def TcpSession_new_def is_authenticated_def)
  have off: "offered ''d'' 1 ''a.txt'' 1 2 (scenario_token 0) (manager offering_server)"
    by (simp add: offered_def offering_server_def get_transfer_def sample_transfer_def)
  have g: "get_session (sessions offering_server) (registry offering_server) (scenario_token 0) = Some 0"
    using s(1) by (simp add: get_session_Some) (simp add: offering_server_def)
  have id0: "next_transfer_id (manager offering_server) = 2" by (simp add: offering_server_def)
  have neq: "(0 :: nat) \<noteq> 1" by simp
  obtain srv1 h f0 where m1: "message_body ref_externals sample_os ''d'' 1 FILE_ACCEPT_REQ (file_accept_payload 1 True)
      offering_server = (Inr (), srv1)"
    and r1: "receiving sample_os ''d'' 1 ''a.txt'' 1 h f0 [] 0 (manager srv1) (store srv1)"
    and c1: "connected 0 1 ([] @ [accept_frame]) ReadHeader srv1" "connected 1 2 ([] @ [accept_frame]) ReadHeader srv1"
    and id1: "next_transfer_id (manager srv1) = next_transfer_id (manager offering_server)"
    by (rule message_accept [OF sample_disk_ok off conn neq scenario_tokens(1) g]) (rule that)
  have run1: "?run [(Some 2, FILE_ACCEPT_REQ, file_accept_payload 1 True)] srv1"
    using requested_frame [OF requested_stop s(2,3) _ _ _ os _ m1] id0 s(4) by (simp add: file_accept_payload_def plain_offer_def)
  obtain t where t: "get_transfer (manager srv1) 1 = Some t" "sender_user_id t \<noteq> 2" using r1 by (auto simp: receiving_def)
  from dropped_message [OF t(1) disjI1 [OF t(2)] c1(2), of FILE_CHUNK "file_chunk_payload 1 0 [9]" 0 "[9]" _ _ ref_externals sample_os "''d''"]
  obtain srv2 where m2: "message_body ref_externals sample_os ''d'' 1 FILE_CHUNK (file_chunk_payload 1 0 [9]) srv1 = (Inr (), srv2)"
    and i2: "ignored 1 2 [accept_frame] srv1 srv2" by auto
  obtain s1 where s1: "sessions srv1 1 = Some s1" "pending_read s1 = ReadHeader" "actor s1 = Some 2"
    using c1(2) by (auto simp: connected_def actor_def)
  have run2: "?run [(Some 2, FILE_ACCEPT_REQ, file_accept_payload 1 True), (Some 2, FILE_CHUNK, file_chunk_payload 1 0 [9])] srv2"
    using requested_frame [OF run1 s1(1,2) _ _ _ os _ m2] id0 id1 s1(3) by (simp add: file_chunk_payload_def plain_offer_def)
  have r2: "receiving sample_os ''d'' 1 ''a.txt'' 1 h f0 [] 0 (manager srv2) (store srv2)"
    and c2: "connected 0 1 [accept_frame] ReadHeader srv2" and id2: "next_transfer_id (manager srv2) = 2"
    using r1 c1(1) i2 id0 id1 by (simp_all add: ignored_def connected_def)
  obtain srv3 where m3: "message_body ref_externals sample_os ''d'' 0 FILE_CHUNK (file_chunk_payload 1 0 [1, 2, 3]) srv2 = (Inr (), srv3)"
    and r3: "receiving sample_os ''d'' 1 ''a.txt'' 1 h f0 ([] @ [1, 2, 3]) (0 + 1) (manager srv3) (store srv3)"
    and c3: "connected 0 1 [accept_frame] ReadHeader srv3"
    by (rule message_chunk [OF sample_disk_ok r2 c2, where X = ref_externals and d = "[1, 2, 3]"]) (simp, rule that)
  obtain s2 where s2: "sessions srv2 0 = Some s2" "pending_read s2 = ReadHeader" "actor s2 = Some 1"
    using c2 by (auto simp: connected_def actor_def)
  have run3: "?run [(Some 2, FILE_ACCEPT_REQ, file_accept_payload 1 True), (Some 2, FILE_CHUNK, file_chunk_payload 1 0 [9]),
      (Some 1, FILE_CHUNK, file_chunk_payload 1 0 [1, 2, 3])] srv3"
    using requested_frame [OF run2 s2(1,2) _ _ _ os _ m3] id2 s2(3) by (simp add: file_chunk_payload_def plain_offer_def)
  obtain s3 where s3: "sessions srv3 0 = Some s3" "pending_read s3 = ReadHeader" "actor s3 = Some 1"
    using c3 by (auto simp: connected_def actor_def)
  obtain srv4 where d4: "deliver ref_externals sample_os ''d'' 0 (make_file_done 1 1 3) srv3 = (Inr (), srv4)"
    by (rule deliver_done [OF sample_disk_ok r3 c3, where k = 1 and z = 3]) (rule that)
  have run4: "?run [(Some 2, FILE_ACCEPT_REQ, file_accept_payload 1 True), (Some 2, FILE_CHUNK, file_chunk_payload 1 0 [9]),
      (Some 1, FILE_CHUNK, file_chunk_payload 1 0 [1, 2, 3]), (Some 1, FILE_DONE, file_done_payload 1 1 3)] srv4"
    using requested_deliver [OF run3 s3(1,2) _ _ _ os, of "file_done_payload 1 1 3" FILE_DONE srv4] d4 id2 chunk_next_id [OF m3] s3(3)
    by (simp add: file_done_payload_def plain_offer_def make_file_done_def)
  then obtain rs where rs: "served_run ref_externals ''d'' (\<lambda>p. p) True offering_server rs srv4"
    "map fst rs = [(Some 2, FILE_ACCEPT_REQ, file_accept_payload 1 True), (Some 2, FILE_CHUNK, file_chunk_payload 1 0 [9]),
      (Some 1, FILE_CHUNK, file_chunk_payload 1 0 [1, 2, 3]), (Some 1, FILE_DONE, file_done_payload 1 1 3)]"
    by (auto simp: requested_def)
  have t0: "get_transfer (manager offering_server) 1 = Some (sample_transfer\<lparr>transfer_id := 1,
      sender_token := scenario_token 0, tstate := OFFERED, temp_file_path := get_temp_path ''d'' 1 ''a.txt'',
      final_file_path := get_file_path ''d'' 1 ''a.txt'', file_handle := None\<rparr>)"
    by (simp add: offering_server_def get_transfer_def)
  have "c_str (get_file_path ''d'' 1 ''a.txt'') = get_file_path ''d'' 1 ''a.txt''"
    by (intro c_str_file_path) (simp_all add: plain_name_def)
  then have "\<exists>f. names (store srv4) (get_file_path ''d'' 1 ''a.txt'') = Some f \<and> contents (store srv4) f = [1, 2, 3]"
    using interleaved_upload_stored [OF paths_distinct_id offering_serves rs(1) t0, of "[[1, 2, 3]]" 1 3]
    by (simp add: upload_requests_def payload_requests sample_transfer_def rs(2))
  with rs show ?thesis by (intro exI [of _ srv4] exI [of _ rs]) simp
qed

end
