(* ===== verification/FsxFullDisk.thy ===== *)
theory FsxFullDisk
  imports FsxRelogin
begin

text \<open>
  A disk that is full during an upload, so that \<open>fwrite\<close> takes less than it is given or \<open>fflush\<close> fails: what \<open>handle_file_chunk\<close> and
  \<open>handle_file_done\<close> make of it, and what the sender is told.
\<close>

text \<open>
  A chunk of which only a part is taken fails the transfer; the part stays in the file or in the
  buffer of the stream.
\<close>

lemma message_chunk_fails:
  assumes rec: "receiving os base tid name uid h f got n (manager srv) (store srv)"
    and "connected c uid q ReadHeader srv" and short: "fwrite_takes os (length d) < length d"
  obtains srv' t where "message_body X os base c FILE_CHUNK (file_chunk_payload tid i d) srv = (Inr (), srv')"
    and "get_transfer (manager srv') tid = Some t" "sender_user_id t = uid" "filename t = name" "tstate t = FAILED"
      "final_file_path t = get_file_path base tid name" "file_handle t = Some h"
    and "streams (store srv') h = Some (f, length (contents (store srv') f))"
      "names (store srv') (resolve os (c_str (get_temp_path base tid name))) = Some f"
      "contents (store srv') f @ buffer (store srv') h = got @ take (fwrite_takes os (length d)) d"
    and "connected c uid q ReadHeader srv'"
proof -
  obtain s where s: "sessions srv c = Some s" "is_authenticated s" "sess_user_id s = uid" "outq s = q"
    using assms(2) by (auto simp: connected_def)
  obtain t where t: "get_transfer (manager srv) tid = Some t" "sender_user_id t = uid" "live_state (tstate t)"
    "filename t = name" "final_file_path t = get_file_path base tid name" "file_handle t = Some h"
    and st: "streams (store srv) h = Some (f, length got)"
      "names (store srv) (resolve os (c_str (get_temp_path base tid name))) = Some f" "contents (store srv) f = got"
      "buffer (store srv) h = []"
    using rec by (auto simp: receiving_def)
  let ?p = "file_chunk_payload tid i d"
  let ?st = "snd (fwrite os h d (store srv))"
  let ?srv1 = "modify_session c (stored_frame FILE_CHUNK ?p) srv"
  let ?srv2 = "?srv1\<lparr>store := ?st, manager := modify_transfer tid (\<lambda>s. s\<lparr>tstate := FAILED\<rparr>) (manager srv)\<rparr>"
  have w: "write_chunk os (Some h) d (store srv) = (Inr (- 1), ?st)"
    using short st(1) by (auto simp: write_chunk_def fwrite_def Let_def)
  have "written_to (store srv) (Some h) = Some got" using st by (simp add: written_to_Some)
  from written_fwrite [OF this, of os d] touches_stream [OF touches_fwrite [where st = "store srv" and h = h and os = os and d = d], of h f] st(1)
  have st': "streams ?st h = Some (f, length (contents ?st f))"
    "contents ?st f @ buffer ?st h = got @ take (fwrite_takes os (length d)) d"
    by (auto simp: written_to_Some)
  have names': "names ?st = names (store srv)"
    using touches_fwrite [where st = "store srv" and h = h and os = os and d = d] by (simp add: touches_def)
  have des: "FileChunk_deserialize ?p = Inr \<lparr>chunk_transfer_id = tid, chunk_index = i, chunk_data = d\<rparr>"
    using FileChunk_roundtrip by (simp add: client_file_payloads)
  have "handle_file_chunk os (stored_frame FILE_CHUNK ?p s) ?p ?srv1 = (Inr (), ?srv2)"
    using s t des w
    by (intro wp_run) (auto simp: handle_file_chunk_def wp_simps stored_frame_def is_authenticated_def live_state_def)
  then have m: "message_body X os base c FILE_CHUNK ?p srv = (Inr (), do_read_header c ?srv2)"
    using s(1) by (simp add: message_body_def handle_message_def sbind_def)
  show thesis
    using s t st(2) st' names'
    by (intro that [OF m, of "t\<lparr>tstate := FAILED\<rparr>"])
      (simp_all add: do_read_header_def connected_def stored_frame_def is_authenticated_def)
qed

text \<open>
  C27: When one chunk of an upload is not written completely, the transfer fails, and nobody is told:
  the rest of the upload is dropped without an answer, and the FILE_DONE that ends it stores the
  part that did arrive under the final name, completes the transfer, and answers with success.
\<close>

theorem truncated_upload_reported_stored:
  assumes "receiving os1 base tid name uid h f got n (manager srv) (store srv)" and "connected c uid q ReadHeader srv"
    and "fwrite_takes os1 (length d) < length d" and "length d \<le> 16777204"
    and "disk_ok os" and "resolve os = resolve os1" and "\<forall>b \<in> set bs. length b \<le> 16777204"
  shows "\<exists>srv1 srv2 t. deliver X os1 base c (make_file_chunk tid i d) srv = (Inr (), srv1) \<and>
    deliver X os base c (concat (chunk_frames tid (i + 1) bs) @ make_file_done tid k z) srv1 = (Inr (), srv2) \<and>
    get_transfer (manager srv2) tid = Some t \<and> tstate t = COMPLETED \<and>
    names (store srv2) (resolve os (c_str (get_file_path base tid name))) = Some f \<and>
    contents (store srv2) f = got @ take (fwrite_takes os1 (length d)) d \<and>
    connected c uid (q @ [result_frame base tid name]) ReadHeader srv2"
proof -
  have idle: "connected c uid q' ReadHeader srv' \<Longrightarrow> deliver X os' base c [] srv' = (Inr (), srv')" for q' srv' os'
    by (subst deliver.simps) (auto simp: next_read_def connected_def HEADER_SIZE_def)
  have session: "\<exists>s. sessions srv' c = Some s \<and> pending_read s = ReadHeader" if "connected c uid q' ReadHeader srv'" for q' srv'
    using that by (auto simp: connected_def)
  obtain srv1 t where m: "message_body X os1 base c FILE_CHUNK (file_chunk_payload tid i d) srv = (Inr (), srv1)"
    and t: "get_transfer (manager srv1) tid = Some t" "sender_user_id t = uid" "filename t = name" "tstate t = FAILED"
      "final_file_path t = get_file_path base tid name" "file_handle t = Some h"
    and st: "streams (store srv1) h = Some (f, length (contents (store srv1) f))"
      "names (store srv1) (resolve os1 (c_str (get_temp_path base tid name))) = Some f"
      "contents (store srv1) f @ buffer (store srv1) h = got @ take (fwrite_takes os1 (length d)) d"
    and c1: "connected c uid q ReadHeader srv1"
    by (rule message_chunk_fails [OF assms(1-3)])
  have d1: "deliver X os1 base c (make_file_chunk tid i d) srv = (Inr (), srv1)"
    using session [OF assms(2)] deliver_frame [of srv c _ "file_chunk_payload tid i d" FILE_CHUNK X os1 base "[]"]
      m idle [OF c1] assms(4) make_frame_eq [of FILE_CHUNK]
    by (auto simp: make_file_chunk_def file_chunk_payload_def)
  have ren: "\<And>p q. rename_ok os p q" and "\<And>n. n \<le> fflush_through os n"
    using assms(5) by (simp_all add: disk_ok_def)
  then have flushed: "take (fflush_through os (length b)) b = b" for b :: bytes by simp
  have dead: "\<not> live_state (tstate t)" by (simp add: t(4) live_state_def)
  obtain srv2 where d2: "deliver X os base c (concat (chunk_frames tid (i + 1) bs) @ make_file_done tid k z) srv1 =
      deliver X os base c (make_file_done tid k z) srv2" and i2: "ignored c uid q srv1 srv2"
    using dropped_chunks [OF t(1) disjI2 [OF dead] c1 assms(7)] by blast
  have c2: "connected c uid q ReadHeader srv2" and t2: "get_transfer (manager srv2) tid = Some t"
    and st2: "streams (store srv2) h = Some (f, length (contents (store srv2) f))"
      "names (store srv2) (resolve os (c_str (get_temp_path base tid name))) = Some f" "store srv2 = store srv1"
    using i2 t(1) st assms(6) by (simp_all add: ignored_def)
  obtain srv3 where m3: "message_body X os base c FILE_DONE (file_done_payload tid k z) srv2 = (Inr (), srv3)"
    and r3: "get_transfer (manager srv3) tid = Some (t\<lparr>tstate := COMPLETED\<rparr>)"
      "names (store srv3) (resolve os (c_str (get_file_path base tid name))) = Some f"
      "contents (store srv3) f = contents (store srv2) f @
         take (fflush_through os (length (buffer (store srv2) h))) (buffer (store srv2) h)"
      "connected c uid (q @ [result_frame base tid name]) ReadHeader srv3"
    by (rule message_done_any [OF ren c2 t2 t(2,3,5,6) st2(1,2)])
  have d3: "deliver X os base c (make_file_done tid k z) srv2 = (Inr (), srv3)"
    using session [OF c2] deliver_frame [of srv2 c _ "file_done_payload tid k z" FILE_DONE X os base "[]"]
      m3 idle [OF r3(4)] make_frame_eq [of FILE_DONE]
    by (auto simp: make_file_done_def file_done_payload_def)
  show ?thesis
    using d1 d2 d3 r3 [unfolded flushed] st(3) st2(3) by (intro exI [of _ srv1] exI [of _ srv3]) simp
qed

theorem truncated_upload_reported_stored_witness:
  "\<exists>srv srv1 srv2 os f q. reachable ref_externals ''d'' scenario_world srv \<and>
    deliver ref_externals os ''d'' 0 (make_file_chunk 1 0 [1, 2, 3]) srv = (Inr (), srv1) \<and>
    deliver ref_externals sample_os ''d'' 0 (make_file_chunk 1 1 [4] @ make_file_done 1 2 4) srv1 = (Inr (), srv2) \<and>
    contents (store srv2) f = [1] \<and> connected 0 1 (q @ [result_frame ''d'' 1 ''a.txt'']) ReadHeader srv2"
proof -
  let ?os1 = "sample_os\<lparr>fwrite_takes := \<lambda>_. 1\<rparr>"
  obtain srv h f q where r: "reachable ref_externals ''d'' scenario_world srv"
    and rec: "receiving sample_os ''d'' 1 ''a.txt'' 1 h f [] 0 (manager srv) (store srv)"
    and c: "connected 0 1 q ReadHeader srv"
    by (rule scenario_until_accepted)
  from rec have rec1: "receiving ?os1 ''d'' 1 ''a.txt'' 1 h f [] 0 (manager srv) (store srv)"
    by (simp add: receiving_def)
  have short: "fwrite_takes ?os1 (length [1, 2, 3 :: u8]) < length [1, 2, 3 :: u8]" by simp
  from truncated_upload_reported_stored [OF rec1 c short _ sample_disk_ok _, of "[[4]]" ref_externals 0 2 4] r
  show ?thesis by auto
qed

section \<open>A flush that fails\<close>

text \<open>
  When the bytes of a chunk cannot leave the buffer, the chunk counts as received all the same:
  \<open>write_chunk\<close> only logs that \<open>fflush\<close> failed.
\<close>

lemma message_chunk_unflushed:
  assumes rec: "receiving os base tid name uid h f got n (manager srv) (store srv)"
    and "connected c uid q ReadHeader srv" and d: "d \<noteq> []" "length d \<le> fwrite_takes os (length d)"
    and stuck: "fwrite_through os (length d) = 0" "fflush_through os (length d) = 0"
  obtains srv' t where "message_body X os base c FILE_CHUNK (file_chunk_payload tid n d) srv = (Inr (), srv')"
    and "get_transfer (manager srv') tid = Some t" "sender_user_id t = uid" "filename t = name" "expected_chunk_index t = n + 1"
      "final_file_path t = get_file_path base tid name" "file_handle t = Some h"
    and "streams (store srv') h = Some (f, length (contents (store srv') f))"
      "names (store srv') (resolve os (c_str (get_temp_path base tid name))) = Some f"
      "contents (store srv') f = got" "buffer (store srv') h = d"
    and "connected c uid q ReadHeader srv'"
proof -
  obtain s where s: "sessions srv c = Some s" "is_authenticated s" "sess_user_id s = uid" "outq s = q"
    using assms(2) by (auto simp: connected_def)
  obtain t where t: "get_transfer (manager srv) tid = Some t" "sender_user_id t = uid" "live_state (tstate t)"
    "filename t = name" "final_file_path t = get_file_path base tid name" "file_handle t = Some h"
    "expected_chunk_index t = n"
    and st: "streams (store srv) h = Some (f, length (contents (store srv) f))"
      "names (store srv) (resolve os (c_str (get_temp_path base tid name))) = Some f" "contents (store srv) f = got"
      "buffer (store srv) h = []"
    using rec by (auto simp: receiving_def)
  let ?p = "file_chunk_payload tid n d"
  let ?st = "(store srv)\<lparr>buffer := (buffer (store srv))(h := d)\<rparr>"
  let ?srv1 = "modify_session c (stored_frame FILE_CHUNK ?p) srv"
  let ?srv2 = "?srv1\<lparr>store := ?st, manager := snd (mark_chunk_received tid n (length d) (manager srv))\<rparr>"
  have same: "(contents (store srv))(f := contents (store srv) f) = contents (store srv)"
    "(streams (store srv))(h \<mapsto> (f, length (contents (store srv) f))) = streams (store srv)"
    using st(1) by auto
  have "fwrite os h d (store srv) = (Inr (length d), ?st)"
    using fwrite_at_end [OF st(1), of os d] d(2) st(4) stuck(1) same by (simp add: Let_def min_absorb2)
  moreover have "fflush os h ?st = (Inr False, ?st)"
    using fflush_at_end [of ?st h f os] d(1) st(1) stuck(2) same by (simp add: Let_def)
  ultimately have w: "write_chunk os (Some h) d (store srv) = (Inr (int (length d)), ?st)"
    using d(1) by (simp add: write_chunk_def)
  have des: "FileChunk_deserialize ?p = Inr \<lparr>chunk_transfer_id = tid, chunk_index = n, chunk_data = d\<rparr>"
    using FileChunk_roundtrip by (simp add: client_file_payloads)
  have "handle_file_chunk os (stored_frame FILE_CHUNK ?p s) ?p ?srv1 = (Inr (), ?srv2)"
    using s t des w
    by (intro wp_run) (auto simp: handle_file_chunk_def wp_simps stored_frame_def is_authenticated_def live_state_def)
  then have m: "message_body X os base c FILE_CHUNK ?p srv = (Inr (), do_read_header c ?srv2)"
    using s(1) by (simp add: message_body_def handle_message_def sbind_def)
  have "get_transfer (snd (mark_chunk_received tid n (length d) (manager srv))) tid =
      Some (t\<lparr>expected_chunk_index := n + 1, bytes_received := bytes_received t + word_of_nat (length d), tstate := RECEIVING\<rparr>)"
    using t(1,3,7) by (auto simp: snd_mark_chunk live_state_def)
  with s t st show thesis
    by (intro that [OF m, of "t\<lparr>expected_chunk_index := n + 1,
          bytes_received := bytes_received t + word_of_nat (length d), tstate := RECEIVING\<rparr>"])
      (simp_all add: do_read_header_def connected_def stored_frame_def is_authenticated_def)
qed

text \<open>
  The file that FILE_DONE then stores, and reports as stored, lacks the chunk, because nobody looks
  at what \<open>fclose\<close> answers either.
\<close>

theorem lost_flush_reported_stored:
  assumes "receiving os base tid name uid h f got n (manager srv) (store srv)" and "connected c uid q ReadHeader srv"
    and "d \<noteq> []" and "length d \<le> fwrite_takes os (length d)" and "length d \<le> 16777204"
    and "fwrite_through os (length d) = 0" and "fflush_through os (length d) = 0" and "\<And>p q. rename_ok os p q"
  shows "\<exists>srv' t. deliver X os base c (make_file_chunk tid n d @ make_file_done tid k z) srv = (Inr (), srv') \<and>
    get_transfer (manager srv') tid = Some t \<and> tstate t = COMPLETED \<and> expected_chunk_index t = n + 1 \<and>
    names (store srv') (resolve os (c_str (get_file_path base tid name))) = Some f \<and>
    contents (store srv') f = got \<and> connected c uid (q @ [result_frame base tid name]) ReadHeader srv'"
proof -
  obtain srv1 t where m: "message_body X os base c FILE_CHUNK (file_chunk_payload tid n d) srv = (Inr (), srv1)"
    and t: "get_transfer (manager srv1) tid = Some t" "sender_user_id t = uid" "filename t = name" "expected_chunk_index t = n + 1"
      "final_file_path t = get_file_path base tid name" "file_handle t = Some h"
    and st: "streams (store srv1) h = Some (f, length (contents (store srv1) f))"
      "names (store srv1) (resolve os (c_str (get_temp_path base tid name))) = Some f"
      "contents (store srv1) f = got" "buffer (store srv1) h = d"
    and c1: "connected c uid q ReadHeader srv1"
    by (rule message_chunk_unflushed [OF assms(1-4,6,7)])
  obtain srv2 where m2: "message_body X os base c FILE_DONE (file_done_payload tid k z) srv1 = (Inr (), srv2)"
    and 2: "get_transfer (manager srv2) tid = Some (t\<lparr>tstate := COMPLETED\<rparr>)"
      "names (store srv2) (resolve os (c_str (get_file_path base tid name))) = Some f"
      "contents (store srv2) f = contents (store srv1) f @
         take (fflush_through os (length (buffer (store srv1) h))) (buffer (store srv1) h)"
      "connected c uid (q @ [result_frame base tid name]) ReadHeader srv2"
    by (rule message_done_any [OF assms(8) c1 t(1-3,5,6) st(1,2)])
  obtain s s1 where s: "sessions srv c = Some s" "pending_read s = ReadHeader"
    "sessions srv1 c = Some s1" "pending_read s1 = ReadHeader"
    using assms(2) c1 by (auto simp: connected_def)
  have len: "length (file_chunk_payload tid n d) \<le> 16777216" "length (file_done_payload tid k z) \<le> 16777216"
    using assms(5) by (simp_all add: file_chunk_payload_def file_done_payload_def)
  have "deliver X os base c [] srv2 = (Inr (), srv2)"
    using 2(4) by (subst deliver.simps) (auto simp: next_read_def connected_def HEADER_SIZE_def)
  then have "deliver X os base c (make_file_chunk tid n d @ make_file_done tid k z) srv = (Inr (), srv2)"
    using deliver_frame [OF s(1,2) len(1), of FILE_CHUNK X os base "make_file_done tid k z"] m
      deliver_frame [OF s(3,4) len(2), of FILE_DONE X os base "[]"] m2
      make_frame_eq [of FILE_CHUNK] make_frame_eq [of FILE_DONE]
    by (simp add: make_file_chunk_def make_file_done_def)
  with 2 t st assms(7) show ?thesis by (intro exI [of _ srv2]) simp
qed

end
