(* ===== verification/FsxLimits.thy ===== *)
theory FsxLimits
  imports FsxClientMain
begin

text \<open>
  Bounds the code relies on and does not check: the count of the online list has 16 bits
  (\<open>protocol/online_messages.h\<close>), and the queue of a connection has no bound
  (\<open>TcpSession::send\<close> in \<open>net/tcp_session.cpp\<close>).
\<close>

section \<open>Reading fewer names than were written\<close>

lemma online_loop_prefix:
  assumes "\<forall>u \<in> set us. length u < 65536" and "n \<le> length us"
  shows "online_loop (pre @ concat (map put_str us)) n (length pre) = Inr (take n us)"
  using assms
proof (induction us arbitrary: pre n)
  case Nil
  then show ?case by simp
next
  case (Cons u us)
  show ?case
  proof (cases n)
    case (Suc m)
    have "online_loop ((pre @ put_str u) @ concat (map put_str us)) m (length (pre @ put_str u)) = Inr (take m us)"
      using Cons Suc by (intro Cons.IH) simp_all
    moreover have "length u < 65536" using Cons.prems by simp
    ultimately show ?thesis
      using Suc by (simp add: put_str_def [of u] codec_simps Let_def add.assoc)
  qed simp
qed

section \<open>A client that does not read\<close>

text \<open>One connection to a new server, on which nothing has been read yet.\<close>

lemma one_connection:
  "reachable X base w0 (on_accept False (server_init w0))"
  "\<exists>s. sessions (on_accept False (server_init w0)) 0 = Some s \<and> pending_read s = ReadHeader \<and>
     outq s = [] \<and> sess_token s = []"
proof -
  have "server_step X base (server_init w0) (AcceptDone False) (on_accept False (server_init w0))"
    by (rule server_step.run) simp_all
  then show "reachable X base w0 (on_accept False (server_init w0))"
    by (blast intro: reachable.intros)
qed (simp add: on_accept_def server_init_def TcpSession_start_def do_read_header_def stored_frame_def
    TcpSession_new_def)

section \<open>Properties\<close>

text \<open>
  C36: The online list and its 16-bit count: of any list of names, the reader gets the first
  ones, as many as the length of the list leaves modulo 65536; with 65536 users online it gets an
  empty list. Below that bound it gets them all.
\<close>

theorem online_list_wraps:
  assumes "\<forall>u \<in> set us. length u < 65536"
  shows "OnlineListResp_deserialize (OnlineListResp_serialize \<lparr>online_usernames = us\<rparr>) =
    Inr \<lparr>online_usernames = take (length us mod 65536) us\<rparr>"
proof -
  let ?n = "word_of_nat (length us) :: u16"
  have n: "unat ?n = length us mod 65536" by (simp add: unat_of_nat take_bit_eq_mod)
  have "online_loop (put16 ?n @ concat (map put_str us)) (length us mod 65536) 2 =
      Inr (take (length us mod 65536) us)"
    using online_loop_prefix [OF assms, of "length us mod 65536" "put16 ?n"] by simp
  with n show ?thesis
    by (simp add: OnlineListResp_serialize_def OnlineListResp_deserialize_def)
qed

theorem online_list_wraps_witness:
  "OnlineListResp_deserialize (OnlineListResp_serialize \<lparr>online_usernames = replicate 65537 ''alice''\<rparr>) =
    Inr \<lparr>online_usernames = [''alice'']\<rparr>"
proof -
  have one: "(65537 :: nat) mod 65536 = 1" by simp
  have two: "take 1 (replicate 65537 x) = [x]" for x :: string by (simp only: take_replicate) simp
  show ?thesis
    using online_list_wraps [of "replicate 65537 ''alice''"] unfolding length_replicate one two by simp
qed

text \<open>
  C37: The write queue has no bound: whatever the database and the operating system do, for every
  number \<open>k\<close> the server reaches a state in which a connection that never logged in has \<open>k\<close>
  answers queued, none of them completely written, and goes on reading. A client brings it there by sending
  \<open>k\<close> PINGs without reading what comes back.
\<close>

theorem write_queue_unbounded:
  "\<exists>srv s. reachable X base w0 srv \<and> sessions srv 0 = Some s \<and> \<not> is_authenticated s \<and>
    pending_read s = ReadHeader \<and> outq s = replicate k (frame PONG (string_bytes ''pong''))"
proof -
  obtain s where s: "sessions (on_accept False (server_init w0)) 0 = Some s" "pending_read s = ReadHeader"
      "outq s = []" "sess_token s = []"
    using one_connection(2) [of w0] by (elim exE conjE) (rule that)
  obtain srv where d: "deliver X sample_os base 0
        (concat (replicate k (make_frame 2 (string_bytes ''ping'')))) (on_accept False (server_init w0)) =
        (Inr (), srv)"
    and q: "only_queued 0 (replicate k pong_frame) (on_accept False (server_init w0)) srv"
    using deliver_pings [OF s(1,2), of X sample_os base k] by auto
  have "reachable X base w0 srv" by (rule deliver_reachable [OF one_connection(1) d])
  with q s show ?thesis
    by (auto simp: only_queued_def is_authenticated_def pong_frame_def intro!: exI [of _ srv])
qed

end
