(* ===== verification/FsxLogger.thy ===== *)
theory FsxLogger
  imports FsxConfig
begin

text \<open>
  \<open>Logger\<close> (\<open>core/src/log/logger.cpp\<close>): one object, whose mutex makes each call atomic. A file
  system gives each path its text; \<open>opens\<close> is whether a path can be opened for appending (a
  stream that did not open drops what is written to it). The clock is an argument: \<open>now\<close>, as
  \<open>now_iso\<close> formats it.
\<close>

record logger =
  log_to :: string
  log_files :: "string \<Rightarrow> string"

definition append_file :: "(string \<Rightarrow> bool) \<Rightarrow> string \<Rightarrow> string \<Rightarrow> (string \<Rightarrow> string) \<Rightarrow> string \<Rightarrow> string" where
  "append_file opens path text files =
     (if opens path then files(path := files path @ text) else files)"

definition newline :: string where
  "newline = [CHR 0x0A]"

definition Logger_init :: "(string \<Rightarrow> bool) \<Rightarrow> string \<Rightarrow> string \<Rightarrow> logger \<Rightarrow> logger" where
  "Logger_init opens now path l =
     l\<lparr>log_to := path,
       log_files := append_file opens path (now @ '' [INFO] logger initialized'' @ newline) (log_files l)\<rparr>"

definition Logger_write :: "(string \<Rightarrow> bool) \<Rightarrow> string \<Rightarrow> string \<Rightarrow> string \<Rightarrow> logger \<Rightarrow> logger" where
  "Logger_write opens now level msg l =
     l\<lparr>log_files := append_file opens (log_to l) (now @ '' ['' @ level @ ''] '' @ msg @ newline) (log_files l)\<rparr>"

definition Logger_info :: "(string \<Rightarrow> bool) \<Rightarrow> string \<Rightarrow> string \<Rightarrow> logger \<Rightarrow> logger" where
  "Logger_info opens now msg = Logger_write opens now ''INFO'' msg"

definition Logger_warn :: "(string \<Rightarrow> bool) \<Rightarrow> string \<Rightarrow> string \<Rightarrow> logger \<Rightarrow> logger" where
  "Logger_warn opens now msg = Logger_write opens now ''WARN'' msg"

definition Logger_error :: "(string \<Rightarrow> bool) \<Rightarrow> string \<Rightarrow> string \<Rightarrow> logger \<Rightarrow> logger" where
  "Logger_error opens now msg = Logger_write opens now ''ERROR'' msg"

text \<open>A run of entries, each with its time, level and message, appends their lines in order.\<close>

type_synonym entry = "string \<times> string \<times> string"

definition entry_line :: "entry \<Rightarrow> string" where
  "entry_line e = (case e of (now, level, msg) \<Rightarrow> now @ '' ['' @ level @ ''] '' @ msg @ newline)"

definition log_all :: "(string \<Rightarrow> bool) \<Rightarrow> entry list \<Rightarrow> logger \<Rightarrow> logger" where
  "log_all opens es l = fold (\<lambda>(now, level, msg) l. Logger_write opens now level msg l) es l"

lemma log_all_appends:
  "log_to (log_all opens es l) = log_to l \<and>
   log_files (log_all opens es l) = append_file opens (log_to l) (concat (map entry_line es)) (log_files l)"
proof (induction es arbitrary: l)
  case Nil
  then show ?case by (simp add: log_all_def append_file_def)
next
  case (Cons e es)
  obtain now level msg where e: "e = (now, level, msg)" by (metis prod.exhaust)
  have "log_all opens (e # es) l = log_all opens es (Logger_write opens now level msg l)"
    by (simp add: log_all_def e)
  with Cons.IH [of "Logger_write opens now level msg l"] show ?case
    by (simp add: Logger_write_def append_file_def entry_line_def e)
qed

text \<open>
  The log is append-only: after \<open>init\<close> and any entries, the file at the path holds what it held,
  the line of \<open>init\<close> and the lines of the entries, and no other file changed.
\<close>

lemma log_append_only:
  assumes "opens path"
  shows "log_files (log_all opens es (Logger_init opens now path l)) =
    (log_files l)(path := log_files l path @ now @ '' [INFO] logger initialized'' @ newline @
       concat (map entry_line es))"
  using assms by (simp add: log_all_appends Logger_init_def append_file_def)

end
